(* ===== verification/GoBase.thy ===== *)
theory GoBase
  imports Main "HOL-Library.Sublist"
begin

text \<open>
  The prelude: what every part of the service takes from the Go language and from the packages
  \<open>strings\<close>, \<open>errors\<close>, \<open>fmt\<close> and \<open>unicode/utf8\<close> of its standard library.

  A Go string is a sequence of bytes, here the list of its characters, so that \<open>length\<close> is Go's
  \<open>len\<close>.  An \<open>error\<close> that may be nil is a \<open>go_error option\<close>; a call that returns a value or an
  error is a sum, with \<open>Inl\<close> for the error.  The collections \<open>prog_simps\<close> (running a
  sequence of effects) and \<open>contract_simps\<close> (what a component promises its clients) are filled by
  the theories that follow.
\<close>

named_theorems prog_simps \<open>how a program with effects runs\<close>
named_theorems contract_simps \<open>what the operations of a component promise\<close>

section \<open>Bytes and substrings\<close>

abbreviation byte :: "char \<Rightarrow> nat" where
  "byte c \<equiv> of_char c"

lemma byte_less_256: "byte c < 256"
  using of_char_mod_256 [of c] mod_less_divisor [of 256 "byte c"] by simp

fun strings_HasPrefix :: "string \<Rightarrow> string \<Rightarrow> bool" where
  "strings_HasPrefix s [] = True"
| "strings_HasPrefix [] (p # ps) = False"
| "strings_HasPrefix (c # s) (p # ps) = (c = p \<and> strings_HasPrefix s ps)"

fun strings_Contains :: "string \<Rightarrow> string \<Rightarrow> bool" where
  "strings_Contains [] sub = (sub = [])"
| "strings_Contains (c # s) sub = (strings_HasPrefix (c # s) sub \<or> strings_Contains s sub)"

lemma HasPrefix_iff: "strings_HasPrefix s p \<longleftrightarrow> prefix p s"
  by (induction s p rule: strings_HasPrefix.induct) auto

lemma Contains_iff: "strings_Contains s sub \<longleftrightarrow> sublist sub s"
  by (induction s) (auto simp: HasPrefix_iff sublist_Cons_right)

lemma Contains_self: "strings_Contains s s"
  by (simp add: Contains_iff)

lemma Contains_append: "strings_Contains s sub \<Longrightarrow> strings_Contains (m @ s) sub"
  by (auto simp: Contains_iff intro: sublist_order.order_trans)

section \<open>Numbers as decimal text\<close>

function dec_nat :: "nat \<Rightarrow> string" where
  "dec_nat n = (if n < 10 then [char_of (48 + n)]
     else dec_nat (n div 10) @ [char_of (48 + n mod 10)])"
  by pat_completeness auto
termination
  by (relation "measure id") auto

declare dec_nat.simps [simp del]

definition strconv_Itoa :: "int \<Rightarrow> string" where
  "strconv_Itoa i = (if i < 0 then ''-'' @ dec_nat (nat (- i)) else dec_nat (nat i))"

section \<open>Errors\<close>

text \<open>
  \<open>Sentinel m\<close> is a package-level \<open>errors.New\<close> value that callers compare against, \<open>New m\<close> an error
  made on the spot, \<open>Wrap m e\<close> what \<open>fmt.Errorf("m: %w", e)\<close> returns.
\<close>

datatype go_error = Sentinel string | New string | Wrap string go_error

fun Error :: "go_error \<Rightarrow> string" where
  "Error (Sentinel m) = m"
| "Error (New m) = m"
| "Error (Wrap m e) = m @ '': '' @ Error e"

fun errors_Is :: "go_error \<Rightarrow> go_error \<Rightarrow> bool" where
  "errors_Is (Wrap m e) t = (Wrap m e = t \<or> errors_Is e t)"
| "errors_Is e t = (e = t)"

lemma errors_Is_refl [simp]: "errors_Is e e"
  by (cases e) auto

lemma Wrap_text_kept: "strings_Contains (Error e) t \<Longrightarrow> strings_Contains (Error (Wrap m e)) t"
  by (simp add: Contains_append)

text \<open>A chain of checks, each with its error, accepts what passes all of them.\<close>

lemma check_None_iff: "((if b then Some x else y) = None) \<longleftrightarrow> \<not> b \<and> y = None"
  by simp

section \<open>UTF-8\<close>

text \<open>
  \<open>rune_len s\<close> is the number of bytes of the well-formed UTF-8 sequence that starts \<open>s\<close>, 0 when
  there is none (the table of \<open>utf8.DecodeRuneInString\<close>).
\<close>

definition in_range :: "nat \<Rightarrow> nat \<Rightarrow> nat \<Rightarrow> bool" where
  "in_range lo hi n \<longleftrightarrow> lo \<le> n \<and> n \<le> hi"

definition second_byte_ok :: "nat \<Rightarrow> nat \<Rightarrow> bool" where
  "second_byte_ok b0 b1 \<longleftrightarrow>
     (if b0 = 0xE0 then in_range 0xA0 0xBF b1
      else if b0 = 0xED then in_range 0x80 0x9F b1
      else if b0 = 0xF0 then in_range 0x90 0xBF b1
      else if b0 = 0xF4 then in_range 0x80 0x8F b1
      else in_range 0x80 0xBF b1)"

definition tail_bytes :: "nat \<Rightarrow> nat" where
  "tail_bytes b0 = (if in_range 0xC2 0xDF b0 then 1
     else if in_range 0xE0 0xEF b0 then 2
     else if in_range 0xF0 0xF4 b0 then 3 else 0)"

fun rune_len :: "string \<Rightarrow> nat" where
  "rune_len [] = 0"
| "rune_len (c # s) =
     (if byte c < 0x80 then 1
      else case s of [] \<Rightarrow> 0
        | d # s' \<Rightarrow>
          (let n = tail_bytes (byte c) in
           if 0 < n \<and> second_byte_ok (byte c) (byte d) \<and> n - 1 \<le> length s' \<and>
              list_all (\<lambda>e. in_range 0x80 0xBF (byte e)) (take (n - 1) s')
           then Suc n else 0))"

lemma rune_len_le: "rune_len s \<le> length s"
  by (cases s rule: rune_len.cases) (auto split: list.splits simp: Let_def)

text \<open>A string is valid UTF-8 when it is a sequence of such encodings.\<close>

function valid_utf8 :: "string \<Rightarrow> bool" where
  "valid_utf8 s = (if s = [] then True else if rune_len s = 0 then False
     else valid_utf8 (drop (rune_len s) s))"
  by pat_completeness auto
termination
  by (relation "measure length") auto

declare valid_utf8.simps [simp del]

lemma valid_utf8_Nil [simp]: "valid_utf8 []"
  by (simp add: valid_utf8.simps)

lemma valid_utf8_ascii: "list_all (\<lambda>c. byte c < 0x80) s \<Longrightarrow> valid_utf8 s"
proof (induction s)
  case (Cons c s)
  then show ?case by (simp add: valid_utf8.simps [of "c # s"])
qed simp

section \<open>Trimming\<close>

text \<open>
  \<open>strings.TrimSpace\<close> strips the code points of \<open>unicode.IsSpace\<close> from both ends; these are
  their UTF-8 encodings.
\<close>

definition space_runes :: "string list" where
  "space_runes =
     [[CHR 0x09], [CHR 0x0A], [CHR 0x0B], [CHR 0x0C], [CHR 0x0D], [CHR 0x20],
      [CHR 0xC2, CHR 0x85], [CHR 0xC2, CHR 0xA0], [CHR 0xE1, CHR 0x9A, CHR 0x80]] @
     map (\<lambda>n. [CHR 0xE2, CHR 0x80, char_of n])
       [0x80 :: nat, 0x81, 0x82, 0x83, 0x84, 0x85, 0x86, 0x87, 0x88, 0x89, 0x8A, 0xA8, 0xA9, 0xAF] @
     [[CHR 0xE2, CHR 0x81, CHR 0x9F], [CHR 0xE3, CHR 0x80, CHR 0x80]]"

lemma space_runes_nonempty: "r \<in> set space_runes \<Longrightarrow> r \<noteq> []"
  by (auto simp: space_runes_def)

definition leading_space :: "string list \<Rightarrow> string \<Rightarrow> nat" where
  "leading_space rs s = (case find (strings_HasPrefix s) rs of None \<Rightarrow> 0 | Some r \<Rightarrow> length r)"

function trim_front :: "string list \<Rightarrow> string \<Rightarrow> string" where
  "trim_front rs s = (if s = [] then s else if leading_space rs s = 0 then s
     else trim_front rs (drop (leading_space rs s) s))"
  by pat_completeness auto
termination
  by (relation "measure (\<lambda>(rs, s). length s)") auto

declare trim_front.simps [simp del]

definition strings_TrimSpace :: "string \<Rightarrow> string" where
  "strings_TrimSpace s =
     rev (trim_front (map rev space_runes) (rev (trim_front space_runes s)))"

text \<open>
  Trimming removes what it should and nothing else: the result starts with no space, is a suffix
  of what it was, and trimming twice is trimming once.
\<close>

definition no_leading :: "string list \<Rightarrow> string \<Rightarrow> bool" where
  "no_leading rs s \<longleftrightarrow> (\<forall>r \<in> set rs. \<not> prefix r s)"

lemma leading_space_0: "[] \<notin> set rs \<Longrightarrow> leading_space rs s = 0 \<longleftrightarrow> no_leading rs s"
  by (auto simp: leading_space_def no_leading_def find_None_iff find_Some_iff HasPrefix_iff
      split: option.splits) (metis nth_mem)

lemma trim_front_id: "leading_space rs s = 0 \<Longrightarrow> trim_front rs s = s"
  by (simp add: trim_front.simps)

lemma trim_front_suffix: "suffix (trim_front rs s) s"
proof (induction rs s rule: trim_front.induct)
  case (1 rs s)
  then show ?case
    by (subst trim_front.simps) (auto intro: suffix_order.trans suffix_drop)
qed

lemma trim_front_clean: "[] \<notin> set rs \<Longrightarrow> no_leading rs (trim_front rs s)"
proof (induction rs s rule: trim_front.induct)
  case (1 rs s)
  consider "s = []" | "s \<noteq> []" "leading_space rs s = 0" | "s \<noteq> []" "leading_space rs s \<noteq> 0"
    by blast
  then show ?case
  proof cases
    case 1
    with "1.prems" show ?thesis by (auto simp: no_leading_def trim_front.simps)
  next
    case 2
    with "1.prems" show ?thesis by (simp add: trim_front_id leading_space_0)
  next
    case 3
    with "1.IH" "1.prems" show ?thesis by (subst trim_front.simps) simp
  qed
qed

lemma space_runes_no_Nil [simp]: "[] \<notin> set space_runes" "[] \<notin> rev ` set space_runes"
  using space_runes_nonempty by auto

lemma no_leading_prefix: "no_leading rs s \<Longrightarrow> prefix t s \<Longrightarrow> no_leading rs t"
  by (auto simp: no_leading_def intro: prefix_order.trans)

lemma trim_front_noop: "[] \<notin> set rs \<Longrightarrow> no_leading rs s \<Longrightarrow> trim_front rs s = s"
  by (simp add: trim_front_id leading_space_0)

lemma TrimSpace_noop:
  assumes "no_leading space_runes s" and "no_leading (map rev space_runes) (rev s)"
  shows "strings_TrimSpace s = s"
  using assms by (simp add: strings_TrimSpace_def trim_front_noop)

lemma TrimSpace_clean:
  "no_leading space_runes (strings_TrimSpace s)"
  "no_leading (map rev space_runes) (rev (strings_TrimSpace s))"
proof -
  define f where "f = trim_front space_runes s"
  have f: "no_leading space_runes f"
    unfolding f_def by (rule trim_front_clean) simp
  have "suffix (trim_front (map rev space_runes) (rev f)) (rev f)"
    by (rule trim_front_suffix)
  then have "prefix (strings_TrimSpace s) f"
    by (simp add: strings_TrimSpace_def f_def suffix_to_prefix)
  with f show "no_leading space_runes (strings_TrimSpace s)"
    by (rule no_leading_prefix)
  show "no_leading (map rev space_runes) (rev (strings_TrimSpace s))"
    unfolding strings_TrimSpace_def rev_rev_ident by (rule trim_front_clean) simp
qed

lemma TrimSpace_idem: "strings_TrimSpace (strings_TrimSpace s) = strings_TrimSpace s"
  by (rule TrimSpace_noop) (rule TrimSpace_clean)+

end
