(* ===== verification/GoTime.thy ===== *)
theory GoTime
  imports GoBase "HOL-Library.Monad_Syntax"
begin

text \<open>
  The part of the package \<open>time\<close> the service uses.  An instant is the number of nanoseconds since
  the Unix epoch, with the offset of its zone in seconds and, for \<open>time.Now\<close>, the reading of the
  monotonic clock; a duration is a number of nanoseconds.  The text form is RFC 3339 with the
  nanoseconds, as \<open>Time.MarshalJSON\<close> prints and \<open>Time.UnmarshalJSON\<close> reads it; both go through
  the proleptic Gregorian calendar, and \<open>parse_format\<close> is their round trip.
\<close>

record go_time =
  unix_ns :: int
  zone :: int
  mono :: "int option"

definition zero_time :: go_time where
  \<comment> \<open>January 1, year 1, 00:00:00 UTC\<close>
  "zero_time = \<lparr>unix_ns = - 62135596800000000000, zone = 0, mono = None\<rparr>"

definition strip_mono :: "go_time \<Rightarrow> go_time" where
  "strip_mono t = t\<lparr>mono := None\<rparr>"

abbreviation Millisecond :: int where "Millisecond \<equiv> 1000000"
abbreviation Second :: int where "Second \<equiv> 1000000000"

text \<open>Comparison and difference use the monotonic readings where both instants have one.\<close>

definition time_Sub :: "go_time \<Rightarrow> go_time \<Rightarrow> int" where
  "time_Sub t u = (case (mono t, mono u) of
     (Some a, Some b) \<Rightarrow> a - b | _ \<Rightarrow> unix_ns t - unix_ns u)"

definition time_Before :: "go_time \<Rightarrow> go_time \<Rightarrow> bool" where
  "time_Before t u = (case (mono t, mono u) of
     (Some a, Some b) \<Rightarrow> a < b | _ \<Rightarrow> unix_ns t < unix_ns u)"

definition time_Add :: "go_time \<Rightarrow> int \<Rightarrow> go_time" where
  "time_Add t d = t\<lparr>unix_ns := unix_ns t + d, mono := map_option (\<lambda>a. a + d) (mono t)\<rparr>"

section \<open>The calendar\<close>

definition leap :: "int \<Rightarrow> bool" where
  "leap y \<longleftrightarrow> y mod 4 = 0 \<and> (y mod 100 \<noteq> 0 \<or> y mod 400 = 0)"

text \<open>Days from January 1 of year 0 to January 1 of year \<open>y\<close>.\<close>

definition year_start :: "int \<Rightarrow> int" where
  "year_start y = 365 * y + (y - 1) div 4 - (y - 1) div 100 + (y - 1) div 400 + 1"

definition year_of_day :: "int \<Rightarrow> int" where
  "year_of_day d =
     (let q = (400 * d) div 146097 in
      if d < year_start q then q - 1
      else if year_start (q + 1) \<le> d then q + 1 else q)"

definition month_start :: "bool \<Rightarrow> int \<Rightarrow> int" where
  "month_start l m =
     (if m \<le> 1 then 0 else if m = 2 then 31
      else (if l then 1 else 0) +
        (if m = 3 then 59 else if m = 4 then 90 else if m = 5 then 120 else if m = 6 then 151
         else if m = 7 then 181 else if m = 8 then 212 else if m = 9 then 243
         else if m = 10 then 273 else if m = 11 then 304 else if m = 12 then 334 else 365))"

definition days_in :: "int \<Rightarrow> int \<Rightarrow> int" where
  "days_in y m = month_start (leap y) (m + 1) - month_start (leap y) m"

definition month_of :: "bool \<Rightarrow> int \<Rightarrow> int" where
  "month_of l yd = (case find (\<lambda>m. month_start l m \<le> yd) [12, 11, 10, 9, 8, 7, 6, 5, 4, 3, 2] of
     None \<Rightarrow> 1 | Some m \<Rightarrow> m)"

lemma div_pred:
  fixes y k :: int
  assumes "0 < k"
  shows "y div k = (y - 1) div k + (if y mod k = 0 then 1 else 0)"
proof (cases "y mod k = 0")
  case True
  then have "y = k * (y div k)" by auto
  then have "(y - 1) div k = (k * (y div k) + (- 1)) div k" by simp
  also have "\<dots> = y div k + (- 1) div k" using assms by (subst div_mult_self4) auto
  finally show ?thesis using True assms by (simp add: div_eq_minus1)
next
  case False
  have "y - 1 = k * (y div k) + (y mod k - 1)" by simp
  then have "(y - 1) div k = (k * (y div k) + (y mod k - 1)) div k" by (rule arg_cong)
  also have "\<dots> = y div k + (y mod k - 1) div k" using assms by (subst div_mult_self4) auto
  also have "(y mod k - 1) div k = 0"
    using False assms pos_mod_bound [of k y] pos_mod_sign [of k y]
    by (intro div_pos_pos_trivial) linarith+
  finally show ?thesis using False by simp
qed

lemma mod_chain: "y mod 400 = 0 \<Longrightarrow> y mod 100 = 0" "y mod 100 = 0 \<Longrightarrow> y mod 4 = 0" for y :: int
  by presburger+

lemma year_start_Suc: "year_start (y + 1) = year_start y + (if leap y then 366 else 365)"
proof -
  define a b c a' b' c' where defs: "a = y div 4" "b = y div 100" "c = y div 400"
    "a' = (y - 1) div 4" "b' = (y - 1) div 100" "c' = (y - 1) div 400"
  define A B C where mods: "A \<longleftrightarrow> y mod 4 = 0" "B \<longleftrightarrow> y mod 100 = 0" "C \<longleftrightarrow> y mod 400 = 0"
  have "a = a' + (if A then 1 else 0)" "b = b' + (if B then 1 else 0)"
    "c = c' + (if C then 1 else 0)"
    unfolding defs mods by (rule div_pred; simp)+
  moreover have "year_start (y + 1) = 365 * (y + 1) + a - b + c + 1"
    "year_start y = 365 * y + a' - b' + c' + 1"
    by (simp_all add: year_start_def defs)
  moreover have "C \<Longrightarrow> B" "B \<Longrightarrow> A" "leap y \<longleftrightarrow> A \<and> (\<not> B \<or> C)"
    using mod_chain [of y] by (auto simp: leap_def mods)
  ultimately show ?thesis
    by (cases A; cases B; cases C) simp_all
qed

lemma year_start_bounds:
  "146097 * y - 700 \<le> 400 * year_start y" "400 * year_start y \<le> 146097 * y + 700"
proof -
  have "400 * year_start y = 146000 * y + 100 * (4 * ((y - 1) div 4)) - 4 * (100 * ((y - 1) div 100))
      + 400 * ((y - 1) div 400) + 400"
    by (simp add: year_start_def)
  moreover have "z - k < k * (z div k) \<and> k * (z div k) \<le> z" if "0 < k" for z k :: int
    using that mult_div_mod_eq [of k z] pos_mod_bound [of k z] pos_mod_sign [of k z] by linarith
  from this [of 4 "y - 1"] this [of 100 "y - 1"] this [of 400 "y - 1"]
  have "y - 1 - 4 < 4 * ((y - 1) div 4) \<and> 4 * ((y - 1) div 4) \<le> y - 1"
    "y - 1 - 100 < 100 * ((y - 1) div 100) \<and> 100 * ((y - 1) div 100) \<le> y - 1"
    "y - 1 - 400 < 400 * ((y - 1) div 400) \<and> 400 * ((y - 1) div 400) \<le> y - 1"
    by simp_all
  ultimately show "146097 * y - 700 \<le> 400 * year_start y" "400 * year_start y \<le> 146097 * y + 700"
    by linarith+
qed

lemma year_of_day:
  "year_start (year_of_day d) \<le> d" "d < year_start (year_of_day d + 1)"
proof -
  define q where "q = (400 * d) div 146097"
  have q: "146097 * q \<le> 400 * d" "400 * d < 146097 * q + 146097"
    unfolding q_def by linarith+
  have "year_start (q - 1) \<le> d"
    using year_start_bounds(2) [of "q - 1"] q by (simp add: right_diff_distrib)
  moreover have "d < year_start (q + 2)"
    using year_start_bounds(1) [of "q + 2"] q by (simp add: distrib_left)
  ultimately have "year_start (year_of_day d) \<le> d \<and> d < year_start (year_of_day d + 1)"
    unfolding year_of_day_def q_def [symmetric] Let_def by (auto simp: add.commute)
  then show "year_start (year_of_day d) \<le> d" "d < year_start (year_of_day d + 1)"
    by auto
qed

lemma month_start_simps [simp]:
  "month_start l 1 = 0" "month_start l 2 = 31"
  "month_start l 3 = 59 + (if l then 1 else 0)" "month_start l 4 = 90 + (if l then 1 else 0)"
  "month_start l 5 = 120 + (if l then 1 else 0)" "month_start l 6 = 151 + (if l then 1 else 0)"
  "month_start l 7 = 181 + (if l then 1 else 0)" "month_start l 8 = 212 + (if l then 1 else 0)"
  "month_start l 9 = 243 + (if l then 1 else 0)" "month_start l 10 = 273 + (if l then 1 else 0)"
  "month_start l 11 = 304 + (if l then 1 else 0)" "month_start l 12 = 334 + (if l then 1 else 0)"
  "month_start l 13 = 365 + (if l then 1 else 0)"
  by (simp_all add: month_start_def)

lemma month_of_bounds: "1 \<le> month_of l yd \<and> month_of l yd \<le> 12"
  by (simp add: month_of_def)

lemma month_of_start:
  assumes "0 \<le> yd" and "yd < (if l then 366 else 365)"
  shows "month_start l (month_of l yd) \<le> yd" "yd < month_start l (month_of l yd + 1)"
  using assms by (auto simp: month_of_def)

text \<open>The fields of an instant in its zone.\<close>

record civil =
  year :: int
  month :: int
  day :: int
  hour :: int
  minute :: int
  second :: int
  nanos :: int

definition local_secs :: "go_time \<Rightarrow> int" where
  "local_secs t = unix_ns t div Second + zone t + 62167219200"

definition civil_of :: "go_time \<Rightarrow> civil" where
  "civil_of t =
     (let s = local_secs t; d = s div 86400; y = year_of_day d; l = leap y;
          yd = d - year_start y; m = month_of l yd; r = s mod 86400
      in \<lparr>year = y, month = m, day = yd - month_start l m + 1,
           hour = r div 3600, minute = r mod 3600 div 60, second = r mod 60,
           nanos = unix_ns t mod Second\<rparr>)"

definition instant_of :: "civil \<Rightarrow> int \<Rightarrow> int" where
  "instant_of c off =
     ((year_start (year c) + month_start (leap (year c)) (month c) + day c - 1) * 86400
       + hour c * 3600 + minute c * 60 + second c - 62167219200 - off) * Second + nanos c"

definition civil_ok :: "civil \<Rightarrow> bool" where
  "civil_ok c \<longleftrightarrow> 1 \<le> month c \<and> month c \<le> 12 \<and> 1 \<le> day c \<and> day c \<le> days_in (year c) (month c)
     \<and> 0 \<le> hour c \<and> hour c < 24 \<and> 0 \<le> minute c \<and> minute c < 60
     \<and> 0 \<le> second c \<and> second c < 60 \<and> 0 \<le> nanos c \<and> nanos c < Second"

lemma year_day_bounds:
  "0 \<le> d - year_start (year_of_day d)"
  "d - year_start (year_of_day d) < (if leap (year_of_day d) then 366 else 365)"
  using year_of_day [of d] year_start_Suc [of "year_of_day d"] by auto

lemma split_day:
  fixes r :: int
  assumes "0 \<le> r" and "r < 86400"
  shows "0 \<le> r div 3600" "r div 3600 < 24" "0 \<le> r mod 3600 div 60" "r mod 3600 div 60 < 60"
    "r div 3600 * 3600 + r mod 3600 div 60 * 60 + r mod 60 = r"
proof -
  have "r mod 60 = r mod 3600 mod 60" by (simp add: mod_mod_cancel)
  then show "r div 3600 * 3600 + r mod 3600 div 60 * 60 + r mod 60 = r"
    using div_mult_mod_eq [of "r mod 3600" 60] div_mult_mod_eq [of r 3600] by linarith
  show "0 \<le> r div 3600" "r div 3600 < 24" using assms by linarith+
  have "0 \<le> r mod 3600" "r mod 3600 < 3600" by simp_all
  then show "0 \<le> r mod 3600 div 60" "r mod 3600 div 60 < 60" by linarith+
qed

lemma civil_of_ok: "civil_ok (civil_of t)"
proof -
  define s d r where "s = local_secs t" and "d = s div 86400" and "r = s mod 86400"
  have r: "0 \<le> r" "r < 86400" by (simp_all add: r_def)
  show ?thesis
    using month_of_start [OF year_day_bounds, of d] month_of_bounds split_day [OF r]
    by (simp add: civil_ok_def civil_of_def Let_def s_def [symmetric] d_def [symmetric]
        r_def [symmetric] days_in_def)
qed

lemma instant_of_civil_of: "instant_of (civil_of t) (zone t) = unix_ns t"
proof -
  define s d r where "s = local_secs t" and "d = s div 86400" and "r = s mod 86400"
  have r: "0 \<le> r" "r < 86400" by (simp_all add: r_def)
  have "instant_of (civil_of t) (zone t) =
      (d * 86400 + (r div 3600 * 3600 + r mod 3600 div 60 * 60 + r mod 60)
        - 62167219200 - zone t) * Second + unix_ns t mod Second"
    by (simp add: instant_of_def civil_of_def Let_def s_def [symmetric] d_def [symmetric]
        r_def [symmetric] algebra_simps)
  also have "\<dots> = (s - 62167219200 - zone t) * Second + unix_ns t mod Second"
    unfolding split_day(5) [OF r] by (simp add: d_def r_def)
  also have "\<dots> = unix_ns t div Second * Second + unix_ns t mod Second"
    by (simp add: s_def local_secs_def)
  finally show ?thesis by simp
qed

section \<open>RFC 3339\<close>

text \<open>Fixed-width decimal fields, most significant digit first.\<close>

fun pad :: "nat \<Rightarrow> nat \<Rightarrow> string" where
  "pad 0 n = []"
| "pad (Suc w) n = pad w (n div 10) @ [char_of (48 + n mod 10)]"

definition is_digit :: "char \<Rightarrow> bool" where
  "is_digit c \<longleftrightarrow> 48 \<le> byte c \<and> byte c \<le> 57"

definition digit_val :: "char \<Rightarrow> nat" where
  "digit_val c = byte c - 48"

definition digits_val :: "string \<Rightarrow> nat" where
  "digits_val s = foldl (\<lambda>a c. 10 * a + digit_val c) 0 s"

lemma length_pad [simp]: "length (pad w n) = w"
  by (induction w arbitrary: n) auto

lemma byte_digit: "byte (char_of (48 + n mod 10 :: nat)) = 48 + n mod 10"
proof -
  have "n mod 10 < 10" by simp
  then have "48 + n mod 10 < 256" by linarith
  then show ?thesis by (simp add: of_char_of)
qed

lemma pad_digits: "list_all is_digit (pad w n)"
proof (induction w arbitrary: n)
  case (Suc w)
  have "n mod 10 < 10" by simp
  then have "n mod 10 \<le> 9" by linarith
  with Suc show ?case by (simp add: is_digit_def byte_digit)
qed simp

lemma digits_val_snoc: "digits_val (s @ [c]) = 10 * digits_val s + digit_val c"
  by (simp add: digits_val_def)

lemma digits_val_pad: "n < 10 ^ w \<Longrightarrow> digits_val (pad w n) = n"
proof (induction w arbitrary: n)
  case 0
  then show ?case by (simp add: digits_val_def)
next
  case (Suc w)
  then have "n div 10 < 10 ^ w" by (simp add: less_mult_imp_div_less)
  with Suc.IH show ?case by (simp add: digits_val_snoc digit_val_def byte_digit)
qed

text \<open>Printing: \<open>Time.appendStrictRFC3339\<close>, the text \<open>MarshalJSON\<close> puts between quotes.\<close>

definition strip_zeros :: "string \<Rightarrow> string" where
  "strip_zeros s = rev (dropWhile (\<lambda>c. c = CHR ''0'') (rev s))"

definition fraction_text :: "int \<Rightarrow> string" where
  "fraction_text ns = (if ns = 0 then [] else CHR ''.'' # strip_zeros (pad 9 (nat ns)))"

definition zone_text :: "int \<Rightarrow> string" where
  "zone_text off =
     (if off = 0 then ''Z''
      else let z = nat (\<bar>off\<bar> div 60) in
        (if off < 0 \<and> z \<noteq> 0 then CHR ''-'' else CHR ''+'') #
        pad 2 (z div 60) @ CHR '':'' # pad 2 (z mod 60))"

definition clock_text :: "civil \<Rightarrow> string" where
  "clock_text c =
     pad 4 (nat (year c)) @ CHR ''-'' # pad 2 (nat (month c)) @ CHR ''-'' # pad 2 (nat (day c)) @
     CHR ''T'' # pad 2 (nat (hour c)) @ CHR '':'' # pad 2 (nat (minute c)) @
     CHR '':'' # pad 2 (nat (second c)) @ fraction_text (nanos c)"

definition time_MarshalText :: "go_time \<Rightarrow> go_error + string" where
  "time_MarshalText t =
     (let c = civil_of t in
      if year c < 0 \<or> 9999 < year c then
        Inl (New ''Time.MarshalJSON: year outside of range [0,9999]'')
      else if 24 \<le> \<bar>zone t\<bar> div 3600 then
        Inl (New ''Time.MarshalJSON: timezone hour outside of range [0,23]'')
      else Inr (clock_text c @ zone_text (zone t)))"

text \<open>The text of a duration, \<open>Duration.String\<close>: the unit below a second is chosen by size.\<close>

definition fmt_frac :: "nat \<Rightarrow> nat \<Rightarrow> string" where
  "fmt_frac prec v = (let f = v mod 10 ^ prec in
     dec_nat (v div 10 ^ prec) @ (if f = 0 then [] else CHR ''.'' # strip_zeros (pad prec f)))"

definition duration_String :: "int \<Rightarrow> string" where
  "duration_String d =
     (let u = nat \<bar>d\<bar>; s = u div 1000000000 in
      (if d < 0 then ''-'' else []) @
      (if u = 0 then ''0s''
       else if u < 1000 then dec_nat u @ ''ns''
       else if u < 1000000 then fmt_frac 3 u @ [CHR 0xC2, CHR 0xB5, CHR ''s'']
       else if u < 1000000000 then fmt_frac 6 u @ ''ms''
       else
         (if 3600 \<le> s then dec_nat (s div 3600) @ ''h'' else []) @
         (if 60 \<le> s then dec_nat (s div 60 mod 60) @ ''m'' else []) @
         fmt_frac 9 (s mod 60 * 1000000000 + u mod 1000000000) @ ''s''))"

text \<open>Reading: \<open>time.Parse\<close> with the layout \<open>RFC3339\<close>, which \<open>UnmarshalJSON\<close> falls back to.\<close>

definition take_num :: "nat \<Rightarrow> string \<Rightarrow> (nat \<times> string) option" where
  "take_num w s = (if w \<le> length s \<and> list_all is_digit (take w s)
     then Some (digits_val (take w s), drop w s) else None)"

definition take_hour :: "string \<Rightarrow> (nat \<times> string) option" where
  "take_hour s = (case take_num 2 s of Some r \<Rightarrow> Some r | None \<Rightarrow> take_num 1 s)"

fun expect :: "char \<Rightarrow> string \<Rightarrow> string option" where
  "expect c [] = None"
| "expect c (d # s) = (if c = d then Some s else None)"

definition guard_opt :: "bool \<Rightarrow> unit option" where
  "guard_opt b = (if b then Some () else None)"

definition frac_val :: "string \<Rightarrow> nat" where
  "frac_val ds = (let d = take 9 ds in digits_val d * 10 ^ (9 - length d))"

definition take_fraction :: "string \<Rightarrow> nat \<times> string" where
  "take_fraction s = (case s of
     c # d # s' \<Rightarrow>
       if (c = CHR ''.'' \<or> c = CHR '','') \<and> is_digit d
       then (frac_val (takeWhile is_digit (d # s')), dropWhile is_digit (d # s'))
       else (0, s)
   | _ \<Rightarrow> (0, s))"

definition take_zone :: "string \<Rightarrow> (int \<times> string) option" where
  "take_zone s = (case s of
     [] \<Rightarrow> None
   | c # s \<Rightarrow>
       if c = CHR ''Z'' then Some (0, s)
       else do {
         guard_opt (c = CHR ''+'' \<or> c = CHR ''-'');
         (h, s) \<leftarrow> take_num 2 s;
         s \<leftarrow> expect (CHR '':'') s;
         (m, s) \<leftarrow> take_num 2 s;
         guard_opt (h \<le> 24 \<and> m \<le> 60);
         Some ((if c = CHR ''-'' then - 1 else 1) * (int h * 3600 + int m * 60), s)
       })"

definition take_clock :: "string \<Rightarrow> (civil \<times> string) option" where
  "take_clock s = do {
     (y, s) \<leftarrow> take_num 4 s;
     s \<leftarrow> expect (CHR ''-'') s;
     (mo, s) \<leftarrow> take_num 2 s;
     s \<leftarrow> expect (CHR ''-'') s;
     (d, s) \<leftarrow> take_num 2 s;
     s \<leftarrow> expect (CHR ''T'') s;
     (h, s) \<leftarrow> take_hour s;
     s \<leftarrow> expect (CHR '':'') s;
     (mi, s) \<leftarrow> take_num 2 s;
     s \<leftarrow> expect (CHR '':'') s;
     (se, s) \<leftarrow> take_num 2 s;
     (case take_fraction s of (ns, s) \<Rightarrow>
       let c = \<lparr>year = int y, month = int mo, day = int d, hour = int h, minute = int mi,
                second = int se, nanos = int ns\<rparr>
       in if civil_ok c then Some (c, s) else None)
   }"

definition time_UnmarshalText :: "string \<Rightarrow> go_time option" where
  "time_UnmarshalText s = do {
     (c, s) \<leftarrow> take_clock s;
     (off, s) \<leftarrow> take_zone s;
     guard_opt (s = []);
     Some \<lparr>unix_ns = instant_of c off, zone = off, mono = None\<rparr>
   }"

subsection \<open>Round trip\<close>

lemma take_num_pad: "n < 10 ^ w \<Longrightarrow> take_num w (pad w n @ s) = Some (n, s)"
  by (simp add: take_num_def pad_digits digits_val_pad)

lemma take_hour_pad: "n < 100 \<Longrightarrow> take_hour (pad 2 n @ s) = Some (n, s)"
  by (simp add: take_hour_def take_num_pad)

lemma strip_zeros_split: "s = strip_zeros s @ replicate (length s - length (strip_zeros s)) CHR ''0''"
proof -
  let ?P = "\<lambda>c. c = CHR ''0''"
  have "takeWhile ?P (rev s) = replicate (length (takeWhile ?P (rev s))) CHR ''0''"
    by (rule replicate_eqI) (auto dest: set_takeWhileD)
  then have "rev s = replicate (length (takeWhile ?P (rev s))) CHR ''0'' @ dropWhile ?P (rev s)"
    by (metis takeWhile_dropWhile_id)
  then have "s = strip_zeros s @ replicate (length (takeWhile ?P (rev s))) CHR ''0''"
    unfolding strip_zeros_def by (metis rev_append rev_replicate rev_rev_ident)
  then show ?thesis
    by (metis add_diff_cancel_left' length_append length_replicate)
qed

lemma digits_val_zeros: "digits_val (s @ replicate k CHR ''0'') = digits_val s * 10 ^ k"
proof (induction k)
  case (Suc k)
  have "digits_val (s @ replicate (Suc k) CHR ''0'') =
      digits_val ((s @ replicate k CHR ''0'') @ [CHR ''0''])"
    by (simp add: replicate_append_same)
  also have "\<dots> = 10 * digits_val (s @ replicate k CHR ''0'')"
    by (simp only: digits_val_snoc) (simp add: digit_val_def)
  finally show ?case using Suc by simp
qed simp

lemma frac_val_strip: "n < 10 ^ 9 \<Longrightarrow> frac_val (strip_zeros (pad 9 n)) = n"
proof -
  assume n: "n < 10 ^ 9"
  let ?d = "strip_zeros (pad 9 n)"
  have split: "pad 9 n = ?d @ replicate (9 - length ?d) CHR ''0''"
    using strip_zeros_split [of "pad 9 n"] by simp
  then have "length ?d \<le> 9" by (metis length_append length_pad le_add1)
  then have "frac_val ?d = digits_val ?d * 10 ^ (9 - length ?d)"
    by (simp add: frac_val_def Let_def)
  also have "\<dots> = digits_val (pad 9 n)"
    by (subst (2) split) (simp add: digits_val_zeros)
  finally show ?thesis using n by (simp add: digits_val_pad)
qed

lemma strip_zeros_digits: "list_all is_digit (strip_zeros (pad w n))"
  using pad_digits [of w n] strip_zeros_split [of "pad w n"] by (metis list_all_append)

lemma strip_zeros_nonempty: "0 < n \<Longrightarrow> n < 10 ^ w \<Longrightarrow> strip_zeros (pad w n) \<noteq> []"
proof
  assume n: "0 < n" "n < 10 ^ w" and e: "strip_zeros (pad w n) = []"
  then have "digits_val (pad w n) = digits_val ([] @ replicate w CHR ''0'')"
    using strip_zeros_split [of "pad w n"] by simp
  with n show False by (simp only: digits_val_pad digits_val_zeros) (simp add: digits_val_def)
qed

lemma takeWhile_digits:
  assumes "list_all is_digit ds" and "\<not> is_digit z"
  shows "takeWhile is_digit (ds @ z # r) = ds" "dropWhile is_digit (ds @ z # r) = z # r"
  using assms by (induction ds) auto

lemma take_fraction_text:
  assumes ns: "0 \<le> ns" "ns < Second"
    and z: "\<not> is_digit z" "z \<noteq> CHR ''.''" "z \<noteq> CHR '',''"
  shows "take_fraction (fraction_text ns @ z # r) = (nat ns, z # r)"
proof (cases "ns = 0")
  case True
  with z show ?thesis by (auto simp: fraction_text_def take_fraction_def split: list.splits)
next
  case False
  have n: "0 < nat ns" "nat ns < 10 ^ 9" using False ns by auto
  obtain d ds where d: "strip_zeros (pad 9 (nat ns)) = d # ds"
    using strip_zeros_nonempty [OF n] by (meson list.exhaust)
  have dig: "list_all is_digit (d # ds)"
    using strip_zeros_digits [of 9 "nat ns"] d by simp
  have "frac_val (d # ds) = nat ns"
    using frac_val_strip [OF n(2)] d by simp
  with dig z(1) False show ?thesis
    using takeWhile_digits [OF dig z(1), of r]
    by (simp add: fraction_text_def d take_fraction_def)
qed

lemma zone_text_head:
  obtains z r where "zone_text off = z # r" "\<not> is_digit z" "z \<noteq> CHR ''.''" "z \<noteq> CHR '',''"
proof (cases "off = 0")
  case True
  show ?thesis by (rule that [of "CHR ''Z''" "[]"]) (simp_all add: True zone_text_def is_digit_def)
next
  case False
  define c r where "c = hd (zone_text off)" and "r = tl (zone_text off)"
  have "c = CHR ''+'' \<or> c = CHR ''-''" "zone_text off = c # r"
    using False by (auto simp: c_def r_def zone_text_def Let_def)
  then show ?thesis by (intro that [of c r]) (auto simp: is_digit_def)
qed

lemma take_zone_text:
  assumes "\<bar>off\<bar> < 86400" and "off mod 60 = 0"
  shows "take_zone (zone_text off) = Some (off, [])"
proof -
  define z where "z = nat (\<bar>off\<bar> div 60)"
  have z: "int z * 60 = \<bar>off\<bar>"
    using assms(2) by (auto simp: z_def abs_if zmod_zminus1_eq_if)
  then have b: "z div 60 < 24" "z mod 60 < 60" "off \<noteq> 0 \<Longrightarrow> z \<noteq> 0"
    using assms(1) by auto
  have "int z = int (z div 60) * 60 + int (z mod 60)"
    by (metis div_mult_mod_eq of_nat_add of_nat_mult of_nat_numeral)
  with z have v: "int (z div 60) * 3600 + int (z mod 60) * 60 = \<bar>off\<bar>" by linarith
  have "take_num 2 (pad 2 (z div 60) @ s) = Some (z div 60, s)" for s
    using b by (intro take_num_pad) simp
  moreover have "take_num 2 (pad 2 (z mod 60) @ []) = Some (z mod 60, [])"
    using b by (intro take_num_pad) simp
  ultimately show ?thesis
    using b v by (simp add: take_zone_def zone_text_def z_def [symmetric] Let_def guard_opt_def)
qed

lemma take_clock_text:
  assumes c: "civil_ok c" "0 \<le> year c" "year c \<le> 9999"
    and z: "\<not> is_digit z" "z \<noteq> CHR ''.''" "z \<noteq> CHR '',''"
  shows "take_clock (clock_text c @ z # r) = Some (c, z # r)"
proof -
  have b: "nat (year c) < 10 ^ 4" "nat (month c) < 10 ^ 2" "nat (day c) < 10 ^ 2"
    "nat (hour c) < 100" "nat (minute c) < 10 ^ 2" "nat (second c) < 10 ^ 2"
    using c by (auto simp: civil_ok_def days_in_def month_start_def split: if_splits)
  have r: "\<lparr>year = int (nat (year c)), month = int (nat (month c)), day = int (nat (day c)),
      hour = int (nat (hour c)), minute = int (nat (minute c)), second = int (nat (second c)),
      nanos = int (nat (nanos c))\<rparr> = c"
    using c by (simp add: civil_ok_def)
  have ns: "0 \<le> nanos c" "nanos c < Second" using c by (simp_all add: civil_ok_def)
  show ?thesis
    unfolding take_clock_def clock_text_def append_assoc append_Cons
    by (simp add: take_num_pad [OF b(1)] take_num_pad [OF b(2)] take_num_pad [OF b(3)]
        take_hour_pad [OF b(4)] take_num_pad [OF b(5)] take_num_pad [OF b(6)]
        take_fraction_text [OF ns z] r c(1) del: int_nat_eq)
qed

text \<open>
  A time whose year in its zone has four digits and whose zone is a whole number of minutes and
  less than a day from UTC, as every \<open>time.Now\<close> is.
\<close>

definition time_ok :: "go_time \<Rightarrow> bool" where
  "time_ok t \<longleftrightarrow> 0 \<le> year (civil_of t) \<and> year (civil_of t) \<le> 9999 \<and>
     \<bar>zone t\<bar> < 86400 \<and> zone t mod 60 = 0"

lemma time_ok_strip [simp]: "time_ok (strip_mono t) = time_ok t"
  by (simp add: time_ok_def strip_mono_def civil_of_def local_secs_def Let_def)

lemma parse_format:
  assumes "time_ok t"
  obtains s where "time_MarshalText t = Inr s" "time_UnmarshalText s = Some (strip_mono t)"
proof -
  obtain z r where z: "zone_text (zone t) = z # r" "\<not> is_digit z" "z \<noteq> CHR ''.''" "z \<noteq> CHR '',''"
    by (rule zone_text_head)
  let ?s = "clock_text (civil_of t) @ zone_text (zone t)"
  have "take_clock ?s = Some (civil_of t, zone_text (zone t))"
    unfolding z(1) using assms z by (intro take_clock_text civil_of_ok) (auto simp: time_ok_def)
  moreover have "take_zone (zone_text (zone t)) = Some (zone t, [])"
    using assms by (intro take_zone_text) (auto simp: time_ok_def)
  ultimately have "time_UnmarshalText ?s = Some (strip_mono t)"
    by (simp add: time_UnmarshalText_def guard_opt_def instant_of_civil_of strip_mono_def)
  moreover have "\<bar>zone t\<bar> div 3600 < 24"
    using assms by (simp add: time_ok_def) linarith
  then have "time_MarshalText t = Inr ?s"
    using assms by (simp add: time_MarshalText_def Let_def time_ok_def)
  ultimately show ?thesis by (rule that [rotated])
qed

end
