(* ===== verification/Json.thy ===== *)
theory Json
  imports GoTime
begin

text \<open>
  The part of \<open>encoding/json\<close> the service uses, on bytes: the scanner that splits an input into a
  value (a pushdown automaton over single bytes, with the frames of \<open>scanner.parseState\<close>), the
  quoting and unquoting of strings, and the compact printer.  A string in a value tree is raw, as
  it stands between its quotes; \<open>unquote\<close> interprets it where the decoder does.  The main facts:
  \<open>scan_print\<close> (what is printed is read back, whatever follows it) and \<open>unquote_quote\<close>.
\<close>

datatype json = JNull | JTrue | JFalse | JNum string | JStr string
  | JArr "json list" | JObj "(string \<times> json) list"

section \<open>The scanner\<close>

datatype frame =
    ObjectKey "(string \<times> json) list"
  | ObjectValue "(string \<times> json) list" string
  | ArrayValue "json list"

datatype str_state = SNorm | SEsc | SHex nat

datatype num_state = NNeg | N1 | N0 | NDot | NDot0 | NE | NESign | NE0

datatype mode =
    BeginValue | BeginValueOrEmpty | BeginString | BeginStringOrEmpty
  | InString string str_state | InNumber string num_state | InLit string json
  | EndValue json

datatype outcome = Fail | Done json | More mode "frame list"

abbreviation quote_char :: char where "quote_char \<equiv> CHR 0x22"
abbreviation backslash :: char where "backslash \<equiv> CHR 0x5C"

definition is_space :: "char \<Rightarrow> bool" where
  "is_space c \<longleftrightarrow> c = CHR '' '' \<or> c = CHR 0x09 \<or> c = CHR 0x0D \<or> c = CHR 0x0A"

definition is_hex :: "char \<Rightarrow> bool" where
  "is_hex c \<longleftrightarrow> is_digit c \<or> in_range 97 102 (byte c) \<or> in_range 65 70 (byte c)"

definition max_depth :: nat where "max_depth = 10000"

definition push :: "frame \<Rightarrow> mode \<Rightarrow> frame list \<Rightarrow> outcome" where
  "push f m stk = (if length (f # stk) \<le> max_depth then More m (f # stk) else Fail)"

definition begin_value :: "char \<Rightarrow> frame list \<Rightarrow> outcome" where
  "begin_value c stk =
     (if is_space c then More BeginValue stk
      else if c = CHR ''{'' then push (ObjectKey []) BeginStringOrEmpty stk
      else if c = CHR ''['' then push (ArrayValue []) BeginValueOrEmpty stk
      else if c = quote_char then More (InString [] SNorm) stk
      else if c = CHR ''-'' then More (InNumber [c] NNeg) stk
      else if c = CHR ''0'' then More (InNumber [c] N0) stk
      else if c = CHR ''t'' then More (InLit ''rue'' JTrue) stk
      else if c = CHR ''f'' then More (InLit ''alse'' JFalse) stk
      else if c = CHR ''n'' then More (InLit ''ull'' JNull) stk
      else if is_digit c then More (InNumber [c] N1) stk
      else Fail)"

definition begin_string :: "char \<Rightarrow> frame list \<Rightarrow> outcome" where
  "begin_string c stk = (if c = quote_char then More (InString [] SNorm) stk else Fail)"

fun key_text :: "json \<Rightarrow> string" where
  "key_text (JStr k) = k"
| "key_text _ = []"

fun end_value :: "json \<Rightarrow> char \<Rightarrow> frame list \<Rightarrow> outcome" where
  "end_value v c [] = Done v"
| "end_value v c (ObjectKey ms # stk) =
     (if is_space c then More (EndValue v) (ObjectKey ms # stk)
      else if c = CHR '':'' then More BeginValue (ObjectValue ms (key_text v) # stk)
      else Fail)"
| "end_value v c (ObjectValue ms k # stk) =
     (if is_space c then More (EndValue v) (ObjectValue ms k # stk)
      else if c = CHR '','' then More BeginString (ObjectKey (ms @ [(k, v)]) # stk)
      else if c = CHR ''}'' then More (EndValue (JObj (ms @ [(k, v)]))) stk
      else Fail)"
| "end_value v c (ArrayValue vs # stk) =
     (if is_space c then More (EndValue v) (ArrayValue vs # stk)
      else if c = CHR '','' then More BeginValue (ArrayValue (vs @ [v]) # stk)
      else if c = CHR '']'' then More (EndValue (JArr (vs @ [v]))) stk
      else Fail)"

fun str_step :: "str_state \<Rightarrow> char \<Rightarrow> str_state option" where
  "str_step SNorm c = (if c = backslash then Some SEsc else if byte c < 0x20 then None else Some SNorm)"
| "str_step SEsc c =
     (if c \<in> set [CHR ''b'', CHR ''f'', CHR ''n'', CHR ''r'', CHR ''t'', backslash, CHR ''/'', quote_char]
      then Some SNorm else if c = CHR ''u'' then Some (SHex 3) else None)"
| "str_step (SHex n) c =
     (if is_hex c then Some (case n of 0 \<Rightarrow> SNorm | Suc m \<Rightarrow> SHex m) else None)"

text \<open>\<open>Some (Some n)\<close>: the number goes on; \<open>Some None\<close>: it ended before this byte.\<close>

definition state0 :: "char \<Rightarrow> num_state option option" where
  "state0 c = (if c = CHR ''.'' then Some (Some NDot)
     else if c = CHR ''e'' \<or> c = CHR ''E'' then Some (Some NE) else Some None)"

definition stateESign :: "char \<Rightarrow> num_state option option" where
  "stateESign c = (if is_digit c then Some (Some NE0) else None)"

fun num_step :: "num_state \<Rightarrow> char \<Rightarrow> num_state option option" where
  "num_step NNeg c = (if c = CHR ''0'' then Some (Some N0)
     else if is_digit c then Some (Some N1) else None)"
| "num_step N1 c = (if is_digit c then Some (Some N1) else state0 c)"
| "num_step N0 c = state0 c"
| "num_step NDot c = (if is_digit c then Some (Some NDot0) else None)"
| "num_step NDot0 c = (if is_digit c then Some (Some NDot0)
     else if c = CHR ''e'' \<or> c = CHR ''E'' then Some (Some NE) else Some None)"
| "num_step NE c = (if c = CHR ''+'' \<or> c = CHR ''-'' then Some (Some NESign)
     else stateESign c)"
| "num_step NESign c = stateESign c"
| "num_step NE0 c = (if is_digit c then Some (Some NE0) else Some None)"

fun step :: "mode \<Rightarrow> frame list \<Rightarrow> char \<Rightarrow> outcome" where
  "step BeginValue stk c = begin_value c stk"
| "step BeginValueOrEmpty stk c =
     (if is_space c then More BeginValueOrEmpty stk
      else if c = CHR '']'' then More (EndValue (JArr [])) (tl stk)
      else begin_value c stk)"
| "step BeginString stk c =
     (if is_space c then More BeginString stk else begin_string c stk)"
| "step BeginStringOrEmpty stk c =
     (if is_space c then More BeginStringOrEmpty stk
      else if c = CHR ''}'' then More (EndValue (JObj [])) (tl stk)
      else begin_string c stk)"
| "step (InString acc st) stk c =
     (if c = quote_char \<and> st = SNorm then More (EndValue (JStr acc)) stk
      else case str_step st c of None \<Rightarrow> Fail | Some st' \<Rightarrow> More (InString (acc @ [c]) st') stk)"
| "step (InNumber acc ns) stk c = (case num_step ns c of
     None \<Rightarrow> Fail
   | Some (Some ns') \<Rightarrow> More (InNumber (acc @ [c]) ns') stk
   | Some None \<Rightarrow> end_value (JNum acc) c stk)"
| "step (InLit [] v) stk c = end_value v c stk"
| "step (InLit (l # ls) v) stk c =
     (if c = l then More (if ls = [] then EndValue v else InLit ls v) stk else Fail)"
| "step (EndValue v) stk c = end_value v c stk"

text \<open>
  The scanner reports the end of a top-level value on the byte after it, which it does not
  consume; at the end of the input it is fed a space.
\<close>

fun scan :: "mode \<Rightarrow> frame list \<Rightarrow> string \<Rightarrow> (json \<times> string) option" where
  "scan m stk [] = (case step m stk CHR '' '' of Done v \<Rightarrow> Some (v, []) | _ \<Rightarrow> None)"
| "scan m stk (c # cs) = (case step m stk c of
     Fail \<Rightarrow> None
   | Done v \<Rightarrow> Some (v, c # cs)
   | More m' stk' \<Rightarrow> scan m' stk' cs)"

text \<open>
  \<open>Decoder.Decode\<close> reads the first value of a stream and ignores what follows; \<open>Unmarshal\<close>
  wants nothing but white space after it.
\<close>

definition decode_first :: "string \<Rightarrow> json option" where
  "decode_first s = map_option fst (scan BeginValue [] s)"

definition decode_only :: "string \<Rightarrow> json option" where
  "decode_only s = (case scan BeginValue [] s of
     None \<Rightarrow> None
   | Some (v, rest) \<Rightarrow> if list_all is_space rest then Some v else None)"

section \<open>Strings\<close>

definition hex_char :: "nat \<Rightarrow> char" where
  "hex_char n = char_of (if n < 10 then 48 + n else 87 + n)"

definition quote_ascii :: "char \<Rightarrow> string" where
  "quote_ascii c =
     (if c = backslash \<or> c = quote_char then [backslash, c]
      else if c = CHR 0x08 then [backslash, CHR ''b'']
      else if c = CHR 0x0C then [backslash, CHR ''f'']
      else if c = CHR 0x0A then [backslash, CHR ''n'']
      else if c = CHR 0x0D then [backslash, CHR ''r'']
      else if c = CHR 0x09 then [backslash, CHR ''t'']
      else if byte c < 0x20 \<or> c = CHR ''<'' \<or> c = CHR ''>'' \<or> c = CHR ''&'' then
        [backslash, CHR ''u'', CHR ''0'', CHR ''0'', hex_char (byte c div 16), hex_char (byte c mod 16)]
      else [c])"

text \<open>\<open>appendString\<close> with HTML escaping, as \<open>Marshal\<close> and \<open>Encoder.Encode\<close> use it.\<close>

function quote :: "string \<Rightarrow> string" where
  "quote [] = []"
| "quote (c # s) =
     (if byte c < 0x80 then quote_ascii c @ quote s
      else if rune_len (c # s) = 0 then
        [backslash, CHR ''u'', CHR ''f'', CHR ''f'', CHR ''f'', CHR ''d''] @ quote s
      else if take 3 (c # s) = [CHR 0xE2, CHR 0x80, CHR 0xA8] then
        [backslash, CHR ''u'', CHR ''2'', CHR ''0'', CHR ''2'', CHR ''8''] @ quote (drop 3 (c # s))
      else if take 3 (c # s) = [CHR 0xE2, CHR 0x80, CHR 0xA9] then
        [backslash, CHR ''u'', CHR ''2'', CHR ''0'', CHR ''2'', CHR ''9''] @ quote (drop 3 (c # s))
      else take (rune_len (c # s)) (c # s) @ quote (drop (rune_len (c # s)) (c # s)))"
  by pat_completeness auto
termination
  by (relation "measure length") auto

definition hex_val :: "char \<Rightarrow> nat" where
  "hex_val c = (if byte c \<le> 57 then byte c - 48 else if byte c \<le> 70 then byte c - 55 else byte c - 87)"

definition utf8_encode :: "nat \<Rightarrow> string" where
  "utf8_encode n =
     (if n < 0x80 then [char_of n]
      else if n < 0x800 then [char_of (0xC0 + n div 64), char_of (0x80 + n mod 64)]
      else if n < 0xD800 \<or> (0xDFFF < n \<and> n < 0x10000) then
        [char_of (0xE0 + n div 4096), char_of (0x80 + n div 64 mod 64), char_of (0x80 + n mod 64)]
      else if 0x10000 \<le> n \<and> n < 0x110000 then
        [char_of (0xF0 + n div 262144), char_of (0x80 + n div 4096 mod 64),
         char_of (0x80 + n div 64 mod 64), char_of (0x80 + n mod 64)]
      else [CHR 0xEF, CHR 0xBF, CHR 0xBD])"

text \<open>The code unit of a \<open>\uXXXX\<close> escape that starts the string.\<close>

definition getu4 :: "string \<Rightarrow> nat option" where
  "getu4 s = (case s of
     b # u # h1 # h2 # h3 # h4 # _ \<Rightarrow>
       if b = backslash \<and> u = CHR ''u'' \<and> is_hex h1 \<and> is_hex h2 \<and> is_hex h3 \<and> is_hex h4
       then Some (((hex_val h1 * 16 + hex_val h2) * 16 + hex_val h3) * 16 + hex_val h4) else None
   | _ \<Rightarrow> None)"

definition unescape_char :: "char \<Rightarrow> char option" where
  "unescape_char e =
     (if e = quote_char \<or> e = backslash \<or> e = CHR ''/'' \<or> e = CHR 0x27 then Some e
      else if e = CHR ''b'' then Some (CHR 0x08)
      else if e = CHR ''f'' then Some (CHR 0x0C)
      else if e = CHR ''n'' then Some (CHR 0x0A)
      else if e = CHR ''r'' then Some (CHR 0x0D)
      else if e = CHR ''t'' then Some (CHR 0x09)
      else None)"

text \<open>The rune of a \<open>\u\<close> escape and the bytes it takes: a surrogate pair takes two escapes.\<close>

definition unescape_u :: "string \<Rightarrow> (nat \<times> nat) option" where
  "unescape_u s = (case getu4 s of
     None \<Rightarrow> None
   | Some a \<Rightarrow>
       if in_range 0xD800 0xDFFF a then
         (case getu4 (drop 6 s) of
            Some b \<Rightarrow> if a < 0xDC00 \<and> in_range 0xDC00 0xDFFF b
              then Some ((a - 0xD800) * 1024 + (b - 0xDC00) + 0x10000, 12) else Some (0xFFFD, 6)
          | None \<Rightarrow> Some (0xFFFD, 6))
       else Some (a, 6))"

lemma unescape_u_advances: "unescape_u s = Some (r, n) \<Longrightarrow> 0 < n"
  by (auto simp: unescape_u_def split: option.splits if_splits)

function unquote :: "string \<Rightarrow> string option" where
  "unquote [] = Some []"
| "unquote (c # s) =
     (if c = backslash then
        (case s of
           [] \<Rightarrow> None
         | e # s' \<Rightarrow>
             if e = CHR ''u'' then
               (case unescape_u (c # s) of
                  None \<Rightarrow> None
                | Some (r, n) \<Rightarrow>
                    if n = 0 then None
                    else map_option ((@) (utf8_encode r)) (unquote (drop n (c # s))))
             else (case unescape_char e of
                  None \<Rightarrow> None
                | Some d \<Rightarrow> map_option ((#) d) (unquote s')))
      else if c = quote_char \<or> byte c < 0x20 then None
      else if byte c < 0x80 then map_option ((#) c) (unquote s)
      else if rune_len (c # s) = 0 then
        map_option ((@) [CHR 0xEF, CHR 0xBF, CHR 0xBD]) (unquote s)
      else map_option ((@) (take (rune_len (c # s)) (c # s))) (unquote (drop (rune_len (c # s)) (c # s))))"
  by pat_completeness auto
termination
  by (relation "measure length") auto

section \<open>The printer\<close>

definition in_quotes :: "string \<Rightarrow> string" where
  "in_quotes raw = quote_char # raw @ [quote_char]"

fun print :: "json \<Rightarrow> string" and print_members :: "(string \<times> json) list \<Rightarrow> string"
  and print_elems :: "json list \<Rightarrow> string" where
  "print JNull = ''null''"
| "print JTrue = ''true''"
| "print JFalse = ''false''"
| "print (JNum n) = n"
| "print (JStr s) = in_quotes s"
| "print (JArr vs) = CHR ''['' # print_elems vs @ '']''"
| "print (JObj ms) = CHR ''{'' # print_members ms @ ''}''"
| "print_members [] = []"
| "print_members [(k, v)] = in_quotes k @ CHR '':'' # print v"
| "print_members ((k, v) # m # ms) = in_quotes k @ CHR '':'' # print v @ CHR '','' # print_members (m # ms)"
| "print_elems [] = []"
| "print_elems [v] = print v"
| "print_elems (v # w # vs) = print v @ CHR '','' # print_elems (w # vs)"

section \<open>What is printed is read back\<close>

fun str_run :: "str_state \<Rightarrow> string \<Rightarrow> str_state option" where
  "str_run st [] = Some st"
| "str_run st (c # cs) =
     (if c = quote_char \<and> st = SNorm then None
      else case str_step st c of None \<Rightarrow> None | Some st' \<Rightarrow> str_run st' cs)"

definition raw_ok :: "string \<Rightarrow> bool" where
  "raw_ok s \<longleftrightarrow> str_run SNorm s = Some SNorm"

lemma str_run_append:
  "str_run st (a @ b) = (case str_run st a of None \<Rightarrow> None | Some st' \<Rightarrow> str_run st' b)"
  by (induction a arbitrary: st) (auto split: option.splits)

lemma raw_ok_append: "raw_ok a \<Longrightarrow> raw_ok b \<Longrightarrow> raw_ok (a @ b)"
  by (simp add: raw_ok_def str_run_append)

lemma raw_ok_Nil [simp]: "raw_ok []"
  by (simp add: raw_ok_def)

lemma scan_raw:
  "str_run st raw = Some SNorm \<Longrightarrow>
     scan (InString acc st) stk (raw @ quote_char # s) = scan (EndValue (JStr (acc @ raw))) stk s"
proof (induction raw arbitrary: st acc)
  case (Cons c raw)
  then obtain st' where "str_step st c = Some st'" "str_run st' raw = Some SNorm"
    "\<not> (c = quote_char \<and> st = SNorm)"
    by (auto split: if_splits option.splits)
  then show ?case using Cons.IH [of st' "acc @ [c]"] by auto
qed simp

fun wf_json :: "json \<Rightarrow> bool" and wf_members :: "(string \<times> json) list \<Rightarrow> bool" where
  "wf_json (JStr s) = raw_ok s"
| "wf_json (JObj ms) = wf_members ms"
| "wf_json (JNum n) = False"
| "wf_json (JArr vs) = False"
| "wf_json _ = True"
| "wf_members [] = True"
| "wf_members ((k, v) # ms) = (raw_ok k \<and> wf_json v \<and> wf_members ms)"

fun depth :: "json \<Rightarrow> nat" and depth_members :: "(string \<times> json) list \<Rightarrow> nat" where
  "depth (JObj ms) = Suc (depth_members ms)"
| "depth _ = 0"
| "depth_members [] = 0"
| "depth_members ((k, v) # ms) = max (depth v) (depth_members ms)"

lemma not_space_simps [simp]:
  "\<not> is_space quote_char" "\<not> is_space CHR ''{''" "\<not> is_space CHR ''}''" "\<not> is_space CHR '':''"
  "\<not> is_space CHR '',''" "\<not> is_space CHR ''n''" "\<not> is_space CHR ''t''" "\<not> is_space CHR ''f''"
  "is_space CHR '' ''"
  by (simp_all add: is_space_def)

lemma scan_key:
  "raw_ok k \<Longrightarrow>
     scan BeginString (ObjectKey ms # stk) (in_quotes k @ CHR '':'' # s) =
       scan BeginValue (ObjectValue ms k # stk) s"
  by (simp add: in_quotes_def begin_string_def scan_raw raw_ok_def)

lemma print_members_head: "ms \<noteq> [] \<Longrightarrow> \<exists>r. print_members ms = quote_char # r"
  by (cases ms rule: print_members.cases) (auto simp: in_quotes_def)

lemma scan_print_both:
  "wf_json v \<Longrightarrow> length stk + depth v \<le> max_depth \<Longrightarrow>
     scan BeginValue stk (print v @ s) = scan (EndValue v) stk s"
  "wf_members ms \<Longrightarrow> ms \<noteq> [] \<Longrightarrow> length stk + 1 + depth_members ms \<le> max_depth \<Longrightarrow>
     scan BeginString (ObjectKey acc # stk) (print_members ms @ CHR ''}'' # s) =
       scan (EndValue (JObj (acc @ ms))) stk s"
  "vs = (vs :: json list)"
proof (induction v and ms and vs arbitrary: stk s and acc stk s and
    rule: print_print_members_print_elems.induct)
  case (5 r)
  then show ?case by (simp add: begin_value_def in_quotes_def scan_raw raw_ok_def)
next
  case (7 ms)
  show ?case
  proof (cases "ms = []")
    case True
    with "7.prems" show ?thesis by (simp add: begin_value_def push_def)
  next
    case False
    then obtain r where r: "print_members ms = quote_char # r"
      using print_members_head by blast
    have "scan BeginString (ObjectKey [] # stk) (print_members ms @ CHR ''}'' # s) =
        scan (EndValue (JObj ms)) stk s"
      using "7.IH" [of stk "[]" s] "7.prems" False by simp
    then show ?thesis
      using r "7.prems" by (simp add: begin_value_def push_def)
  qed
next
  case (9 k v)
  then have "scan BeginValue (ObjectValue acc k # stk) (print v @ CHR ''}'' # s) =
      scan (EndValue v) (ObjectValue acc k # stk) (CHR ''}'' # s)"
    by simp
  with "9.prems" show ?case by (simp add: scan_key)
next
  case (10 k v m ms)
  then have "scan BeginValue (ObjectValue acc k # stk)
        (print v @ CHR '','' # print_members (m # ms) @ CHR ''}'' # s) =
      scan (EndValue v) (ObjectValue acc k # stk) (CHR '','' # print_members (m # ms) @ CHR ''}'' # s)"
    by simp
  with "10.prems" "10.IH"(2) [of stk "acc @ [(k, v)]" s] show ?case by (simp add: scan_key)
qed (simp_all add: begin_value_def)

lemma scan_print:
  "wf_json v \<Longrightarrow> length stk + depth v \<le> max_depth \<Longrightarrow>
     scan BeginValue stk (print v @ s) = scan (EndValue v) stk s"
  by (rule scan_print_both(1))

lemma decode_print:
  assumes "wf_json v" and "depth v \<le> max_depth"
  shows "decode_first (print v @ s) = Some v"
    and "list_all is_space s \<Longrightarrow> decode_only (print v @ s) = Some v"
proof -
  have "scan (EndValue v) [] s = Some (v, s)" by (cases s) auto
  then have "scan BeginValue [] (print v @ s) = Some (v, s)"
    using scan_print [of v "[]" s] assms by simp
  then show "decode_first (print v @ s) = Some v"
    and "list_all is_space s \<Longrightarrow> decode_only (print v @ s) = Some v"
    by (simp_all add: decode_first_def decode_only_def)
qed

section \<open>Quoting\<close>

lemma hex_char_small:
  assumes "n < 16"
  shows "is_hex (hex_char n)" "hex_val (hex_char n) = n"
proof -
  have "n \<in> {0, 1, 2, 3, 4, 5, 6, 7, 8, 9, 10, 11, 12, 13, 14, 15}"
    using assms unfolding insert_iff empty_iff by presburger
  then show "is_hex (hex_char n)" "hex_val (hex_char n) = n"
    by (auto simp: hex_char_def is_hex_def hex_val_def is_digit_def in_range_def of_char_of)
qed

lemma high_bytes_raw_ok: "list_all (\<lambda>e. 0x80 \<le> byte e) s \<Longrightarrow> raw_ok s"
proof (induction s)
  case (Cons c s)
  then have "c \<noteq> quote_char" "c \<noteq> backslash" "\<not> byte c < 0x20" by auto
  with Cons show ?case by (simp add: raw_ok_def)
qed simp

lemma tail_bytes_le: "tail_bytes b \<le> 3"
  by (simp add: tail_bytes_def)

lemma rune_high:
  assumes "0 < rune_len (c # s)" and "0x80 \<le> byte c"
  shows "list_all (\<lambda>e. 0x80 \<le> byte e) (take (rune_len (c # s)) (c # s))"
proof -
  obtain d s' where s: "s = d # s'" using assms by (cases s) auto
  define n where "n = tail_bytes (byte c)"
  have h: "0 < n" "second_byte_ok (byte c) (byte d)"
    "list_all (\<lambda>e. in_range 0x80 0xBF (byte e)) (take (n - 1) s')" "rune_len (c # s) = Suc n"
    using assms by (auto simp: s n_def Let_def split: if_splits)
  have "list_all (\<lambda>e. 0x80 \<le> byte e) (take (n - 1) s')"
    by (rule list.pred_mono_strong [OF h(3)]) (simp add: in_range_def)
  moreover have "0x80 \<le> byte d"
    using h(2) by (auto simp: second_byte_ok_def in_range_def split: if_splits)
  ultimately show ?thesis
    using h(1,4) assms(2) by (simp add: s take_Cons' del: rune_len.simps)
qed

lemma rune_len_take:
  assumes "0 < rune_len (c # s)"
  shows "rune_len (take (rune_len (c # s)) (c # s) @ r) = rune_len (c # s)"
proof (cases "byte c < 0x80")
  case False
  then obtain d s' where s: "s = d # s'" using assms by (cases s) auto
  define n where "n = tail_bytes (byte c)"
  have h: "0 < n" "second_byte_ok (byte c) (byte d)" "n - 1 \<le> length s'"
    "list_all (\<lambda>e. in_range 0x80 0xBF (byte e)) (take (n - 1) s')" "rune_len (c # s) = Suc n"
    using assms False by (auto simp: s n_def Let_def split: if_splits)
  have "take (Suc n) (c # s) @ r = c # d # take (n - 1) s' @ r"
    using h(1) by (cases n) (simp_all add: s)
  then show ?thesis
    using h False by (simp add: n_def [symmetric] Let_def)
qed simp

lemma quote_ascii_raw_ok: "byte c < 0x80 \<Longrightarrow> raw_ok (quote_ascii c)"
  using hex_char_small [of "byte c div 16"] hex_char_small [of "byte c mod 16"]
  by (auto simp: quote_ascii_def raw_ok_def is_hex_def is_digit_def numeral_3_eq_3)

lemma quote_raw_ok: "raw_ok (quote s)"
proof (induction s rule: quote.induct)
  case (2 c s)
  have u: "raw_ok [backslash, CHR ''u'', CHR ''f'', CHR ''f'', CHR ''f'', CHR ''d'']"
    "raw_ok [backslash, CHR ''u'', CHR ''2'', CHR ''0'', CHR ''2'', CHR ''8'']"
    "raw_ok [backslash, CHR ''u'', CHR ''2'', CHR ''0'', CHR ''2'', CHR ''9'']"
    by (simp_all add: raw_ok_def is_hex_def is_digit_def in_range_def numeral_3_eq_3)
  show ?case
  proof (cases "byte c < 0x80 \<or> rune_len (c # s) = 0")
    case True
    with 2 show ?thesis
      using raw_ok_append [OF u(1)] raw_ok_append [OF quote_ascii_raw_ok [of c]] by auto
  next
    case False
    then have "raw_ok (take (rune_len (c # s)) (c # s))"
      by (intro high_bytes_raw_ok rune_high) auto
    with 2 False show ?thesis
      using raw_ok_append [OF u(2)] raw_ok_append [OF u(3)]
      by (auto simp del: rune_len.simps simp add: raw_ok_append)
  qed
qed simp

lemma append_single: "(@) [c] = (#) c"
  by (rule ext) simp

lemma unquote_quote_ascii:
  assumes "byte c < 0x80"
  shows "unquote (quote_ascii c @ r) = map_option ((#) c) (unquote r)"
proof -
  have h: "byte c div 16 < 16" "byte c mod 16 < 16" using assms by auto
  have "byte c div 16 * 16 + byte c mod 16 = byte c" by simp
  moreover have "is_hex CHR ''0''" "hex_val CHR ''0'' = 0"
    by (simp_all add: is_hex_def is_digit_def hex_val_def)
  ultimately show ?thesis
    using assms h
    by (auto simp: quote_ascii_def unescape_char_def unescape_u_def getu4_def hex_char_small
        in_range_def utf8_encode_def append_single)
qed

lemma unquote_rune:
  assumes "0 < rune_len (c # s)" and "0x80 \<le> byte c"
  shows "unquote (take (rune_len (c # s)) (c # s) @ r) =
    map_option ((@) (take (rune_len (c # s)) (c # s))) (unquote r)"
proof -
  define n where "n = rune_len (c # s)"
  have n: "0 < n" "n \<le> length (c # s)" "rune_len (take n (c # s) @ r) = n"
    using assms rune_len_le [of "c # s"] rune_len_take [OF assms(1)] by (simp_all add: n_def)
  obtain t where t: "take n (c # s) = c # t" using n(1) by (cases n) auto
  have len: "length (c # t) = n" using n(2) t by (metis length_take min.absorb2)
  have c: "c \<noteq> backslash" "c \<noteq> quote_char" "\<not> byte c < 0x20" "\<not> byte c < 0x80"
    using assms(2) by auto
  have "rune_len (c # t @ r) = n" using n(3) t by simp
  then have "unquote (c # t @ r) =
      map_option ((@) (take n (c # t @ r))) (unquote (drop n (c # t @ r)))"
    using c n(1) by (simp del: rune_len.simps)
  moreover have "take n (c # t @ r) = c # t" "drop n (c # t @ r) = r"
    using len by auto
  ultimately show ?thesis unfolding n_def [symmetric] t by simp
qed

lemma line_sep_chars:
  "char_of (226 :: nat) = CHR 0xE2" "char_of (128 :: nat) = CHR 0x80"
  "char_of (168 :: nat) = CHR 0xA8" "char_of (169 :: nat) = CHR 0xA9"
  by code_simp+

lemma unquote_line_sep:
  "unquote ([backslash, CHR ''u'', CHR ''2'', CHR ''0'', CHR ''2'', CHR ''8''] @ r) =
     map_option ((@) [CHR 0xE2, CHR 0x80, CHR 0xA8]) (unquote r)"
  "unquote ([backslash, CHR ''u'', CHR ''2'', CHR ''0'', CHR ''2'', CHR ''9''] @ r) =
     map_option ((@) [CHR 0xE2, CHR 0x80, CHR 0xA9]) (unquote r)"
  by (simp_all add: unescape_u_def getu4_def is_hex_def is_digit_def hex_val_def in_range_def
      utf8_encode_def line_sep_chars)

lemma line_sep_rune:
  assumes "take 3 (c # s) = [CHR 0xE2, CHR 0x80, x]" and "in_range 0x80 0xBF (byte x)"
  shows "rune_len (c # s) = 3" "c # s = [CHR 0xE2, CHR 0x80, x] @ drop 3 (c # s)"
proof -
  show e: "c # s = [CHR 0xE2, CHR 0x80, x] @ drop 3 (c # s)"
    using assms(1) by (metis append_take_drop_id)
  show "rune_len (c # s) = 3"
    using assms(2)
    by (subst e) (simp add: tail_bytes_def in_range_def second_byte_ok_def Let_def)
qed

text \<open>A valid UTF-8 string survives quoting; an invalid byte would come back as U+FFFD.\<close>

lemma unquote_quote: "valid_utf8 s \<Longrightarrow> unquote (quote s) = Some s"
proof (induction s rule: quote.induct)
  case (2 c s)
  let ?n = "rune_len (c # s)"
  have n: "?n \<noteq> 0" and v: "valid_utf8 (drop ?n (c # s))"
    using "2.prems" by (simp_all add: valid_utf8.simps [of "c # s"] split: if_splits)
  show ?case
  proof (cases "byte c < 0x80")
    case True
    then show ?thesis using "2.IH"(1) v by (simp add: unquote_quote_ascii)
  next
    case False
    consider (ls) "take 3 (c # s) = [CHR 0xE2, CHR 0x80, CHR 0xA8]"
      | (ps) "take 3 (c # s) = [CHR 0xE2, CHR 0x80, CHR 0xA9]"
      | (rune) "take 3 (c # s) \<noteq> [CHR 0xE2, CHR 0x80, CHR 0xA8]"
          "take 3 (c # s) \<noteq> [CHR 0xE2, CHR 0x80, CHR 0xA9]"
      by blast
    then show ?thesis
    proof cases
      case ls
      note e = line_sep_rune [OF ls]
      have "unquote (quote (drop 3 (c # s))) = Some (drop 3 (c # s))"
        using "2.IH"(3) [OF False n ls] v e(1) by (simp add: in_range_def del: rune_len.simps)
      then have "unquote (quote (c # s)) = Some ([CHR 0xE2, CHR 0x80, CHR 0xA8] @ drop 3 (c # s))"
        using False n ls
        by (simp only: quote.simps if_False if_True unquote_line_sep option.map refl)
      also have "[CHR 0xE2, CHR 0x80, CHR 0xA8] @ drop 3 (c # s) = c # s"
        using e(2) by (simp add: in_range_def)
      finally show ?thesis .
    next
      case ps
      note e = line_sep_rune [OF ps]
      have ne: "take 3 (c # s) \<noteq> [CHR 0xE2, CHR 0x80, CHR 0xA8]" using ps by simp
      have "unquote (quote (drop 3 (c # s))) = Some (drop 3 (c # s))"
        using "2.IH"(4) [OF False n ne ps] v e(1) by (simp add: in_range_def del: rune_len.simps)
      then have "unquote (quote (c # s)) = Some ([CHR 0xE2, CHR 0x80, CHR 0xA9] @ drop 3 (c # s))"
        using False n ps ne
        by (simp only: quote.simps if_False if_True unquote_line_sep option.map refl)
      also have "[CHR 0xE2, CHR 0x80, CHR 0xA9] @ drop 3 (c # s) = c # s"
        using e(2) by (simp add: in_range_def)
      finally show ?thesis .
    next
      case rune
      have "unquote (quote (drop ?n (c # s))) = Some (drop ?n (c # s))"
        using "2.IH"(5) [OF False n rune] v by simp
      moreover have "unquote (take ?n (c # s) @ quote (drop ?n (c # s))) =
          map_option ((@) (take ?n (c # s))) (unquote (quote (drop ?n (c # s))))"
        using n False by (intro unquote_rune) auto
      ultimately show ?thesis
        using False n rune by (simp only: quote.simps if_False option.map append_take_drop_id)
    qed
  qed
qed simp

end
