(* ===== verification/LockModel.thy ===== *)
theory LockModel
  imports Json
begin

text \<open>
  The data of the service: \<open>internal/model/lock.go\<close>.  Each struct is a record with the source's
  fields; its JSON form follows the struct tags, in the order of the fields.  \<open>unmarshal_marshal\<close> is
  the round trip every lock makes through the store.
\<close>

record lock =
  Project :: string
  Branch :: string
  CreatedAt :: go_time
  Owner :: string

record lock_request =
  req_Project :: string
  req_Branch :: string

record unlock_request =
  unreq_Project :: string
  unreq_Branch :: string

record lock_response =
  Status :: string
  Message :: string
  Lock :: "lock option"

definition zero_lock :: lock where
  "zero_lock = \<lparr>Project = [], Branch = [], CreatedAt = zero_time, Owner = []\<rparr>"

section \<open>Encoding\<close>

definition json_string :: "string \<Rightarrow> json" where
  "json_string s = JStr (quote s)"

definition lock_json :: "lock \<Rightarrow> go_error + json" where
  "lock_json l = (case time_MarshalText (CreatedAt l) of
     Inl e \<Rightarrow> Inl (Wrap ''json: error calling MarshalJSON for type time.Time'' e)
   | Inr t \<Rightarrow> Inr (JObj
       [(''project'', json_string (Project l)), (''branch'', json_string (Branch l)),
        (''created_at'', JStr t), (''owner'', json_string (Owner l))]))"

text \<open>\<open>message\<close> and \<open>lock\<close> are \<open>omitempty\<close>.\<close>

definition response_json :: "lock_response \<Rightarrow> go_error + json" where
  "response_json r =
     (let head = (''status'', json_string (Status r)) #
        (if Message r = [] then [] else [(''message'', json_string (Message r))])
      in case Lock r of
           None \<Rightarrow> Inr (JObj head)
         | Some l \<Rightarrow> (case lock_json l of
             Inl e \<Rightarrow> Inl e
           | Inr j \<Rightarrow> Inr (JObj (head @ [(''lock'', j)]))))"

definition json_Marshal :: "lock \<Rightarrow> go_error + string" where
  "json_Marshal l = map_sum id print (lock_json l)"

section \<open>Decoding\<close>

text \<open>
  A member sets the field whose name it is, up to the case of ASCII letters; a member that names no
  field is ignored, \<open>null\<close> leaves the field as it is, and a value of the wrong kind is an error.
\<close>

definition fold_char :: "char \<Rightarrow> char" where
  "fold_char c = (if in_range 97 122 (byte c) then char_of (byte c - 32) else c)"

definition names_field :: "string \<Rightarrow> string \<Rightarrow> bool" where
  "names_field k f \<longleftrightarrow> map fold_char k = map fold_char f"

definition decode_string :: "json \<Rightarrow> string \<Rightarrow> string option" where
  "decode_string v old = (case v of
     JStr raw \<Rightarrow> unquote raw | JNull \<Rightarrow> Some old | _ \<Rightarrow> None)"

definition decode_time :: "json \<Rightarrow> go_time \<Rightarrow> go_time option" where
  "decode_time v old = (case v of
     JStr raw \<Rightarrow> time_UnmarshalText raw | JNull \<Rightarrow> Some old | _ \<Rightarrow> None)"

fun decode_members :: "(string \<Rightarrow> json \<Rightarrow> 'r \<Rightarrow> 'r option) \<Rightarrow> (string \<times> json) list \<Rightarrow> 'r \<Rightarrow> 'r option" where
  "decode_members setf [] r = Some r"
| "decode_members setf ((k, v) # ms) r =
     (case unquote k of
        None \<Rightarrow> None
      | Some k' \<Rightarrow> (case setf k' v r of None \<Rightarrow> None | Some r' \<Rightarrow> decode_members setf ms r'))"

definition decode_struct :: "(string \<Rightarrow> json \<Rightarrow> 'r \<Rightarrow> 'r option) \<Rightarrow> 'r \<Rightarrow> json \<Rightarrow> 'r option" where
  "decode_struct setf r v = (case v of
     JObj ms \<Rightarrow> decode_members setf ms r | JNull \<Rightarrow> Some r | _ \<Rightarrow> None)"

definition set_lock_field :: "string \<Rightarrow> json \<Rightarrow> lock \<Rightarrow> lock option" where
  "set_lock_field k v l =
     (if names_field k ''project'' then
        map_option (\<lambda>s. l\<lparr>Project := s\<rparr>) (decode_string v (Project l))
      else if names_field k ''branch'' then
        map_option (\<lambda>s. l\<lparr>Branch := s\<rparr>) (decode_string v (Branch l))
      else if names_field k ''created_at'' then
        map_option (\<lambda>t. l\<lparr>CreatedAt := t\<rparr>) (decode_time v (CreatedAt l))
      else if names_field k ''owner'' then
        map_option (\<lambda>s. l\<lparr>Owner := s\<rparr>) (decode_string v (Owner l))
      else Some l)"

definition json_Unmarshal :: "string \<Rightarrow> lock option" where
  "json_Unmarshal s = Option.bind (decode_only s) (decode_struct set_lock_field zero_lock)"

definition set_request_field :: "string \<Rightarrow> json \<Rightarrow> lock_request \<Rightarrow> lock_request option" where
  "set_request_field k v r =
     (if names_field k ''project'' then
        map_option (\<lambda>s. r\<lparr>req_Project := s\<rparr>) (decode_string v (req_Project r))
      else if names_field k ''branch'' then
        map_option (\<lambda>s. r\<lparr>req_Branch := s\<rparr>) (decode_string v (req_Branch r))
      else Some r)"

definition decode_lock_request :: "string \<Rightarrow> lock_request option" where
  "decode_lock_request s =
     Option.bind (decode_first s) (decode_struct set_request_field \<lparr>req_Project = [], req_Branch = []\<rparr>)"

definition set_unrequest_field :: "string \<Rightarrow> json \<Rightarrow> unlock_request \<Rightarrow> unlock_request option" where
  "set_unrequest_field k v r =
     (if names_field k ''project'' then
        map_option (\<lambda>s. r\<lparr>unreq_Project := s\<rparr>) (decode_string v (unreq_Project r))
      else if names_field k ''branch'' then
        map_option (\<lambda>s. r\<lparr>unreq_Branch := s\<rparr>) (decode_string v (unreq_Branch r))
      else Some r)"

definition decode_unlock_request :: "string \<Rightarrow> unlock_request option" where
  "decode_unlock_request s =
     Option.bind (decode_first s)
       (decode_struct set_unrequest_field \<lparr>unreq_Project = [], unreq_Branch = []\<rparr>)"

section \<open>Round trips\<close>

definition plain :: "char \<Rightarrow> bool" where
  "plain c \<longleftrightarrow> c \<noteq> quote_char \<and> c \<noteq> backslash \<and> 0x20 \<le> byte c"

lemma plain_raw_ok: "list_all plain s \<Longrightarrow> raw_ok s"
  by (induction s) (auto simp: raw_ok_def plain_def)

lemma digits_plain: "list_all is_digit s \<Longrightarrow> list_all plain s"
  by (induction s) (auto simp: is_digit_def plain_def)

lemma time_text_raw_ok: "time_MarshalText t = Inr s \<Longrightarrow> raw_ok s"
proof -
  assume h: "time_MarshalText t = Inr s"
  have p: "list_all plain (pad w n)" "list_all plain (strip_zeros (pad w n))" for w n
    using digits_plain pad_digits strip_zeros_digits by blast+
  have c: "plain CHR ''-''" "plain CHR ''+''" "plain CHR '':''" "plain CHR ''T''"
    "plain CHR ''Z''" "plain CHR ''.''"
    by (simp_all add: plain_def)
  have "list_all plain (zone_text off)" for off
    by (simp add: zone_text_def Let_def p c)
  moreover have "list_all plain (fraction_text ns)" for ns
    by (simp add: fraction_text_def p c)
  ultimately have "list_all plain s"
    using h by (auto simp: time_MarshalText_def Let_def clock_text_def p c split: if_splits)
  then show ?thesis by (rule plain_raw_ok)
qed

lemma field_names_raw_ok [simp]:
  "raw_ok ''project''" "raw_ok ''branch''" "raw_ok ''created_at''" "raw_ok ''owner''"
  "raw_ok ''status''" "raw_ok ''message''" "raw_ok ''lock''"
  by (rule plain_raw_ok; simp add: plain_def)+

lemma lock_json_wf:
  assumes "lock_json l = Inr j"
  shows "wf_json j" "depth j = 1"
  using assms time_text_raw_ok
  by (auto simp: lock_json_def json_string_def quote_raw_ok split: sum.splits)

lemma response_json_wf:
  assumes "response_json r = Inr j"
  shows "wf_json j" "depth j \<le> 2"
  using assms lock_json_wf
  by (auto simp: response_json_def Let_def json_string_def quote_raw_ok
      split: option.splits sum.splits if_splits)

definition lock_ok :: "lock \<Rightarrow> bool" where
  "lock_ok l \<longleftrightarrow> valid_utf8 (Project l) \<and> valid_utf8 (Branch l) \<and> valid_utf8 (Owner l) \<and>
     time_ok (CreatedAt l)"

definition stored_form :: "lock \<Rightarrow> lock" where
  "stored_form l = l\<lparr>CreatedAt := strip_mono (CreatedAt l)\<rparr>"

lemma names_field_refl [simp]: "names_field f f"
  by (simp add: names_field_def)

lemma field_names_differ [simp]:
  "\<not> names_field ''branch'' ''project''" "\<not> names_field ''created_at'' ''project''"
  "\<not> names_field ''created_at'' ''branch''" "\<not> names_field ''owner'' ''project''"
  "\<not> names_field ''owner'' ''branch''" "\<not> names_field ''owner'' ''created_at''"
  by (simp_all add: names_field_def fold_char_def in_range_def)

lemma unquote_plain:
  assumes "list_all plain s" and "list_all (\<lambda>c. byte c < 0x80) s"
  shows "unquote s = Some s"
  using assms by (induction s) (auto simp: plain_def)

lemma unquote_field_names [simp]:
  "unquote ''project'' = Some ''project''" "unquote ''branch'' = Some ''branch''"
  "unquote ''created_at'' = Some ''created_at''" "unquote ''owner'' = Some ''owner''"
  by (simp_all add: unquote_plain plain_def)

lemma unmarshal_marshal:
  assumes "lock_ok l"
  obtains s where "json_Marshal l = Inr s" "json_Unmarshal s = Some (stored_form l)"
proof -
  obtain ts where ts: "time_MarshalText (CreatedAt l) = Inr ts"
    "time_UnmarshalText ts = Some (strip_mono (CreatedAt l))"
    using assms parse_format [of "CreatedAt l"] by (auto simp: lock_ok_def)
  define j where "j = JObj
       [(''project'', json_string (Project l)), (''branch'', json_string (Branch l)),
        (''created_at'', JStr ts), (''owner'', json_string (Owner l))]"
  have j: "lock_json l = Inr j" by (simp add: lock_json_def ts j_def)
  have "decode_only (print j @ []) = Some j"
    using lock_json_wf [OF j] by (intro decode_print) (simp_all add: max_depth_def)
  moreover have "decode_struct set_lock_field zero_lock j = Some (stored_form l)"
    using assms
    by (simp add: j_def decode_struct_def set_lock_field_def json_string_def decode_string_def
        decode_time_def ts unquote_quote lock_ok_def stored_form_def zero_lock_def)
  ultimately have "json_Unmarshal (print j) = Some (stored_form l)"
    by (simp add: json_Unmarshal_def)
  moreover have "json_Marshal l = Inr (print j)" by (simp add: json_Marshal_def j)
  ultimately show ?thesis by (rule that [rotated])
qed

lemma marshal_total: "lock_ok l \<Longrightarrow> \<exists>s. json_Marshal l = Inr s"
  by (meson unmarshal_marshal)

end
