(* ===== verification/Effects.thy ===== *)
theory Effects
  imports LockModel
begin

text \<open>
  Effects.  The service runs against an embedded Olric instance and the clock.  Neither is code of
  the repository, so both are a parameter: the record \<open>olric\<close>, one function per call, over a
  state \<open>'w\<close> that the model never looks into.  A method of the service is a \<open>prog\<close>: it returns, or
  makes one call and goes on with the answer.  \<open>run\<close> executes a program alone; \<open>effect\<close> makes its
  next call only, which is what an interleaving of several goroutines is made of.

  The locale \<open>olric_dmap\<close> states what the service relies on of a distributed map: a call that
  succeeds does what it says, a failed call changes at most its own key, and the message
  ``key not found'' means that the key is absent.  \<open>olric_live\<close> adds that calls succeed.
\<close>

section \<open>Programs\<close>

datatype go_value = GStr string | GOther string

text \<open>What \<open>Scan\<close> makes of a response to \<open>Get\<close>, and a member of the cluster.\<close>

type_synonym get_response = "go_error + string"

record member =
  member_Name :: string
  member_Coordinator :: bool

datatype 'a prog =
    Ret 'a
  | Load "string option \<Rightarrow> 'a prog"
  | Save "string option" "'a prog"
  | ClientNewDMap string "go_error option \<Rightarrow> 'a prog"
  | DMapGet string string "go_error + get_response \<Rightarrow> 'a prog"
  | DMapPut string string go_value "int option" "go_error option \<Rightarrow> 'a prog"
  | DMapDelete string string "go_error option \<Rightarrow> 'a prog"
  | ClientMembers "go_error + member list \<Rightarrow> 'a prog"
  | ClientStats string "go_error option \<Rightarrow> 'a prog"
  | DbShutdown "go_error option \<Rightarrow> 'a prog"
  | Now "go_time \<Rightarrow> 'a prog"

record 'w olric =
  api_NewDMap :: "string \<Rightarrow> 'w \<Rightarrow> go_error option \<times> 'w"
  api_Get :: "string \<Rightarrow> string \<Rightarrow> 'w \<Rightarrow> (go_error + get_response) \<times> 'w"
  api_Put :: "string \<Rightarrow> string \<Rightarrow> go_value \<Rightarrow> int option \<Rightarrow> 'w \<Rightarrow> go_error option \<times> 'w"
  api_Delete :: "string \<Rightarrow> string \<Rightarrow> 'w \<Rightarrow> go_error option \<times> 'w"
  api_Members :: "'w \<Rightarrow> (go_error + member list) \<times> 'w"
  api_Stats :: "string \<Rightarrow> 'w \<Rightarrow> go_error option \<times> 'w"
  api_Shutdown :: "'w \<Rightarrow> go_error option \<times> 'w"
  api_Now :: "'w \<Rightarrow> go_time \<times> 'w"

text \<open>The process's own memory (the handle a store keeps of its map) and everything outside it.\<close>

record 'w node =
  dmap :: "string option"
  ext :: 'w

definition call :: "('w \<Rightarrow> 'r \<times> 'w) \<Rightarrow> 'w node \<Rightarrow> 'r \<times> 'w node" where
  "call f s = (case f (ext s) of (r, w) \<Rightarrow> (r, s\<lparr>ext := w\<rparr>))"

fun effect :: "'w olric \<Rightarrow> 'a prog \<Rightarrow> 'w node \<Rightarrow> 'a prog \<times> 'w node" where
  "effect api (Ret a) s = (Ret a, s)"
| "effect api (Load k) s = (k (dmap s), s)"
| "effect api (Save d p) s = (p, s\<lparr>dmap := d\<rparr>)"
| "effect api (ClientNewDMap d k) s = map_prod k id (call (api_NewDMap api d) s)"
| "effect api (DMapGet d key k) s = map_prod k id (call (api_Get api d key) s)"
| "effect api (DMapPut d key v ttl k) s = map_prod k id (call (api_Put api d key v ttl) s)"
| "effect api (DMapDelete d key k) s = map_prod k id (call (api_Delete api d key) s)"
| "effect api (ClientMembers k) s = map_prod k id (call (api_Members api) s)"
| "effect api (ClientStats m k) s = map_prod k id (call (api_Stats api m) s)"
| "effect api (DbShutdown k) s = map_prod k id (call (api_Shutdown api) s)"
| "effect api (Now k) s = map_prod k id (call (api_Now api) s)"

primrec run :: "'w olric \<Rightarrow> 'a prog \<Rightarrow> 'w node \<Rightarrow> 'a \<times> 'w node" where
  "run api (Ret a) = (\<lambda>s. (a, s))"
| "run api (Load k) = (\<lambda>s. run api (k (dmap s)) s)"
| "run api (Save d p) = (\<lambda>s. run api p (s\<lparr>dmap := d\<rparr>))"
| "run api (ClientNewDMap d k) = (\<lambda>s. case call (api_NewDMap api d) s of (r, s') \<Rightarrow> run api (k r) s')"
| "run api (DMapGet d key k) = (\<lambda>s. case call (api_Get api d key) s of (r, s') \<Rightarrow> run api (k r) s')"
| "run api (DMapPut d key v ttl k) =
     (\<lambda>s. case call (api_Put api d key v ttl) s of (r, s') \<Rightarrow> run api (k r) s')"
| "run api (DMapDelete d key k) =
     (\<lambda>s. case call (api_Delete api d key) s of (r, s') \<Rightarrow> run api (k r) s')"
| "run api (ClientMembers k) = (\<lambda>s. case call (api_Members api) s of (r, s') \<Rightarrow> run api (k r) s')"
| "run api (ClientStats m k) = (\<lambda>s. case call (api_Stats api m) s of (r, s') \<Rightarrow> run api (k r) s')"
| "run api (DbShutdown k) = (\<lambda>s. case call (api_Shutdown api) s of (r, s') \<Rightarrow> run api (k r) s')"
| "run api (Now k) = (\<lambda>s. case call (api_Now api) s of (r, s') \<Rightarrow> run api (k r) s')"

primrec seq :: "'a prog \<Rightarrow> ('a \<Rightarrow> 'b prog) \<Rightarrow> 'b prog" where
  "seq (Ret a) f = f a"
| "seq (Load k) f = Load (\<lambda>r. seq (k r) f)"
| "seq (Save d p) f = Save d (seq p f)"
| "seq (ClientNewDMap d k) f = ClientNewDMap d (\<lambda>r. seq (k r) f)"
| "seq (DMapGet d key k) f = DMapGet d key (\<lambda>r. seq (k r) f)"
| "seq (DMapPut d key v ttl k) f = DMapPut d key v ttl (\<lambda>r. seq (k r) f)"
| "seq (DMapDelete d key k) f = DMapDelete d key (\<lambda>r. seq (k r) f)"
| "seq (ClientMembers k) f = ClientMembers (\<lambda>r. seq (k r) f)"
| "seq (ClientStats m k) f = ClientStats m (\<lambda>r. seq (k r) f)"
| "seq (DbShutdown k) f = DbShutdown (\<lambda>r. seq (k r) f)"
| "seq (Now k) f = Now (\<lambda>r. seq (k r) f)"

text \<open>\<open>r, err := m; if err != nil { return err }\<close>.\<close>

definition and_then :: "(go_error + 'a) prog \<Rightarrow> ('a \<Rightarrow> (go_error + 'b) prog) \<Rightarrow> (go_error + 'b) prog" where
  "and_then m f = seq m (\<lambda>r. case r of Inl e \<Rightarrow> Ret (Inl e) | Inr x \<Rightarrow> f x)"

lemma run_seq [prog_simps]:
  "run api (seq m f) s = (case run api m s of (a, s') \<Rightarrow> run api (f a) s')"
  by (induction m arbitrary: s) (auto split: prod.splits)

lemma run_and_then [prog_simps]:
  "run api (and_then m f) s = (case run api m s of
     (Inl e, s') \<Rightarrow> (Inl e, s') | (Inr x, s') \<Rightarrow> run api (f x) s')"
  by (simp add: and_then_def run_seq split: prod.splits sum.splits)

text \<open>One call at a time reaches what the whole run does.\<close>

lemma run_effect: "(case effect api p s of (p', s') \<Rightarrow> run api p' s') = run api p s"
  by (cases p) (auto simp: map_prod_def split: prod.splits)

section \<open>The service's sentinel errors\<close>

text \<open>The two errors callers of \<open>internal/storage/storage.go\<close> test for; no error of Olric wraps one.\<close>

definition ErrLockNotFound :: go_error where
  "ErrLockNotFound = Sentinel ''lock not found''"

definition ErrLockConflict :: go_error where
  "ErrLockConflict = Sentinel ''lock conflict: project locked by another branch''"

lemma sentinels_differ [simp]:
  "ErrLockNotFound \<noteq> ErrLockConflict" "ErrLockConflict \<noteq> ErrLockNotFound"
  "Wrap m e \<noteq> ErrLockNotFound" "Wrap m e \<noteq> ErrLockConflict"
  "New m \<noteq> ErrLockNotFound" "New m \<noteq> ErrLockConflict"
  "ErrLockNotFound \<noteq> Wrap m e" "ErrLockConflict \<noteq> Wrap m e"
  "ErrLockNotFound \<noteq> New m" "ErrLockConflict \<noteq> New m"
  by (simp_all add: ErrLockNotFound_def ErrLockConflict_def)

definition own_error :: "go_error \<Rightarrow> bool" where
  "own_error e \<longleftrightarrow> errors_Is e ErrLockNotFound \<or> errors_Is e ErrLockConflict"

lemma own_error_simps [simp]:
  "\<not> own_error (New m)" "own_error (Wrap m e) = own_error e"
  "own_error ErrLockNotFound" "own_error ErrLockConflict"
  "\<not> own_error e \<Longrightarrow> \<not> errors_Is e ErrLockNotFound"
  "\<not> own_error e \<Longrightarrow> \<not> errors_Is e ErrLockConflict"
  by (auto simp: own_error_def ErrLockNotFound_def ErrLockConflict_def)

section \<open>What the service relies on\<close>

locale olric_dmap =
  fixes api :: "'w olric" and view :: "'w \<Rightarrow> string \<Rightarrow> string \<Rightarrow> go_value option"
  assumes new_dmap_view: "api_NewDMap api d w = (r1, w') \<Longrightarrow> view w' = view w"
    and get_view: "api_Get api d k w = (r2, w') \<Longrightarrow> view w' = view w"
    and get_found: "api_Get api d k w = (Inr (Inr v), w') \<Longrightarrow> view w d k = Some (GStr v)"
    and get_present: "api_Get api d k w = (Inr r3, w') \<Longrightarrow> view w d k \<noteq> None"
    and get_scan: "api_Get api d k w = (Inr (Inl e), w') \<Longrightarrow>
      \<not> strings_Contains (Error e) ''key not found'' \<and> \<not> own_error e"
    and get_own: "api_Get api d k w = (Inl e, w') \<Longrightarrow> \<not> own_error e"
    and put_own: "api_Put api d k x ttl w = (Some e, w') \<Longrightarrow> \<not> own_error e"
    and get_missing: "api_Get api d k w = (Inl e, w') \<Longrightarrow>
      strings_Contains (Error e) ''key not found'' \<Longrightarrow> view w d k = None"
    and put_ok: "api_Put api d k x ttl w = (None, w') \<Longrightarrow>
      view w' = (view w)(d := (view w d)(k \<mapsto> x))"
    and put_err: "api_Put api d k x ttl w = (Some e, w') \<Longrightarrow>
      view w' = view w \<or> view w' = (view w)(d := (view w d)(k \<mapsto> x))"
    and delete_ok: "api_Delete api d k w = (None, w') \<Longrightarrow>
      view w' = (view w)(d := (view w d)(k := None))"
    and delete_missing: "api_Delete api d k w = (Some e, w') \<Longrightarrow> Error e = ''key not found'' \<Longrightarrow>
      view w' = view w \<and> view w d k = None"
    and delete_err: "api_Delete api d k w = (Some e, w') \<Longrightarrow>
      view w' = view w \<or> view w' = (view w)(d := (view w d)(k := None))"
    and members_view: "api_Members api w = (r4, w') \<Longrightarrow> view w' = view w"
    and stats_view: "api_Stats api m w = (r5, w') \<Longrightarrow> view w' = view w"
    and now_view: "api_Now api w = (t, w') \<Longrightarrow> view w' = view w"
    and now_ok: "time_ok (fst (api_Now api w))"

locale olric_live = olric_dmap +
  assumes new_dmap_live: "fst (api_NewDMap api d w) = None"
    and get_live: "view w d k = Some (GStr v) \<Longrightarrow> fst (api_Get api d k w) = Inr (Inr v)"
    and get_live_missing: "view w d k = None \<Longrightarrow>
      \<exists>e. fst (api_Get api d k w) = Inl e \<and> Error e = ''key not found''"
    and put_live: "fst (api_Put api d k x ttl w) = None"
    and delete_live: "fst (api_Delete api d k w) = None \<or>
      (\<exists>e. fst (api_Delete api d k w) = Some e \<and> Error e = ''key not found'')"

end
