(* ===== verification/Http.thy ===== *)
theory Http
  imports Effects
begin

text \<open>
  What a handler does to the outside, besides the store: the calls it makes on its
  \<open>http.ResponseWriter\<close> and on the Prometheus metrics, in order.  \<open>deliver\<close> is what the server of
  Go's \<open>net/http\<close> makes of the former.  Metrics are the library's: only the calls on them are
  modelled, by the name of the metric, its label values and the value handed over.
\<close>

datatype sample = Num int | Secs int

datatype metric_call =
    Inc string "string list"
  | Dec string "string list"
  | AddTo string "string list" sample
  | SetTo string "string list" sample
  | Observe string "string list" sample

datatype http_event =
    HSet string string
  | HWriteHeader int
  | HWrite string
  | HMetric metric_call

record request =
  rq_Method :: string
  rq_Path :: string
  rq_ContentLength :: int
  rq_Body :: string
  rq_RoutePattern :: "string option"
  rq_project :: string

text \<open>The response the client gets: the first status wins, headers are fixed when it is sent.\<close>

record response =
  rs_code :: "int option"
  rs_headers :: "string \<Rightarrow> string option"
  rs_body :: string

definition no_response :: response where
  "no_response = \<lparr>rs_code = None, rs_headers = (\<lambda>_. None), rs_body = []\<rparr>"

definition http_WriteHeader :: "int \<Rightarrow> response \<Rightarrow> response" where
  "http_WriteHeader c r = (if rs_code r = None then r\<lparr>rs_code := Some c\<rparr> else r)"

fun deliver_event :: "http_event \<Rightarrow> response \<Rightarrow> response" where
  "deliver_event (HSet k v) r =
     (if rs_code r = None then r\<lparr>rs_headers := (rs_headers r)(k \<mapsto> v)\<rparr> else r)"
| "deliver_event (HWriteHeader c) r = http_WriteHeader c r"
| "deliver_event (HWrite b) r = (let r' = http_WriteHeader 200 r in r'\<lparr>rs_body := rs_body r' @ b\<rparr>)"
| "deliver_event (HMetric m) r = r"

definition deliver :: "http_event list \<Rightarrow> response" where
  "deliver evs = http_WriteHeader 200 (fold deliver_event evs no_response)"

fun metric_calls :: "http_event list \<Rightarrow> metric_call list" where
  "metric_calls [] = []"
| "metric_calls (HMetric m # evs) = m # metric_calls evs"
| "metric_calls (_ # evs) = metric_calls evs"

lemma metric_calls_append [simp]: "metric_calls (xs @ ys) = metric_calls xs @ metric_calls ys"
  by (induction xs rule: metric_calls.induct) auto

lemma metric_calls_map [simp]: "metric_calls (map HMetric ms) = ms"
  by (induction ms) auto

lemma fold_metric [simp]: "fold deliver_event (map HMetric ms) r = r"
  by (induction ms) auto

text \<open>Once a status is sent it stays.\<close>

lemma deliver_code_fixed: "rs_code r = Some c \<Longrightarrow> rs_code (fold deliver_event evs r) = Some c"
proof (induction evs arbitrary: r)
  case (Cons ev evs)
  then show ?case by (cases ev) (simp_all add: http_WriteHeader_def Let_def)
qed simp

section \<open>JSON replies\<close>

text \<open>
  \<open>respondJSON\<close> of the handlers and the tails of the probe handlers have one shape: a content type,
  a status, and the encoder's output, which ends in a newline and is left out when encoding fails.
\<close>

definition reply_json :: "int \<Rightarrow> go_error + json \<Rightarrow> http_event list" where
  "reply_json status j =
     HSet ''Content-Type'' ''application/json'' # HWriteHeader status #
     (case j of Inl _ \<Rightarrow> [] | Inr v \<Rightarrow> [HWrite (print v @ [CHR 0x0A])])"

lemma deliver_reply_json:
  "deliver (map HMetric ms @ reply_json status j) = \<lparr>rs_code = Some status,
     rs_headers = [''Content-Type'' \<mapsto> ''application/json''],
     rs_body = (case j of Inl _ \<Rightarrow> [] | Inr v \<Rightarrow> print v @ [CHR 0x0A])\<rparr>"
  by (auto simp: deliver_def reply_json_def no_response_def http_WriteHeader_def Let_def split: sum.splits)

lemma metric_calls_reply_json [simp]: "metric_calls (reply_json status j) = []"
  by (auto simp: reply_json_def split: sum.splits)

text \<open>Such a body is read back by a client's decoder.\<close>

lemma reply_body_decodes:
  assumes "wf_json j" "depth j \<le> max_depth"
  shows "decode_first (print j @ [CHR 0x0A]) = Some j"
  using assms decode_print [of j "[CHR 0x0A]"] by (simp add: is_space_def)

end
