(* ===== verification/GoNet.thy ===== *)
theory GoNet
  imports Json
begin

text \<open>
  \<open>net.ParseIP\<close>, as far as the service uses it: whether the text is an IPv4 or an IPv6 address.
  \<open>parse_ipv4\<close> follows \<open>parseIPv4Fields\<close> byte by byte, with the number of fields finished, the value
  and the number of digits of the current one; \<open>parse_ipv6\<close> is the loop of \<open>parseIPv6\<close> over the
  sixteen bytes of the address, two at a time, so eight rounds are enough fuel.
\<close>

fun ipv4_fields :: "nat \<Rightarrow> nat \<Rightarrow> nat \<Rightarrow> string \<Rightarrow> bool" where
  "ipv4_fields pos val digs [] = (pos = 3 \<and> 0 < digs)"
| "ipv4_fields pos val digs (c # s) =
     (if is_digit c then
        \<not> (digs = 1 \<and> val = 0) \<and> 10 * val + digit_val c \<le> 255 \<and>
        ipv4_fields pos (10 * val + digit_val c) (digs + 1) s
      else if c = CHR ''.'' then 0 < digs \<and> s \<noteq> [] \<and> pos < 3 \<and> ipv4_fields (pos + 1) 0 0 s
      else False)"

definition parse_ipv4 :: "string \<Rightarrow> bool" where
  "parse_ipv4 s = ipv4_fields 0 0 0 s"

text \<open>
  One round: \<open>i\<close> bytes of the address are filled, \<open>ell\<close> tells whether an ellipsis was seen.  The
  answer is the number of bytes filled at the end and whether there was an ellipsis, if the text
  is well formed.
\<close>

fun ipv6_groups :: "nat \<Rightarrow> nat \<Rightarrow> bool \<Rightarrow> string \<Rightarrow> (nat \<times> bool) option" where
  "ipv6_groups 0 i ell s = (if s = [] then Some (i, ell) else None)"
| "ipv6_groups (Suc n) i ell s =
     (let h = takeWhile is_hex s; r = dropWhile is_hex s in
      if h = [] \<or> 4 < length h then None
      else if r \<noteq> [] \<and> hd r = CHR ''.'' then
        (if (\<not> ell \<and> i \<noteq> 12) \<or> 16 < i + 4 \<or> \<not> parse_ipv4 s then None else Some (i + 4, ell))
      else if r = [] then Some (i + 2, ell)
      else if hd r \<noteq> CHR '':'' \<or> length r = 1 then None
      else if hd (tl r) = CHR '':'' then
        (if ell then None
         else if tl (tl r) = [] then Some (i + 2, True)
         else ipv6_groups n (i + 2) True (tl (tl r)))
      else ipv6_groups n (i + 2) ell (tl r))"

definition parse_ipv6 :: "string \<Rightarrow> bool" where
  "parse_ipv6 s =
     (if take 2 s = ''::'' then
        (drop 2 s = [] \<or>
          (case ipv6_groups 8 0 True (drop 2 s) of None \<Rightarrow> False | Some (i, _) \<Rightarrow> i < 16))
      else (case ipv6_groups 8 0 False s of
          None \<Rightarrow> False | Some (i, ell) \<Rightarrow> (if ell then i < 16 else 16 \<le> i)))"

text \<open>The first of the characters \<open>.\<close>, \<open>:\<close> and \<open>%\<close> decides; a zone is never accepted.\<close>

definition net_ParseIP :: "string \<Rightarrow> bool" where
  "net_ParseIP s =
     (case find (\<lambda>c. c = CHR ''.'' \<or> c = CHR '':'' \<or> c = CHR ''%'') s of
        None \<Rightarrow> False
      | Some c \<Rightarrow>
          if c = CHR ''.'' then parse_ipv4 s
          else if c = CHR '':'' then CHR ''%'' \<notin> set s \<and> parse_ipv6 s
          else False)"

text \<open>What is accepted, and what is not.\<close>

lemma ParseIP_examples:
  "net_ParseIP ''0.0.0.0''" "net_ParseIP ''127.0.0.1''" "net_ParseIP ''::''" "net_ParseIP ''::1''"
  "net_ParseIP ''fe80::1:2''" "net_ParseIP ''::ffff:10.0.0.1''" "net_ParseIP ''1:2:3:4:5:6:7:8''"
  "\<not> net_ParseIP ''localhost''" "\<not> net_ParseIP ''256.0.0.1''" "\<not> net_ParseIP ''1.2.3''"
  "\<not> net_ParseIP ''01.2.3.4''" "\<not> net_ParseIP ''0.0.0.0:3320''" "\<not> net_ParseIP ''1:2:3:4:5:6:7''"
  "\<not> net_ParseIP ''fe80::1%eth0''" "\<not> net_ParseIP ''1::2::3''" "\<not> net_ParseIP []"
  by code_simp+

lemma ipv4_fields_chars:
  "ipv4_fields pos val digs s \<Longrightarrow> list_all (\<lambda>c. is_digit c \<or> c = CHR ''.'') s"
  by (induction s arbitrary: pos val digs) (auto split: if_splits)

lemma ParseIP_nonempty: "net_ParseIP s \<Longrightarrow> s \<noteq> []"
  by (auto simp: net_ParseIP_def)

end
