(* ===== verification/StoreConfig.thy ===== *)
theory StoreConfig
  imports GoNet "HOL-Library.Word"
begin

text \<open>
  The configuration of the embedded store: \<open>internal/store/config.go\<close>.  A Go \<open>int\<close> is an \<open>int\<close>, the
  \<open>uint64\<close> partition count a \<open>64 word\<close>, a \<open>time.Duration\<close> its nanoseconds.  \<open>Validate\<close> is the chain of
  checks in the source's order, each with its own error; \<open>valid_config_iff\<close> says what it accepts.
\<close>

record olric_config =
  BindAddr :: string
  BindPort :: int
  AdvertiseAddr :: string
  AdvertisePort :: int
  MemberlistBindPort :: int
  JoinAddrs :: "string list"
  ReplicationMode :: string
  ReplicationFactor :: int
  PartitionCount :: "64 word"
  BackupCount :: int
  BackupMode :: string
  MemberCountQuorum :: int
  JoinRetryInterval :: int
  MaxJoinAttempts :: int
  LogLevel :: string
  KeepAlivePeriod :: int
  RequestTimeout :: int
  DMapName :: string

definition DefaultBindAddr :: string where "DefaultBindAddr = ''0.0.0.0''"
definition DefaultBindPort :: int where "DefaultBindPort = 3320"
definition DefaultAdvertiseAddr :: string where "DefaultAdvertiseAddr = ''''"
definition DefaultAdvertisePort :: int where "DefaultAdvertisePort = 0"
definition DefaultMemberlistBindPort :: int where "DefaultMemberlistBindPort = 0"
definition DefaultReplicationMode :: string where "DefaultReplicationMode = ''async''"
definition DefaultReplicationFactor :: int where "DefaultReplicationFactor = 1"
definition DefaultPartitionCount :: int where "DefaultPartitionCount = 271"
definition DefaultBackupCount :: int where "DefaultBackupCount = 1"
definition DefaultBackupMode :: string where "DefaultBackupMode = ''async''"
definition DefaultMemberCountQuorum :: int where "DefaultMemberCountQuorum = 1"
definition DefaultJoinRetryInterval :: int where "DefaultJoinRetryInterval = 1 * Second"
definition DefaultMaxJoinAttempts :: int where "DefaultMaxJoinAttempts = 30"
definition DefaultLogLevel :: string where "DefaultLogLevel = ''WARN''"
definition DefaultKeepAlivePeriod :: int where "DefaultKeepAlivePeriod = 30 * Second"
definition DefaultRequestTimeout :: int where "DefaultRequestTimeout = 5 * Second"
definition DefaultDMapName :: string where "DefaultDMapName = ''deployment-locks''"

lemmas default_defs = DefaultBindAddr_def DefaultBindPort_def DefaultAdvertiseAddr_def
  DefaultAdvertisePort_def DefaultMemberlistBindPort_def DefaultReplicationMode_def
  DefaultReplicationFactor_def DefaultPartitionCount_def DefaultBackupCount_def
  DefaultBackupMode_def DefaultMemberCountQuorum_def DefaultJoinRetryInterval_def
  DefaultMaxJoinAttempts_def DefaultLogLevel_def DefaultKeepAlivePeriod_def
  DefaultRequestTimeout_def DefaultDMapName_def

definition NewDefaultOlricConfig :: olric_config where
  "NewDefaultOlricConfig = \<lparr>
     BindAddr = DefaultBindAddr,
     BindPort = DefaultBindPort,
     AdvertiseAddr = DefaultAdvertiseAddr,
     AdvertisePort = DefaultAdvertisePort,
     MemberlistBindPort = DefaultMemberlistBindPort,
     JoinAddrs = [],
     ReplicationMode = DefaultReplicationMode,
     ReplicationFactor = DefaultReplicationFactor,
     PartitionCount = word_of_int DefaultPartitionCount,
     BackupCount = DefaultBackupCount,
     BackupMode = DefaultBackupMode,
     MemberCountQuorum = DefaultMemberCountQuorum,
     JoinRetryInterval = DefaultJoinRetryInterval,
     MaxJoinAttempts = DefaultMaxJoinAttempts,
     LogLevel = DefaultLogLevel,
     KeepAlivePeriod = DefaultKeepAlivePeriod,
     RequestTimeout = DefaultRequestTimeout,
     DMapName = DefaultDMapName\<rparr>"

definition IsSingleNode :: "olric_config \<Rightarrow> bool" where
  "IsSingleNode c \<longleftrightarrow> length (JoinAddrs c) = 0"

definition olric_Validate :: "olric_config \<Rightarrow> go_error option" where
  "olric_Validate c =
     (if BindAddr c = [] then Some (New ''bind address cannot be empty'')
      else if \<not> net_ParseIP (BindAddr c) then
        Some (New (''bind address must be a valid IPv4 or IPv6 address, got: '' @ BindAddr c))
      else if BindPort c < 1 \<or> BindPort c > 65535 then
        Some (New (''bind port must be between 1 and 65535, got: '' @ strconv_Itoa (BindPort c)))
      else if AdvertiseAddr c \<noteq> [] \<and> \<not> net_ParseIP (AdvertiseAddr c) then
        Some (New (''advertise address must be a valid IPv4 or IPv6 address, got: '' @ AdvertiseAddr c))
      else if AdvertisePort c \<noteq> 0 \<and> (AdvertisePort c < 1 \<or> AdvertisePort c > 65535) then
        Some (New (''advertise port must be between 1 and 65535, got: '' @ strconv_Itoa (AdvertisePort c)))
      else if MemberlistBindPort c \<noteq> 0 \<and> (MemberlistBindPort c < 1 \<or> MemberlistBindPort c > 65535) then
        Some (New (''memberlist bind port must be between 1 and 65535, got: '' @
          strconv_Itoa (MemberlistBindPort c)))
      else if ReplicationMode c \<noteq> ''sync'' \<and> ReplicationMode c \<noteq> ''async'' then
        Some (New (''replication mode must be sync or async, got: '' @ ReplicationMode c))
      else if ReplicationFactor c < 1 then
        Some (New (''replication factor must be at least 1, got: '' @ strconv_Itoa (ReplicationFactor c)))
      else if PartitionCount c < 1 then
        Some (New (''partition count must be at least 1, got: '' @
          strconv_Itoa (uint (PartitionCount c))))
      else if BackupCount c < 0 then
        Some (New (''backup count must be zero or greater, got: '' @ strconv_Itoa (BackupCount c)))
      else if BackupMode c \<noteq> ''sync'' \<and> BackupMode c \<noteq> ''async'' then
        Some (New (''backup mode must be sync or async, got: '' @ BackupMode c))
      else if MemberCountQuorum c < 1 then
        Some (New (''member count quorum must be at least 1, got: '' @ strconv_Itoa (MemberCountQuorum c)))
      else if JoinRetryInterval c \<le> 0 then
        Some (New (''join retry interval must be positive, got: '' @ duration_String (JoinRetryInterval c)))
      else if MaxJoinAttempts c < 1 then
        Some (New (''max join attempts must be at least 1, got: '' @ strconv_Itoa (MaxJoinAttempts c)))
      else if LogLevel c \<notin> set [''DEBUG'', ''INFO'', ''WARN'', ''ERROR''] then
        Some (New (''invalid log level: '' @ LogLevel c @ '' (must be DEBUG, INFO, WARN, or ERROR)''))
      else if KeepAlivePeriod c \<le> 0 then Some (New ''keep alive period must be positive'')
      else if RequestTimeout c \<le> 0 then Some (New ''request timeout must be positive'')
      else if DMapName c = [] then Some (New ''dmap name cannot be empty'')
      else if MemberCountQuorum c > 1 \<and> length (JoinAddrs c) = 0 then
        Some (New (''member count quorum is '' @ strconv_Itoa (MemberCountQuorum c) @
          '' but no join addresses provided; need at least one join address to form a cluster''))
      else if length (JoinAddrs c) > 0 \<and> ReplicationFactor c < 2 then
        Some (New (''replication factor should be at least 2 in multi-node mode (current: '' @
          strconv_Itoa (ReplicationFactor c) @ '')''))
      else None)"

text \<open>What validation promises, as a specification that does not follow the code's order.\<close>

definition port_ok :: "int \<Rightarrow> bool" where
  "port_ok p \<longleftrightarrow> 1 \<le> p \<and> p \<le> 65535"

definition mode_ok :: "string \<Rightarrow> bool" where
  "mode_ok m \<longleftrightarrow> m = ''sync'' \<or> m = ''async''"

definition network_ok :: "olric_config \<Rightarrow> bool" where
  "network_ok c \<longleftrightarrow>
     net_ParseIP (BindAddr c) \<and> port_ok (BindPort c) \<and>
     (AdvertiseAddr c = [] \<or> net_ParseIP (AdvertiseAddr c)) \<and>
     (AdvertisePort c = 0 \<or> port_ok (AdvertisePort c)) \<and>
     (MemberlistBindPort c = 0 \<or> port_ok (MemberlistBindPort c))"

definition replication_ok :: "olric_config \<Rightarrow> bool" where
  "replication_ok c \<longleftrightarrow>
     mode_ok (ReplicationMode c) \<and> mode_ok (BackupMode c) \<and> 1 \<le> ReplicationFactor c \<and>
     0 < unat (PartitionCount c) \<and> 0 \<le> BackupCount c"

definition membership_ok :: "olric_config \<Rightarrow> bool" where
  "membership_ok c \<longleftrightarrow>
     1 \<le> MemberCountQuorum c \<and> 0 < JoinRetryInterval c \<and> 1 \<le> MaxJoinAttempts c \<and>
     (if IsSingleNode c then MemberCountQuorum c = 1 else 2 \<le> ReplicationFactor c)"

definition valid_config :: "olric_config \<Rightarrow> bool" where
  "valid_config c \<longleftrightarrow> network_ok c \<and> replication_ok c \<and> membership_ok c \<and>
     LogLevel c \<in> {''DEBUG'', ''INFO'', ''WARN'', ''ERROR''} \<and>
     0 < KeepAlivePeriod c \<and> 0 < RequestTimeout c \<and> DMapName c \<noteq> []"

lemmas valid_config_defs = valid_config_def network_ok_def replication_ok_def membership_ok_def
  port_ok_def mode_ok_def IsSingleNode_def

lemma word_ge_1: "1 \<le> (w :: 64 word) \<longleftrightarrow> 0 < unat w"
  by (simp add: word_le_nat_alt Suc_le_eq del: unat_gt_0)

lemma passes_iff:
  "\<not> (p < 1 \<or> p > 65535) \<longleftrightarrow> port_ok p"
  "\<not> (p \<noteq> 0 \<and> (p < 1 \<or> p > 65535)) \<longleftrightarrow> p = 0 \<or> port_ok p"
  "\<not> (a \<noteq> [] \<and> \<not> net_ParseIP a) \<longleftrightarrow> a = [] \<or> net_ParseIP a"
  "\<not> (m \<noteq> ''sync'' \<and> m \<noteq> ''async'') \<longleftrightarrow> mode_ok m"
  by (auto simp: port_ok_def mode_ok_def)

lemma cluster_passes_iff:
  "\<not> MemberCountQuorum c < 1 \<and> \<not> (MemberCountQuorum c > 1 \<and> length (JoinAddrs c) = 0) \<and>
     \<not> (length (JoinAddrs c) > 0 \<and> ReplicationFactor c < 2) \<longleftrightarrow>
   1 \<le> MemberCountQuorum c \<and>
     (if IsSingleNode c then MemberCountQuorum c = 1 else 2 \<le> ReplicationFactor c)"
  by (auto simp: IsSingleNode_def)

lemma Validate_None_iff: "olric_Validate c = None \<longleftrightarrow> valid_config c"
proof -
  have "BindAddr c \<noteq> [] \<and> net_ParseIP (BindAddr c) \<longleftrightarrow> net_ParseIP (BindAddr c)"
    using ParseIP_nonempty by auto
  with cluster_passes_iff [of c] show ?thesis
    unfolding olric_Validate_def check_None_iff passes_iff valid_config_def network_ok_def
      replication_ok_def membership_ok_def not_less not_le not_not list.set(1,2)
      word_ge_1
    by blast
qed

end
