(* ===== verification/OlricStore.thy ===== *)
theory OlricStore
  imports StoreConfig Effects
begin

text \<open>
  The store: the interface \<open>Store\<close> of \<open>internal/store/store.go\<close>, a record of methods, and its
  implementation over an embedded Olric, \<open>internal/store/olric.go\<close>.  The handle of the distributed
  map is created on first use and kept in the process's memory (\<open>dmap\<close> of the node); the two
  sections of \<open>getDMap\<close> under its mutex are single reads here, so an interleaving of this model has
  every interleaving the mutex allows.  Log lines and the context's deadlines are not modelled: a
  call that a deadline cuts off is a call that fails.
\<close>

record store_stats =
  ClusterMembers :: int
  stats_PartitionCount :: int
  stats_BackupCount :: int
  stats_ReplicationFactor :: int
  TotalKeys :: int
  MemoryUsage :: int

record store =
  st_Put :: "string \<Rightarrow> go_value \<Rightarrow> int \<Rightarrow> go_error option prog"
  st_Get :: "string \<Rightarrow> (go_error + go_value) prog"
  st_Delete :: "string \<Rightarrow> go_error option prog"
  st_Exists :: "string \<Rightarrow> (go_error + bool) prog"
  st_Ping :: "go_error option prog"
  st_Stats :: "(go_error + store_stats) prog"
  st_Close :: "go_error option prog"
  st_PutIfAbsent :: "string \<Rightarrow> go_value \<Rightarrow> int \<Rightarrow> (go_error + bool) prog"

text \<open>The fields \<open>db\<close> and \<open>client\<close> of \<open>OlricStore\<close> matter only as nil or not.\<close>

record olric_store =
  store_config :: olric_config
  store_db :: bool
  store_client :: bool

section \<open>Operations\<close>

definition getDMap :: "olric_store \<Rightarrow> (go_error + string) prog" where
  "getDMap s = Load (\<lambda>d. case d of
     Some d \<Rightarrow> Ret (Inr d)
   | None \<Rightarrow> Load (\<lambda>d. case d of
       Some d \<Rightarrow> Ret (Inr d)
     | None \<Rightarrow> ClientNewDMap (DMapName (store_config s)) (\<lambda>err. case err of
         Some e \<Rightarrow> Ret (Inl (Wrap ''failed to create dmap'' e))
       | None \<Rightarrow> Save (Some (DMapName (store_config s))) (Ret (Inr (DMapName (store_config s)))))))"

definition expiry :: "int \<Rightarrow> int option" where
  "expiry ttl = (if ttl > 0 then Some ttl else None)"

definition olric_Put :: "olric_store \<Rightarrow> string \<Rightarrow> go_value \<Rightarrow> int \<Rightarrow> go_error option prog" where
  "olric_Put s key value ttl = seq (getDMap s) (\<lambda>r. case r of
     Inl e \<Rightarrow> Ret (Some e)
   | Inr d \<Rightarrow> DMapPut d key value (expiry ttl) Ret)"

definition olric_Get :: "olric_store \<Rightarrow> string \<Rightarrow> (go_error + go_value) prog" where
  "olric_Get s key = and_then (getDMap s) (\<lambda>d. DMapGet d key (\<lambda>r. Ret (case r of
     Inl e \<Rightarrow> Inl e
   | Inr (Inl e) \<Rightarrow> Inl e
   | Inr (Inr result) \<Rightarrow> Inr (GStr result))))"

definition isKeyNotFoundError :: "go_error option \<Rightarrow> bool" where
  "isKeyNotFoundError err = (case err of
     None \<Rightarrow> False | Some e \<Rightarrow> Error e = ''key not found'')"

definition olric_Delete :: "olric_store \<Rightarrow> string \<Rightarrow> go_error option prog" where
  "olric_Delete s key = seq (getDMap s) (\<lambda>r. case r of
     Inl e \<Rightarrow> Ret (Some e)
   | Inr d \<Rightarrow> DMapDelete d key (\<lambda>err.
       Ret (if err \<noteq> None \<and> \<not> isKeyNotFoundError err then err else None)))"

definition olric_Exists :: "olric_store \<Rightarrow> string \<Rightarrow> (go_error + bool) prog" where
  "olric_Exists s key = and_then (getDMap s) (\<lambda>d. DMapGet d key (\<lambda>r. Ret (case r of
     Inl e \<Rightarrow> if isKeyNotFoundError (Some e) then Inr False else Inl e
   | Inr _ \<Rightarrow> Inr True)))"

definition olric_PutIfAbsent :: "olric_store \<Rightarrow> string \<Rightarrow> go_value \<Rightarrow> int \<Rightarrow> (go_error + bool) prog" where
  "olric_PutIfAbsent s key value ttl = and_then (getDMap s) (\<lambda>d. DMapGet d key (\<lambda>r. case r of
     Inr _ \<Rightarrow> Ret (Inr False)
   | Inl e \<Rightarrow>
       if \<not> isKeyNotFoundError (Some e) then Ret (Inl (Wrap ''failed to check key existence'' e))
       else DMapPut d key value (expiry ttl) (\<lambda>err. Ret (case err of
         Some e \<Rightarrow> Inl (Wrap ''failed to put value'' e)
       | None \<Rightarrow> Inr True))))"

definition olric_Ping :: "olric_store \<Rightarrow> go_error option prog" where
  "olric_Ping s =
     (if \<not> store_client s then Ret (Some (New ''olric client is nil''))
      else ClientMembers (\<lambda>r. Ret (case r of
        Inl e \<Rightarrow> Some (Wrap ''failed to get olric members'' e) | Inr _ \<Rightarrow> None)))"

definition olric_Stats :: "olric_store \<Rightarrow> (go_error + store_stats) prog" where
  "olric_Stats s = ClientMembers (\<lambda>r. case r of
     Inl e \<Rightarrow> Ret (Inl (Wrap ''failed to get members'' e))
   | Inr members \<Rightarrow>
       let stats = \<lparr>
         ClusterMembers = int (length members),
         stats_PartitionCount = sint (PartitionCount (store_config s)),
         stats_BackupCount = BackupCount (store_config s),
         stats_ReplicationFactor = ReplicationFactor (store_config s),
         TotalKeys = 0,
         MemoryUsage = 0\<rparr>
       in case members of
            [] \<Rightarrow> Ret (Inr stats)
          | m # _ \<Rightarrow> ClientStats (member_Name m) (\<lambda>_. Ret (Inr stats)))"

definition olric_Close :: "olric_store \<Rightarrow> go_error option prog" where
  "olric_Close s = (if \<not> store_db s then Ret None else DbShutdown Ret)"

definition as_Store :: "olric_store \<Rightarrow> store" where
  "as_Store s = \<lparr>
     st_Put = olric_Put s, st_Get = olric_Get s, st_Delete = olric_Delete s,
     st_Exists = olric_Exists s, st_Ping = olric_Ping s, st_Stats = olric_Stats s,
     st_Close = olric_Close s, st_PutIfAbsent = olric_PutIfAbsent s\<rparr>"

section \<open>Start-up\<close>

text \<open>
  The configuration handed to Olric.  \<open>config.New\<close> and \<open>config.NewMemberlistConfig\<close> are the
  library's: what they return is the argument that the fields below are set in.
\<close>

record memberlist_config =
  mc_BindAddr :: string
  mc_BindPort :: int
  mc_AdvertiseAddr :: string
  mc_AdvertisePort :: int

record lib_config =
  lib_BindAddr :: string
  lib_BindPort :: int
  lib_KeepAlivePeriod :: int
  lib_PartitionCount :: "64 word"
  lib_ReplicaCount :: int
  lib_ReadQuorum :: int
  lib_WriteQuorum :: int
  lib_MemberCountQuorum :: "32 word"
  lib_LogLevel :: string
  lib_JoinRetryInterval :: int
  lib_MaxJoinAttempts :: int
  lib_BootstrapTimeout :: int
  lib_Memberlist :: "memberlist_config option"
  lib_SyncReplication :: bool
  lib_Peers :: "string list"

definition memberlist_of :: "olric_config \<Rightarrow> memberlist_config \<Rightarrow> memberlist_config" where
  "memberlist_of cfg mc0 =
     (let mc1 = mc0\<lparr>mc_BindAddr := BindAddr cfg\<rparr>;
          mc2 = (if MemberlistBindPort cfg \<noteq> 0 then mc1\<lparr>mc_BindPort := MemberlistBindPort cfg\<rparr> else mc1);
          mc3 = (if AdvertiseAddr cfg \<noteq> [] then mc2\<lparr>mc_AdvertiseAddr := AdvertiseAddr cfg\<rparr> else mc2)
      in (if AdvertisePort cfg \<noteq> 0 then mc3\<lparr>mc_AdvertisePort := AdvertisePort cfg\<rparr> else mc3))"

definition createOlricConfig ::
    "lib_config \<Rightarrow> go_error + memberlist_config \<Rightarrow> olric_config \<Rightarrow> go_error + lib_config" where
  "createOlricConfig c0 mc0 cfg =
     (let c = c0\<lparr>
        lib_BindAddr := BindAddr cfg,
        lib_BindPort := BindPort cfg,
        lib_KeepAlivePeriod := KeepAlivePeriod cfg,
        lib_PartitionCount := PartitionCount cfg,
        lib_ReplicaCount := ReplicationFactor cfg,
        lib_ReadQuorum := 1,
        lib_WriteQuorum := MemberCountQuorum cfg,
        lib_MemberCountQuorum := word_of_int (MemberCountQuorum cfg),
        lib_LogLevel := LogLevel cfg,
        lib_JoinRetryInterval := JoinRetryInterval cfg,
        lib_MaxJoinAttempts := MaxJoinAttempts cfg,
        lib_BootstrapTimeout := 5 * Second\<rparr>
      in case mc0 of
           Inl e \<Rightarrow> Inl (Wrap ''failed to create memberlist config'' e)
         | Inr mc \<Rightarrow> Inr (c\<lparr>
             lib_Memberlist := Some (memberlist_of cfg mc),
             lib_SyncReplication := (ReplicationMode cfg = ''sync''),
             lib_Peers := (if length (JoinAddrs cfg) > 0 then JoinAddrs cfg else lib_Peers c)\<rparr>))"

text \<open>
  \<open>waitForCluster\<close> waits in a \<open>select\<close> on the context and a ticker.  What each round of the
  \<open>select\<close> delivers is an argument; \<open>None\<close> means that the loop is still waiting when the list ends.
\<close>

datatype wait_event = CtxDone go_error | Tick

fun wait_loop :: "olric_store \<Rightarrow> int \<Rightarrow> wait_event list \<Rightarrow> go_error option option prog" where
  "wait_loop s attempts [] = Ret None"
| "wait_loop s attempts (CtxDone e # evs) = Ret (Some (Some e))"
| "wait_loop s attempts (Tick # evs) = ClientMembers (\<lambda>r.
     let attempts = attempts + 1;
         memberCount = (case r of Inl _ \<Rightarrow> 0 | Inr members \<Rightarrow> int (length members))
     in if memberCount \<ge> MemberCountQuorum (store_config s) then Ret (Some None)
        else if attempts \<ge> MaxJoinAttempts (store_config s) then
          Ret (Some (Some (New (''max join attempts ('' @ strconv_Itoa (MaxJoinAttempts (store_config s)) @
            '') reached, only '' @ strconv_Itoa memberCount @ ''/'' @
            strconv_Itoa (MemberCountQuorum (store_config s)) @ '' members present''))))
        else wait_loop s attempts evs)"

definition waitForCluster :: "olric_store \<Rightarrow> wait_event list \<Rightarrow> go_error option option prog" where
  "waitForCluster s evs =
     (if IsSingleNode (store_config s) then Ret (Some None) else wait_loop s 0 evs)"

text \<open>
  What the library and the scheduler decide during start-up: the default configurations, whether
  \<open>olric.New\<close> succeeds, whether \<open>Start\<close> returned within half a second, and the wait's events.
\<close>

record startup =
  su_config :: lib_config
  su_memberlist :: "go_error + memberlist_config"
  su_new :: "lib_config \<Rightarrow> go_error option"
  su_start :: "go_error option option"
  su_wait :: "wait_event list"

definition premature :: "go_error option \<Rightarrow> go_error" where
  "premature err = (case err of
     Some e \<Rightarrow> Wrap ''olric start returned prematurely'' e
   | None \<Rightarrow> New ''olric start returned prematurely: %!w(<nil>)'')"

definition NewOlricStore :: "startup \<Rightarrow> olric_config \<Rightarrow> (go_error + olric_store) option prog" where
  "NewOlricStore su cfg = (case olric_Validate cfg of
     Some e \<Rightarrow> Ret (Some (Inl (Wrap ''invalid olric configuration'' e)))
   | None \<Rightarrow> (case createOlricConfig (su_config su) (su_memberlist su) cfg of
       Inl e \<Rightarrow> Ret (Some (Inl (Wrap ''failed to create olric config'' e)))
     | Inr c \<Rightarrow> (case su_new su c of
         Some e \<Rightarrow> Ret (Some (Inl (Wrap ''failed to create olric instance'' e)))
       | None \<Rightarrow> (case su_start su of
           Some err \<Rightarrow> Ret (Some (Inl (premature err)))
         | None \<Rightarrow>
             let s = \<lparr>store_config = cfg, store_db = True, store_client = True\<rparr> in
             seq (waitForCluster s (su_wait su)) (\<lambda>w. case w of
               None \<Rightarrow> Ret None
             | Some (Some e) \<Rightarrow> DbShutdown (\<lambda>_. Ret (Some (Inl (Wrap ''cluster not ready'' e))))
             | Some None \<Rightarrow> ClientMembers (\<lambda>_. seq (getDMap s) (\<lambda>r. Ret (Some (case r of
                 Inl e \<Rightarrow> Inl (Wrap ''failed to create DMap during initialization'' e)
               | Inr _ \<Rightarrow> Inr s)))))))))"

end
