(* ===== verification/OlricRef.thy ===== *)
theory OlricRef
  imports Effects
begin

text \<open>
  A reference Olric: one node that never fails, whose maps are a function from map and key to
  value and whose clock advances by a nanosecond at every reading.  It shows that the laws of
  \<open>Effects\<close> can hold together, and witnesses evaluate the service on it.  It is no model of the
  real Olric: no theorem about the service rests on it.
\<close>

record ref_world =
  ref_data :: "string \<Rightarrow> string \<Rightarrow> go_value option"
  ref_clock :: nat

definition ref_time :: "nat \<Rightarrow> go_time" where
  \<comment> \<open>2024-01-01T00:00:00Z and a fraction of a second\<close>
  "ref_time n = \<lparr>unix_ns = 1704067200000000000 + int (n mod 1000000000), zone = 0, mono = Some (int n)\<rparr>"

definition ref_api :: "ref_world olric" where
  "ref_api = \<lparr>
     api_NewDMap = (\<lambda>d w. (None, w)),
     api_Get = (\<lambda>d k w. (case ref_data w d k of
         None \<Rightarrow> Inl (New ''key not found'')
       | Some (GStr v) \<Rightarrow> Inr (Inr v)
       | Some (GOther t) \<Rightarrow> Inr (Inl (New ''cannot scan'')), w)),
     api_Put = (\<lambda>d k x ttl w.
       (None, w\<lparr>ref_data := (ref_data w)(d := (ref_data w d)(k \<mapsto> x))\<rparr>)),
     api_Delete = (\<lambda>d k w.
       (None, w\<lparr>ref_data := (ref_data w)(d := (ref_data w d)(k := None))\<rparr>)),
     api_Members = (\<lambda>w. (Inr [\<lparr>member_Name = ''node-1'', member_Coordinator = True\<rparr>], w)),
     api_Stats = (\<lambda>m w. (None, w)),
     api_Shutdown = (\<lambda>w. (None, w)),
     api_Now = (\<lambda>w. (ref_time (ref_clock w), w\<lparr>ref_clock := Suc (ref_clock w)\<rparr>))\<rparr>"

lemmas ref_simps = ref_api_def ref_time_def call_def

lemma ref_time_ok: "time_ok (ref_time n)"
proof -
  have "(1704067200000000000 + int m) div Second = 1704067200" if "m < 1000000000" for m
    using that by linarith
  then have "local_secs (ref_time n) = 63871286400"
    by (simp add: local_secs_def ref_time_def)
  then have "year (civil_of (ref_time n)) = year_of_day (63871286400 div 86400)"
    by (simp add: civil_of_def Let_def)
  also have "\<dots> = 2024" by code_simp
  finally show ?thesis by (simp add: time_ok_def) (simp add: ref_time_def)
qed

interpretation ref: olric_live ref_api ref_data
  by unfold_locales (auto simp: ref_api_def ref_time_ok split: option.splits go_value.splits)

definition ref_node :: "ref_world node" where
  "ref_node = \<lparr>dmap = None, ext = \<lparr>ref_data = (\<lambda>_ _. None), ref_clock = 0\<rparr>\<rparr>"

end
