(* ===== verification/StoreContract.thy ===== *)
theory StoreContract
  imports OlricStore OlricRef
begin

text \<open>
  What the interface \<open>Store\<close> promises its clients, as the locale \<open>kv_store\<close>: the content of a store
  is a map from keys to values, a successful operation does to it what its comment in
  \<open>internal/store/store.go\<close> says, and one that fails has done its work or nothing.  \<open>kv_live\<close> adds
  that the operations succeed.  \<open>OlricStore\<close> keeps both contracts wherever Olric keeps its own
  (\<open>olric_node\<close>, \<open>olric_node_live\<close>).
\<close>

section \<open>The contract\<close>

locale kv_store =
  fixes api :: "'w olric" and st :: store
    and inv :: "'w node \<Rightarrow> bool" and content :: "'w node \<Rightarrow> string \<Rightarrow> go_value option"
  assumes Get_frame: "inv s \<Longrightarrow> run api (st_Get st k) s = (r, s') \<Longrightarrow> inv s' \<and> content s' = content s"
    and Get_found: "inv s \<Longrightarrow> run api (st_Get st k) s = (Inr v, s') \<Longrightarrow> content s k = Some v"
    and Get_missing: "inv s \<Longrightarrow> run api (st_Get st k) s = (Inl e, s') \<Longrightarrow>
      strings_Contains (Error e) ''key not found'' \<Longrightarrow> content s k = None"
    and Get_own: "inv s \<Longrightarrow> run api (st_Get st k) s = (Inl e, s') \<Longrightarrow> \<not> own_error e"
    and Put_inv: "inv s \<Longrightarrow> run api (st_Put st k v ttl) s = (r2, s') \<Longrightarrow> inv s'"
    and Put_ok: "inv s \<Longrightarrow> run api (st_Put st k v ttl) s = (None, s') \<Longrightarrow>
      content s' = (content s)(k \<mapsto> v)"
    and Put_err: "inv s \<Longrightarrow> run api (st_Put st k v ttl) s = (Some e, s') \<Longrightarrow>
      content s' = content s \<or> content s' = (content s)(k \<mapsto> v)"
    and Delete_inv: "inv s \<Longrightarrow> run api (st_Delete st k) s = (r3, s') \<Longrightarrow> inv s'"
    and Delete_ok: "inv s \<Longrightarrow> run api (st_Delete st k) s = (None, s') \<Longrightarrow>
      content s' = (content s)(k := None)"
    and Delete_err: "inv s \<Longrightarrow> run api (st_Delete st k) s = (Some e, s') \<Longrightarrow>
      content s' = content s \<or> content s' = (content s)(k := None)"
    and PutIfAbsent_inv: "inv s \<Longrightarrow> run api (st_PutIfAbsent st k v ttl) s = (r4, s') \<Longrightarrow> inv s'"
    and PutIfAbsent_stored: "inv s \<Longrightarrow> run api (st_PutIfAbsent st k v ttl) s = (Inr True, s') \<Longrightarrow>
      content s k = None \<and> content s' = (content s)(k \<mapsto> v)"
    and PutIfAbsent_present: "inv s \<Longrightarrow> run api (st_PutIfAbsent st k v ttl) s = (Inr False, s') \<Longrightarrow>
      content s k \<noteq> None \<and> content s' = content s"
    and PutIfAbsent_err: "inv s \<Longrightarrow> run api (st_PutIfAbsent st k v ttl) s = (Inl e, s') \<Longrightarrow>
      content s' = content s \<or> content s k = None \<and> content s' = (content s)(k \<mapsto> v)"
    and PutIfAbsent_own: "inv s \<Longrightarrow> run api (st_PutIfAbsent st k v ttl) s = (Inl e, s') \<Longrightarrow>
      \<not> own_error e"
    and Now_frame: "inv s \<Longrightarrow> call (api_Now api) s = (t, s') \<Longrightarrow> inv s' \<and> content s' = content s"
    and Now_ok: "time_ok (fst (call (api_Now api) s))"
begin

lemmas frame = Get_frame Put_inv Delete_inv PutIfAbsent_inv Now_frame

text \<open>An operation on one key leaves the content of every other key alone, failed or not.\<close>

lemma Put_other:
  "inv s \<Longrightarrow> run api (st_Put st k v ttl) s = (r, s') \<Longrightarrow> k' \<noteq> k \<Longrightarrow> content s' k' = content s k'"
  by (cases r) (auto dest: Put_ok Put_err)

lemma Delete_other:
  "inv s \<Longrightarrow> run api (st_Delete st k) s = (r, s') \<Longrightarrow> k' \<noteq> k \<Longrightarrow> content s' k' = content s k'"
  by (cases r) (auto dest: Delete_ok Delete_err)

lemma PutIfAbsent_other:
  assumes "inv s" and "run api (st_PutIfAbsent st k v ttl) s = (r, s')" and "k' \<noteq> k"
  shows "content s' k' = content s k'"
proof (cases r)
  case (Inl e)
  with assms show ?thesis by (auto dest: PutIfAbsent_err)
next
  case (Inr b)
  with assms show ?thesis by (cases b) (auto dest: PutIfAbsent_stored PutIfAbsent_present)
qed

end

text \<open>\<open>kv_live\<close>: no operation fails, other than a read of a key that is not there.\<close>

locale kv_live = kv_store +
  assumes Get_live: "inv s \<Longrightarrow> content s k = Some (GStr str) \<Longrightarrow>
      \<exists>s'. run api (st_Get st k) s = (Inr (GStr str), s')"
    and Get_live_missing: "inv s \<Longrightarrow> content s k = None \<Longrightarrow>
      \<exists>e s'. run api (st_Get st k) s = (Inl e, s') \<and> Error e = ''key not found''"
    and Put_live: "inv s \<Longrightarrow> \<exists>s'. run api (st_Put st k v ttl) s = (None, s')"
    and Delete_live: "inv s \<Longrightarrow> \<exists>s'. run api (st_Delete st k) s = (None, s')"
    and PutIfAbsent_live: "inv s \<Longrightarrow> content s k = None \<Longrightarrow>
      \<exists>s'. run api (st_PutIfAbsent st k v ttl) s = (Inr True, s')"
    and PutIfAbsent_live_present: "inv s \<Longrightarrow> content s k = Some (GStr str) \<Longrightarrow>
      \<exists>s'. run api (st_PutIfAbsent st k v ttl) s = (Inr False, s')"

section \<open>\<open>OlricStore\<close> keeps it\<close>

text \<open>The store's handle, once made, is on the configured map; the content is that map's.\<close>

definition handle_ok :: "olric_store \<Rightarrow> 'w node \<Rightarrow> bool" where
  "handle_ok os s \<longleftrightarrow> dmap s = None \<or> dmap s = Some (DMapName (store_config os))"

definition store_content ::
    "('w \<Rightarrow> string \<Rightarrow> string \<Rightarrow> go_value option) \<Rightarrow> olric_store \<Rightarrow> 'w node \<Rightarrow> string \<Rightarrow> go_value option" where
  "store_content view os s = view (ext s) (DMapName (store_config os))"

definition ready :: "olric_store \<Rightarrow> 'w node \<Rightarrow> bool" where
  "ready os s \<longleftrightarrow> dmap s = Some (DMapName (store_config os))"

lemma run_getDMap_ready [prog_simps]:
  "ready os s \<Longrightarrow> run api (getDMap os) s = (Inr (DMapName (store_config os)), s)"
  by (simp add: getDMap_def ready_def)

locale olric_node = olric_dmap api view
  for api :: "'w olric" and view :: "'w \<Rightarrow> string \<Rightarrow> string \<Rightarrow> go_value option" +
  fixes os :: olric_store
begin

abbreviation content :: "'w node \<Rightarrow> string \<Rightarrow> go_value option" where
  "content \<equiv> store_content view os"

text \<open>\<open>getDMap\<close> gives the configured map or fails; it makes the store ready and touches no data.\<close>

lemma getDMap_cases:
  assumes "handle_ok os s" and "run api (getDMap os) s = (r, s')"
  shows "handle_ok os s' \<and> content s' = content s \<and>
    (case r of Inl e \<Rightarrow> \<exists>e'. e = Wrap ''failed to create dmap'' e'
       | Inr d \<Rightarrow> d = DMapName (store_config os) \<and> ready os s')"
proof (cases "dmap s")
  case None
  obtain r1 w where c: "api_NewDMap api (DMapName (store_config os)) (ext s) = (r1, w)"
    by (meson surj_pair)
  from new_dmap_view [OF c] assms None show ?thesis
    by (cases r1) (auto simp: getDMap_def call_def c handle_ok_def store_content_def ready_def)
next
  case (Some d)
  with assms show ?thesis by (auto simp: getDMap_def handle_ok_def ready_def)
qed

text \<open>From there on every method is one or two calls on the map.\<close>

lemma ready_ext: "ready os (s\<lparr>ext := w\<rparr>) = ready os s"
  by (simp add: ready_def)

lemma run_Get:
  assumes "ready os s"
  shows "run api (olric_Get os k) s =
    (case api_Get api (DMapName (store_config os)) k (ext s) of (r, w) \<Rightarrow>
      (case r of Inl e \<Rightarrow> Inl e | Inr (Inl e) \<Rightarrow> Inl e | Inr (Inr v) \<Rightarrow> Inr (GStr v), s\<lparr>ext := w\<rparr>))"
  using assms by (simp add: olric_Get_def prog_simps call_def split: prod.splits)

lemma run_Put:
  assumes "ready os s"
  shows "run api (olric_Put os k v ttl) s =
    (case api_Put api (DMapName (store_config os)) k v (expiry ttl) (ext s) of (r, w) \<Rightarrow>
      (r, s\<lparr>ext := w\<rparr>))"
  using assms by (simp add: olric_Put_def prog_simps call_def split: prod.splits)

lemma run_Delete:
  assumes "ready os s"
  shows "run api (olric_Delete os k) s =
    (case api_Delete api (DMapName (store_config os)) k (ext s) of (r, w) \<Rightarrow>
      (if r \<noteq> None \<and> \<not> isKeyNotFoundError r then r else None, s\<lparr>ext := w\<rparr>))"
  using assms by (simp add: olric_Delete_def prog_simps call_def split: prod.splits)

lemma run_PutIfAbsent:
  assumes "ready os s"
  shows "run api (olric_PutIfAbsent os k v ttl) s =
    (case api_Get api (DMapName (store_config os)) k (ext s) of
       (Inr _, w) \<Rightarrow> (Inr False, s\<lparr>ext := w\<rparr>)
     | (Inl e, w) \<Rightarrow>
         if \<not> isKeyNotFoundError (Some e)
         then (Inl (Wrap ''failed to check key existence'' e), s\<lparr>ext := w\<rparr>)
         else (case api_Put api (DMapName (store_config os)) k v (expiry ttl) w of
           (Some e, w') \<Rightarrow> (Inl (Wrap ''failed to put value'' e), s\<lparr>ext := w'\<rparr>)
         | (None, w') \<Rightarrow> (Inr True, s\<lparr>ext := w'\<rparr>)))"
  using assms
  by (simp add: olric_PutIfAbsent_def prog_simps call_def split: prod.splits sum.splits option.splits)

lemma not_found_text: "isKeyNotFoundError (Some e) \<Longrightarrow> strings_Contains (Error e) ''key not found''"
  by (simp add: isKeyNotFoundError_def Contains_self)

lemma PutIfAbsent_cases:
  assumes "ready os s" and "run api (olric_PutIfAbsent os k v ttl) s = (r, s')"
  obtains (present) "r = Inr False" "content s k \<noteq> None" "content s' = content s"
  | (unknown) e where "r = Inl e" "content s' = content s"
  | (stored) "r = Inr True" "content s k = None" "content s' = (content s)(k \<mapsto> v)"
  | (failed) e where "r = Inl e" "content s k = None"
      "content s' = content s \<or> content s' = (content s)(k \<mapsto> v)"
proof -
  let ?d = "DMapName (store_config os)"
  obtain g w where g: "api_Get api ?d k (ext s) = (g, w)" by (meson surj_pair)
  have v: "view w = view (ext s)" using g by (rule get_view)
  show thesis
  proof (cases g)
    case (Inr resp)
    with assms g v get_present show ?thesis
      by (intro present) (auto simp: run_PutIfAbsent store_content_def)
  next
    case (Inl e)
    show ?thesis
    proof (cases "isKeyNotFoundError (Some e)")
      case False
      with assms g v Inl show ?thesis
        by (intro unknown) (auto simp: run_PutIfAbsent store_content_def)
    next
      case True
      then have none: "content s k = None"
        using g Inl get_missing not_found_text by (auto simp: store_content_def)
      obtain p w' where p: "api_Put api ?d k v (expiry ttl) w = (p, w')" by (meson surj_pair)
      show ?thesis
      proof (cases p)
        case None
        with put_ok p have "view w' = (view w)(?d := (view w ?d)(k \<mapsto> v))" by simp
        with assms g v Inl True p None none show ?thesis
          by (intro stored) (auto simp: run_PutIfAbsent store_content_def)
      next
        case (Some e')
        with put_err p have "view w' = view w \<or> view w' = (view w)(?d := (view w ?d)(k \<mapsto> v))"
          by blast
        with assms g v Inl True p Some none show ?thesis
          by (intro failed) (auto simp: run_PutIfAbsent store_content_def)
      qed
    qed
  qed
qed

end

sublocale olric_node \<subseteq> kv: kv_store api "as_Store os" "ready os" "store_content view os"
proof (unfold_locales, goal_cases)
  case (1 s k r s')
  then show ?case
    by (auto simp: as_Store_def run_Get ready_ext store_content_def split: prod.splits dest!: get_view)
next
  case (2 s k v s')
  then show ?case
    by (auto simp: as_Store_def run_Get store_content_def split: prod.splits sum.splits dest!: get_found)
next
  case (3 s k e s')
  then show ?case
    by (auto simp: as_Store_def run_Get store_content_def split: prod.splits sum.splits
        dest!: get_missing get_scan)
next
  case (4 s k e s')
  then show ?case
    by (auto simp: as_Store_def run_Get split: prod.splits sum.splits dest!: get_own get_scan)
next
  case (5 s k v ttl r s')
  then show ?case by (auto simp: as_Store_def run_Put ready_ext split: prod.splits)
next
  case (6 s k v ttl s')
  then show ?case
    by (auto simp: as_Store_def run_Put store_content_def split: prod.splits dest!: put_ok)
next
  case (7 s k v ttl e s')
  then show ?case
    by (auto simp: as_Store_def run_Put store_content_def split: prod.splits dest!: put_err)
next
  case (8 s k r s')
  then show ?case by (auto simp: as_Store_def run_Delete ready_ext split: prod.splits)
next
  case (9 s k s')
  then obtain r w where d: "api_Delete api (DMapName (store_config os)) k (ext s) = (r, w)"
    "r = None \<or> isKeyNotFoundError r" "s' = s\<lparr>ext := w\<rparr>"
    by (auto simp: as_Store_def run_Delete split: prod.splits if_splits)
  show ?case
  proof (cases r)
    case None
    with d delete_ok show ?thesis by (fastforce simp: store_content_def)
  next
    case (Some e)
    with d have "view w = view (ext s) \<and> view (ext s) (DMapName (store_config os)) k = None"
      using delete_missing by (auto simp: isKeyNotFoundError_def)
    with d show ?thesis by (auto simp: store_content_def)
  qed
next
  case (10 s k e s')
  then show ?case
    by (auto simp: as_Store_def run_Delete store_content_def split: prod.splits if_splits
        dest!: delete_err)
next
  case (11 s k v ttl r s')
  then show ?case
    by (auto simp: as_Store_def run_PutIfAbsent ready_ext
        split: prod.splits sum.splits option.splits if_splits)
next
  case (12 s k v ttl s')
  then show ?case by (auto simp: as_Store_def elim!: PutIfAbsent_cases)
next
  case (13 s k v ttl s')
  then show ?case by (auto simp: as_Store_def elim!: PutIfAbsent_cases)
next
  case (14 s k v ttl e s')
  then show ?case by (auto simp: as_Store_def elim!: PutIfAbsent_cases)
next
  case (15 s k v ttl e s')
  then show ?case
    by (auto simp: as_Store_def run_PutIfAbsent split: prod.splits sum.splits option.splits if_splits
        dest!: get_own put_own)
next
  case (16 s t s')
  then show ?case
    by (auto simp: call_def ready_ext store_content_def split: prod.splits dest!: now_view)
next
  case (17 s)
  show ?case using now_ok [of "ext s"] by (auto simp: call_def split: prod.splits)
qed

locale olric_node_live = olric_live api view + olric_node api view os
  for api :: "'w olric" and view :: "'w \<Rightarrow> string \<Rightarrow> string \<Rightarrow> go_value option" and os :: olric_store

sublocale olric_node_live \<subseteq> kvl: kv_live api "as_Store os" "ready os" "store_content view os"
proof (unfold_locales, goal_cases)
  case (1 s k str)
  then show ?case
    using get_live [of "ext s" "DMapName (store_config os)" k str]
    by (cases "api_Get api (DMapName (store_config os)) k (ext s)")
      (simp add: as_Store_def run_Get store_content_def)
next
  case (2 s k)
  then show ?case
    using get_live_missing [of "ext s" "DMapName (store_config os)" k]
    by (cases "api_Get api (DMapName (store_config os)) k (ext s)")
      (auto simp: as_Store_def run_Get store_content_def)
next
  case (3 s k v ttl)
  then show ?case
    using put_live [of "DMapName (store_config os)" k v "expiry ttl" "ext s"]
    by (auto simp: as_Store_def run_Put split: prod.splits)
next
  case (4 s k)
  then show ?case
    using delete_live [of "DMapName (store_config os)" k "ext s"]
    by (auto simp: as_Store_def run_Delete isKeyNotFoundError_def split: prod.splits)
next
  case (5 s k v ttl)
  let ?d = "DMapName (store_config os)"
  obtain e w where g: "api_Get api ?d k (ext s) = (Inl e, w)" "Error e = ''key not found''"
    using get_live_missing [of "ext s" ?d k] 5 by (metis fst_conv store_content_def surj_pair)
  obtain w' where p: "api_Put api ?d k v (expiry ttl) w = (None, w')"
    using put_live [of ?d k v "expiry ttl" w] by (metis fst_conv surj_pair)
  show ?case
    using 5 g p by (simp add: as_Store_def run_PutIfAbsent isKeyNotFoundError_def)
next
  case (6 s k str v ttl)
  let ?d = "DMapName (store_config os)"
  obtain w where g: "api_Get api ?d k (ext s) = (Inr (Inr str), w)"
    using get_live [of "ext s" ?d k str] 6 by (metis fst_conv store_content_def surj_pair)
  show ?case
    using 6 g by (simp add: as_Store_def run_PutIfAbsent)
qed

text \<open>On the reference Olric, with the default configuration.\<close>

definition default_store :: olric_store where
  "default_store = \<lparr>store_config = NewDefaultOlricConfig, store_db = True, store_client = True\<rparr>"

interpretation ref_node: olric_node_live ref_api ref_data default_store
  by unfold_locales

definition ready_node :: "ref_world node" where
  "ready_node = ref_node\<lparr>dmap := Some DefaultDMapName\<rparr>"

lemma ready_ready_node: "ready default_store ready_node"
  by (simp add: ready_def ready_node_def default_store_def NewDefaultOlricConfig_def)

end
