(* ===== verification/Storage.thy ===== *)
theory Storage
  imports StoreContract
begin

text \<open>
  The lock manager: \<open>internal/storage/storage.go\<close>.  A lock is a JSON text under its project's name in
  the store.  The specification sees the store as a table of slots, one per project: free, held by
  a lock, or holding something that is not a lock.
\<close>

text \<open>The interface \<open>LockManager\<close>; \<open>AcquireLock\<close> may return a lock together with an error.\<close>

record lock_manager =
  lm_AcquireLock :: "string \<Rightarrow> string \<Rightarrow> string \<Rightarrow> (lock option \<times> go_error option) prog"
  lm_ReleaseLock :: "string \<Rightarrow> string \<Rightarrow> string \<Rightarrow> go_error option prog"
  lm_GetLock :: "string \<Rightarrow> (go_error + lock) prog"

section \<open>\<open>OlricLockManager\<close>\<close>

text \<open>The texts of the decoder's errors are not modelled: one error stands for them.\<close>

definition json_error :: go_error where
  "json_error = New ''invalid lock data''"

definition read_lock :: "go_value \<Rightarrow> go_error + lock" where
  "read_lock value = (case value of
     GOther t \<Rightarrow> Inl (New (''invalid lock data type: expected string, got '' @ t))
   | GStr lockData \<Rightarrow> (case json_Unmarshal lockData of
       None \<Rightarrow> Inl (Wrap ''failed to deserialize lock'' json_error)
     | Some lock \<Rightarrow> Inr lock))"

definition GetLock :: "store \<Rightarrow> string \<Rightarrow> (go_error + lock) prog" where
  "GetLock st project =
     (if project = [] then Ret (Inl (New ''project name cannot be empty''))
      else seq (st_Get st project) (\<lambda>r. Ret (case r of
        Inl err \<Rightarrow>
          if strings_Contains (Error err) ''key not found'' then Inl ErrLockNotFound
          else Inl (Wrap ''failed to get lock'' err)
      | Inr value \<Rightarrow> read_lock value)))"

definition holder_check :: "string \<Rightarrow> string \<Rightarrow> lock \<Rightarrow> lock option \<times> go_error option" where
  "holder_check branch owner existingLock =
     (if Branch existingLock = branch \<and> Owner existingLock = owner then (Some existingLock, None)
      else (Some existingLock, Some ErrLockConflict))"

definition create_lock ::
    "store \<Rightarrow> string \<Rightarrow> string \<Rightarrow> string \<Rightarrow> (lock option \<times> go_error option) prog" where
  "create_lock st project branch owner = Now (\<lambda>t.
     let newLock = \<lparr>Project = project, Branch = branch, CreatedAt = t, Owner = owner\<rparr> in
     case json_Marshal newLock of
       Inl err \<Rightarrow> Ret (None, Some (Wrap ''failed to serialize lock'' err))
     | Inr lockData \<Rightarrow> seq (st_PutIfAbsent st project (GStr lockData) 0) (\<lambda>r. case r of
         Inl err \<Rightarrow> Ret (None, Some (Wrap ''failed to store lock'' err))
       | Inr stored \<Rightarrow>
           if \<not> stored then seq (GetLock st project) (\<lambda>r. Ret (case r of
             Inl err \<Rightarrow> (None, Some (Wrap ''failed to get lock after race'' err))
           | Inr existingLock \<Rightarrow> holder_check branch owner existingLock))
           else Ret (Some newLock, None)))"

definition AcquireLock ::
    "store \<Rightarrow> string \<Rightarrow> string \<Rightarrow> string \<Rightarrow> (lock option \<times> go_error option) prog" where
  "AcquireLock st project branch owner =
     (if project = [] then Ret (None, Some (New ''project name cannot be empty''))
      else if branch = [] then Ret (None, Some (New ''branch name cannot be empty''))
      else if owner = [] then Ret (None, Some (New ''owner cannot be empty''))
      else seq (GetLock st project) (\<lambda>r. case r of
        Inl err \<Rightarrow>
          if err \<noteq> ErrLockNotFound then Ret (None, Some (Wrap ''failed to check existing lock'' err))
          else create_lock st project branch owner
      | Inr existingLock \<Rightarrow> Ret (holder_check branch owner existingLock)))"

definition ReleaseLock :: "store \<Rightarrow> string \<Rightarrow> string \<Rightarrow> string \<Rightarrow> go_error option prog" where
  "ReleaseLock st project branch owner =
     (if project = [] then Ret (Some (New ''project name cannot be empty''))
      else seq (st_Delete st project) (\<lambda>err. Ret (case err of
        Some e \<Rightarrow> Some (Wrap ''failed to delete lock'' e)
      | None \<Rightarrow> None)))"

definition NewOlricLockManager :: "store \<Rightarrow> lock_manager" where
  "NewOlricLockManager st = \<lparr>lm_AcquireLock = AcquireLock st, lm_ReleaseLock = ReleaseLock st,
     lm_GetLock = GetLock st\<rparr>"

section \<open>The table of locks\<close>

datatype slot = Free | Held lock | Corrupt

definition slot_of :: "go_value option \<Rightarrow> slot" where
  "slot_of v = (case v of
     None \<Rightarrow> Free
   | Some x \<Rightarrow> (case read_lock x of Inl _ \<Rightarrow> Corrupt | Inr l \<Rightarrow> Held l))"

definition table :: "(string \<Rightarrow> go_value option) \<Rightarrow> string \<Rightarrow> slot" where
  "table m p = slot_of (m p)"

lemma table_upd: "table (m(p := v)) = (table m)(p := slot_of v)"
  by (auto simp: table_def)

lemma slot_of_simps [simp]:
  "slot_of None = Free" "slot_of v = Free \<longleftrightarrow> v = None"
  "read_lock x = Inr l \<Longrightarrow> slot_of (Some x) = Held l"
  "read_lock x = Inl e \<Longrightarrow> slot_of (Some x) = Corrupt"
  by (auto simp: slot_of_def split: option.splits sum.splits)

text \<open>Two tables that differ at one key at most.\<close>

definition keeps_others :: "('k \<Rightarrow> 'v) \<Rightarrow> ('k \<Rightarrow> 'v) \<Rightarrow> 'k \<Rightarrow> bool" where
  "keeps_others m m' k \<longleftrightarrow> (\<forall>q. q \<noteq> k \<longrightarrow> m' q = m q)"

text \<open>A lock as \<open>AcquireLock\<close> makes it.\<close>

definition lock_for :: "string \<Rightarrow> string \<Rightarrow> string \<Rightarrow> go_time \<Rightarrow> lock" where
  "lock_for project branch owner t =
     \<lparr>Project = project, Branch = branch, CreatedAt = t, Owner = owner\<rparr>"

lemma stored_form_simps [simp]:
  "Project (stored_form l) = Project l" "Branch (stored_form l) = Branch l"
  "Owner (stored_form l) = Owner l" "CreatedAt (stored_form l) = strip_mono (CreatedAt l)"
  by (simp_all add: stored_form_def)

lemma lock_for_simps [simp]:
  "Project (lock_for p b w t) = p" "Branch (lock_for p b w t) = b" "Owner (lock_for p b w t) = w"
  "CreatedAt (lock_for p b w t) = t"
  by (simp_all add: lock_for_def)

lemma lock_for_ok:
  "valid_utf8 p \<Longrightarrow> valid_utf8 b \<Longrightarrow> valid_utf8 w \<Longrightarrow> time_ok t \<Longrightarrow> lock_ok (lock_for p b w t)"
  by (simp add: lock_ok_def)

text \<open>What acquiring a lock does to the table when nothing fails.\<close>

fun acquire_slot :: "slot \<Rightarrow> string \<Rightarrow> string \<Rightarrow> string \<Rightarrow> go_time \<Rightarrow> (lock option \<times> bool) \<times> slot" where
  "acquire_slot Free p b w t = ((Some (lock_for p b w t), True), Held (stored_form (lock_for p b w t)))"
| "acquire_slot (Held l) p b w t = ((Some l, Branch l = b \<and> Owner l = w), Held l)"
| "acquire_slot Corrupt p b w t = ((None, False), Corrupt)"

end
