(* ===== verification/StorageContract.thy ===== *)
theory StorageContract
  imports Storage
begin

text \<open>
  What the interface \<open>LockManager\<close> promises the HTTP handlers, as the locale \<open>lock_service\<close>: the
  table of slots before and after each operation.  \<open>lock_live\<close> adds that nothing fails, and then
  \<open>AcquireLock\<close> is the specification \<open>acquire_slot\<close>.  \<open>OlricLockManager\<close> keeps both contracts over
  any store that keeps its own.
\<close>

section \<open>The contract\<close>

locale lock_service =
  fixes api :: "'w olric" and lm :: lock_manager
    and inv :: "'w node \<Rightarrow> bool" and slots :: "'w node \<Rightarrow> string \<Rightarrow> slot"
  assumes GetLock_frame: "inv s \<Longrightarrow> run api (lm_GetLock lm p) s = (g, s') \<Longrightarrow> inv s' \<and> slots s' = slots s"
    and GetLock_held: "inv s \<Longrightarrow> run api (lm_GetLock lm p) s = (Inr l, s') \<Longrightarrow> slots s p = Held l"
    and GetLock_free: "inv s \<Longrightarrow> run api (lm_GetLock lm p) s = (Inl e, s') \<Longrightarrow>
      errors_Is e ErrLockNotFound \<Longrightarrow> slots s p = Free"
    and Acquire_inv: "inv s \<Longrightarrow> run api (lm_AcquireLock lm p b w) s = (a, s') \<Longrightarrow> inv s'"
    and Acquire_other: "inv s \<Longrightarrow> run api (lm_AcquireLock lm p b w) s = (a, s') \<Longrightarrow> q \<noteq> p \<Longrightarrow>
      slots s' q = slots s q"
    and Acquire_kept: "inv s \<Longrightarrow> run api (lm_AcquireLock lm p b w) s = (a, s') \<Longrightarrow> slots s p \<noteq> Free \<Longrightarrow>
      slots s' = slots s"
    and Acquire_ok: "inv s \<Longrightarrow> run api (lm_AcquireLock lm p b w) s = ((lo, None), s') \<Longrightarrow>
      \<exists>l. lo = Some l \<and> Branch l = b \<and> Owner l = w \<and>
        (slots s p = Held l \<or>
         slots s p = Free \<and> Project l = p \<and> slots s' p \<noteq> Free \<and>
           (lock_ok l \<longrightarrow> slots s' p = Held (stored_form l)))"
    and Acquire_time: "inv s \<Longrightarrow> run api (lm_AcquireLock lm p b w) s = ((Some l, None), s') \<Longrightarrow>
      slots s p = Free \<Longrightarrow> time_ok (CreatedAt l)"
    and Acquire_conflict: "inv s \<Longrightarrow> run api (lm_AcquireLock lm p b w) s = ((lo, Some e), s') \<Longrightarrow>
      errors_Is e ErrLockConflict \<Longrightarrow>
      \<exists>l. lo = Some l \<and> slots s p = Held l \<and> (Branch l \<noteq> b \<or> Owner l \<noteq> w)"
    and Release_inv: "inv s \<Longrightarrow> run api (lm_ReleaseLock lm p b w) s = (d, s') \<Longrightarrow> inv s'"
    and Release_ok: "inv s \<Longrightarrow> run api (lm_ReleaseLock lm p b w) s = (None, s') \<Longrightarrow>
      slots s' = (slots s)(p := Free)"
    and Release_err: "inv s \<Longrightarrow> run api (lm_ReleaseLock lm p b w) s = (Some e, s') \<Longrightarrow>
      slots s' = slots s \<or> slots s' = (slots s)(p := Free)"
begin

text \<open>A lock held by someone else cannot be acquired.\<close>

lemma Acquire_held_by_other:
  assumes "inv s" "run api (lm_AcquireLock lm p b w) s = ((lo, eo), s')"
    and "slots s p = Held l" "Branch l \<noteq> b \<or> Owner l \<noteq> w"
  shows "eo \<noteq> None"
  using assms Acquire_ok [of s p b w lo s'] by auto

lemma Acquire_corrupt:
  assumes "inv s" "run api (lm_AcquireLock lm p b w) s = ((lo, eo), s')" and "slots s p = Corrupt"
  shows "eo \<noteq> None"
  using assms Acquire_ok [of s p b w lo s'] by auto

lemma Release_other:
  assumes "inv s" "run api (lm_ReleaseLock lm p b w) s = (r, s')" and "q \<noteq> p"
  shows "slots s' q = slots s q"
  using assms Release_ok [of s p b w s'] Release_err [of s p b w _ s'] by (cases r) force+

end

text \<open>\<open>verdict\<close>: what a caller sees of the result of \<open>AcquireLock\<close>.\<close>

definition verdict :: "lock option \<times> go_error option \<Rightarrow> lock option \<times> bool" where
  "verdict r = (fst r, snd r = None)"

locale lock_live = lock_service +
  assumes Acquire_refines: "inv s \<Longrightarrow> p \<noteq> [] \<Longrightarrow> b \<noteq> [] \<Longrightarrow> w \<noteq> [] \<Longrightarrow>
      valid_utf8 p \<Longrightarrow> valid_utf8 b \<Longrightarrow> valid_utf8 w \<Longrightarrow>
      \<exists>t r s'. run api (lm_AcquireLock lm p b w) s = (r, s') \<and> time_ok t \<and>
        (verdict r, slots s' p) = acquire_slot (slots s p) p b w t"
    and Acquire_refuses: "inv s \<Longrightarrow> p \<noteq> [] \<Longrightarrow> b \<noteq> [] \<Longrightarrow> w \<noteq> [] \<Longrightarrow> slots s p = Held l \<Longrightarrow>
      Branch l \<noteq> b \<or> Owner l \<noteq> w \<Longrightarrow>
      \<exists>s'. run api (lm_AcquireLock lm p b w) s = ((Some l, Some ErrLockConflict), s')"
    and Release_live: "inv s \<Longrightarrow> p \<noteq> [] \<Longrightarrow> \<exists>s'. run api (lm_ReleaseLock lm p b w) s = (None, s')"
    and GetLock_live: "inv s \<Longrightarrow> p \<noteq> [] \<Longrightarrow> slots s p = Held l \<Longrightarrow>
      \<exists>s'. run api (lm_GetLock lm p) s = (Inr l, s')"
    and GetLock_live_free: "inv s \<Longrightarrow> p \<noteq> [] \<Longrightarrow> slots s p = Free \<Longrightarrow>
      \<exists>s'. run api (lm_GetLock lm p) s = (Inl ErrLockNotFound, s')"

section \<open>\<open>OlricLockManager\<close> keeps it\<close>

lemma manager_simps [simp]:
  "lm_AcquireLock (NewOlricLockManager st) = AcquireLock st"
  "lm_ReleaseLock (NewOlricLockManager st) = ReleaseLock st"
  "lm_GetLock (NewOlricLockManager st) = GetLock st"
  by (simp_all add: NewOlricLockManager_def)

lemma marshal_time_ok: "time_ok (CreatedAt l) \<Longrightarrow> \<exists>s. json_Marshal l = Inr s"
  using parse_format [of "CreatedAt l"] by (fastforce simp: json_Marshal_def lock_json_def)

lemma marshal_read: "lock_ok l \<Longrightarrow> json_Marshal l = Inr s \<Longrightarrow> read_lock (GStr s) = Inr (stored_form l)"
  by (metis (no_types, lifting) Inr_inject go_value.simps(5) option.simps(5) read_lock_def unmarshal_marshal)

lemma read_lock_own: "read_lock v = Inl e \<Longrightarrow> \<not> own_error e"
  by (auto simp: read_lock_def json_error_def split: go_value.splits option.splits)

lemma holder_check_simps:
  "fst (holder_check b w l) = Some l"
  "snd (holder_check b w l) = (if Branch l = b \<and> Owner l = w then None else Some ErrLockConflict)"
  by (simp_all add: holder_check_def)

context kv_store
begin

lemma run_GetLock:
  assumes "p \<noteq> []"
  shows "run api (GetLock st p) s = (case run api (st_Get st p) s of (r, s') \<Rightarrow>
    (case r of
       Inl err \<Rightarrow> if strings_Contains (Error err) ''key not found'' then Inl ErrLockNotFound
         else Inl (Wrap ''failed to get lock'' err)
     | Inr value \<Rightarrow> read_lock value, s'))"
  using assms by (simp add: GetLock_def prog_simps)

lemma run_GetLock_empty: "run api (GetLock st []) s = (Inl (New ''project name cannot be empty''), s)"
  by (simp add: GetLock_def)

lemma GetLock_cases:
  assumes "inv s" and "run api (GetLock st p) s = (g, s')"
  obtains (found) v l where "g = Inr l" "read_lock v = Inr l" "content s p = Some v"
  | (free) "g = Inl ErrLockNotFound" "content s p = None"
  | (failed) e where "g = Inl e" "\<not> own_error e"
proof (cases "p = []")
  case True
  with assms show thesis by (intro failed) (auto simp: run_GetLock_empty)
next
  case False
  obtain r s1 where r: "run api (st_Get st p) s = (r, s1)" by (meson surj_pair)
  show thesis
  proof (cases r)
    case (Inr v)
    with r assms have c: "content s p = Some v" by (auto dest: Get_found)
    show thesis
    proof (cases "read_lock v")
      case (Inl e)
      then have "\<not> own_error e" by (rule read_lock_own)
      with False assms r Inr Inl show thesis by (intro failed [of e]) (auto simp: run_GetLock)
    next
      case (Inr l)
      with False assms r \<open>r = Inr v\<close> c show thesis by (intro found [of l v]) (auto simp: run_GetLock)
    qed
  next
    case (Inl e)
    show thesis
    proof (cases "strings_Contains (Error e) ''key not found''")
      case True
      with Inl r assms have "content s p = None" by (auto dest: Get_missing)
      with False assms r Inl True show thesis by (intro free) (auto simp: run_GetLock)
    next
      case False
      have "\<not> own_error e" using Inl r assms by (auto dest: Get_own)
      with False \<open>p \<noteq> []\<close> assms r Inl show thesis
        by (intro failed [of "Wrap ''failed to get lock'' e"]) (auto simp: run_GetLock)
    qed
  qed
qed

lemma GetLock_keeps:
  assumes "inv s" and "run api (GetLock st p) s = (g, s')"
  shows "inv s' \<and> content s' = content s"
proof (cases "p = []")
  case True
  with assms show ?thesis by (simp add: run_GetLock_empty)
next
  case False
  obtain r s1 where r: "run api (st_Get st p) s = (r, s1)" by (meson surj_pair)
  with False assms have "s' = s1" by (simp add: run_GetLock)
  with Get_frame [OF assms(1) r] show ?thesis by simp
qed

lemma create_lock_cases:
  assumes "inv s" and "run api (create_lock st p b w) s = (r, s')" and "content s p = None"
  obtains (granted) t v where "r = (Some (lock_for p b w t), None)" "inv s'" "time_ok t"
      "json_Marshal (lock_for p b w t) = Inr v" "content s' = (content s)(p \<mapsto> GStr v)"
  | (failed) e where "r = (None, Some e)" "inv s'" "\<not> own_error e"
      "\<forall>q. q \<noteq> p \<longrightarrow> content s' q = content s q"
proof -
  obtain t s1 where t: "call (api_Now api) s = (t, s1)" by (meson surj_pair)
  have s1: "inv s1" "content s1 = content s" "time_ok t"
    using Now_frame [OF assms(1) t] Now_ok [of s] t by auto
  define l where "l = lock_for p b w t"
  obtain v where v: "json_Marshal l = Inr v"
    using marshal_time_ok [of l] s1(3) by (auto simp: l_def)
  obtain x s2 where x: "run api (st_PutIfAbsent st p (GStr v) 0) s1 = (x, s2)" by (meson surj_pair)
  have i2: "inv s2" using PutIfAbsent_inv [OF s1(1) x] .
  note run = assms(2) [unfolded create_lock_def, simplified, unfolded t, simplified,
      folded lock_for_def, folded l_def]
  show thesis
  proof (cases x)
    case (Inl e)
    have "\<forall>q. q \<noteq> p \<longrightarrow> content s2 q = content s q"
      using PutIfAbsent_other [OF s1(1) x] s1(2) by simp
    moreover have "\<not> own_error e" using PutIfAbsent_own s1(1) x Inl by blast
    ultimately show thesis
      using run v x Inl i2 by (intro failed [of "Wrap ''failed to store lock'' e"])
        (auto simp: prog_simps Let_def)
  next
    case (Inr stored)
    have "stored" using PutIfAbsent_present [OF s1(1), of p "GStr v" 0 s2] x Inr s1(2) assms(3)
      by (cases stored) auto
    then have "content s2 = (content s)(p \<mapsto> GStr v)"
      using PutIfAbsent_stored [OF s1(1)] x Inr s1(2) by auto
    with run v x Inr i2 \<open>stored\<close> s1(3) show thesis
      by (intro granted [of t v]) (auto simp: prog_simps Let_def l_def)
  qed
qed

lemma AcquireLock_cases:
  assumes "inv s" and "run api (AcquireLock st p b w) s = (r, s')"
  obtains (held) v l where "content s p = Some v" "read_lock v = Inr l" "r = holder_check b w l"
      "inv s'" "content s' = content s"
  | (granted) t v where "content s p = None" "r = (Some (lock_for p b w t), None)" "inv s'"
      "time_ok t" "json_Marshal (lock_for p b w t) = Inr v"
      "content s' = (content s)(p \<mapsto> GStr v)"
  | (failed) e where "r = (None, Some e)" "inv s'" "\<not> own_error e"
      "content s p \<noteq> None \<longrightarrow> content s' = content s"
      "\<forall>q. q \<noteq> p \<longrightarrow> content s' q = content s q"
proof (cases "p = [] \<or> b = [] \<or> w = []")
  case True
  then have "\<exists>m. AcquireLock st p b w = Ret (None, Some (New m))"
    unfolding AcquireLock_def by metis
  then obtain m where "run api (AcquireLock st p b w) s = ((None, Some (New m)), s)" by auto
  with assms show thesis by (intro failed [of "New m"]) auto
next
  case False
  obtain g s1 where g: "run api (GetLock st p) s = (g, s1)" by (meson surj_pair)
  have s1: "inv s1" "content s1 = content s" using GetLock_keeps [OF assms(1) g] by auto
  from assms(1) g show thesis
  proof (cases rule: GetLock_cases)
    case (found v l)
    with False assms(2) g have "r = holder_check b w l" "s' = s1"
      by (simp_all add: AcquireLock_def prog_simps)
    with found s1 show thesis by (intro held [of v l]) simp_all
  next
    case (failed e)
    then have "e \<noteq> ErrLockNotFound" by auto
    with failed False assms(2) g
    have "r = (None, Some (Wrap ''failed to check existing lock'' e))" "s' = s1"
      by (simp_all add: AcquireLock_def prog_simps)
    with failed s1 show thesis
      by (intro that(3) [of "Wrap ''failed to check existing lock'' e"]) simp_all
  next
    case free
    with False assms(2) g have run: "run api (create_lock st p b w) s1 = (r, s')"
      by (simp add: AcquireLock_def prog_simps)
    from free s1 have "content s1 p = None" by simp
    from s1(1) run this show thesis
    proof (cases rule: create_lock_cases)
      case (granted t v)
      with free s1 show thesis by (intro that(2) [of t v]) simp_all
    next
      case (failed e)
      with free s1 show thesis by (intro that(3) [of e]) simp_all
    qed
  qed
qed

lemma run_ReleaseLock:
  assumes "p \<noteq> []"
  shows "run api (ReleaseLock st p b w) s = (case run api (st_Delete st p) s of (r, s') \<Rightarrow>
    (map_option (Wrap ''failed to delete lock'') r, s'))"
  using assms by (simp add: ReleaseLock_def prog_simps map_option_case)

end

sublocale kv_store \<subseteq> svc: lock_service api "NewOlricLockManager st" inv "\<lambda>s. table (content s)"
proof (unfold_locales, unfold manager_simps, goal_cases)
  case (1 s p g s')
  then show ?case using GetLock_keeps by metis
next
  case (2 s p l s')
  then show ?case by (auto simp: table_def elim: GetLock_cases)
next
  case (3 s p e s')
  then show ?case by (auto simp: table_def elim!: GetLock_cases)
next
  case (4 s p b w a s')
  then show ?case by (cases rule: AcquireLock_cases) simp_all
next
  case (5 s p b w a s' q)
  from 5(1,2) show ?case
    by (cases rule: AcquireLock_cases) (use 5(3) in \<open>auto simp: table_def\<close>)
next
  case (6 s p b w a s')
  from 6(1,2) show ?case
    by (cases rule: AcquireLock_cases) (use 6(3) in \<open>auto simp: table_def\<close>)
next
  case (7 s p b w lo s')
  from 7 show ?case
  proof (cases rule: AcquireLock_cases)
    case (held v l)
    then show ?thesis by (auto simp: table_def holder_check_def split: if_splits)
  next
    case (granted t v)
    with marshal_read [OF _ granted(5)] show ?thesis by (simp add: table_def)
  next
    case (failed e)
    then show ?thesis by simp
  qed
next
  case (8 s p b w l s')
  from 8(1,2) show ?case
  proof (cases rule: AcquireLock_cases)
    case (held v l')
    then show ?thesis using 8(3) by (simp add: table_def)
  qed auto
next
  case (9 s p b w lo e s')
  from 9(1,2) show ?case
  proof (cases rule: AcquireLock_cases)
    case (held v l)
    then show ?thesis by (auto simp: table_def holder_check_def split: if_splits)
  next
    case (granted t v)
    then show ?thesis by simp
  next
    case (failed e')
    then show ?thesis using 9(3) by simp
  qed
next
  case (10 s p b w d s')
  then show ?case
    by (cases "p = []") (auto simp: ReleaseLock_def prog_simps split: prod.splits dest: Delete_inv)
next
  case (11 s p b w s')
  then show ?case
    by (cases "p = []")
      (auto simp: ReleaseLock_def prog_simps table_upd split: prod.splits option.splits dest!: Delete_ok)
next
  case (12 s p b w e s')
  then show ?case
    by (cases "p = []")
      (auto simp: ReleaseLock_def prog_simps table_upd split: prod.splits option.splits dest!: Delete_err)
qed

context kv_live
begin

lemma AcquireLock_free_live:
  assumes "inv s" "content s p = None" "p \<noteq> []" "b \<noteq> []" "w \<noteq> []"
  shows "\<exists>t v s'. run api (AcquireLock st p b w) s = ((Some (lock_for p b w t), None), s') \<and> time_ok t \<and>
    json_Marshal (lock_for p b w t) = Inr v \<and> content s' = (content s)(p \<mapsto> GStr v)"
proof -
  obtain e s1 where g: "run api (st_Get st p) s = (Inl e, s1)" "Error e = ''key not found''"
    using Get_live_missing assms(1,2) by blast
  have s1: "inv s1" "content s1 p = None" using Get_frame [OF assms(1) g(1)] assms(2) by auto
  obtain t s2 where t: "call (api_Now api) s1 = (t, s2)" by (meson surj_pair)
  have s2: "inv s2" "content s2 p = None" "time_ok t"
    using Now_frame [OF s1(1) t] Now_ok [of s1] t s1(2) by auto
  obtain v where v: "json_Marshal (lock_for p b w t) = Inr v"
    using marshal_time_ok [of "lock_for p b w t"] s2(3) by auto
  obtain s3 where "run api (st_PutIfAbsent st p (GStr v) 0) s2 = (Inr True, s3)"
    using PutIfAbsent_live s2 by blast
  then have r: "run api (AcquireLock st p b w) s = ((Some (lock_for p b w t), None), s3)"
    using assms g t v
    by (simp add: AcquireLock_def prog_simps run_GetLock create_lock_def Let_def lock_for_def Contains_self)
  from assms(1) r obtain t' v' where "t' = t" "json_Marshal (lock_for p b w t') = Inr v'"
    "content s3 = (content s)(p \<mapsto> GStr v')"
    using assms(2) by (cases rule: AcquireLock_cases) (auto simp: lock_for_def)
  with r s2(3) show ?thesis by auto
qed

lemma AcquireLock_held_live:
  assumes "inv s" "content s p = Some (GStr x)" "read_lock (GStr x) = Inr l" "p \<noteq> []" "b \<noteq> []" "w \<noteq> []"
  shows "\<exists>s'. run api (AcquireLock st p b w) s = (holder_check b w l, s')"
proof -
  obtain s1 where "run api (st_Get st p) s = (Inr (GStr x), s1)" using Get_live assms(1,2) by blast
  with assms show ?thesis by (simp add: AcquireLock_def prog_simps run_GetLock)
qed

lemma slot_Held: "table (content s) p = Held l \<Longrightarrow> \<exists>x. content s p = Some (GStr x) \<and> read_lock (GStr x) = Inr l"
  by (auto simp: table_def slot_of_def read_lock_def
      split: option.splits sum.splits go_value.splits)

end

sublocale kv_live \<subseteq> live: lock_live api "NewOlricLockManager st" inv "\<lambda>s. table (content s)"
proof (unfold_locales, unfold manager_simps, goal_cases)
  case (1 s p b w)
  show ?case
  proof (cases "table (content s) p")
    case Free
    then have "content s p = None" by (simp add: table_def)
    with AcquireLock_free_live 1 obtain t v s' where
      "run api (AcquireLock st p b w) s = ((Some (lock_for p b w t), None), s')" "time_ok t"
      "json_Marshal (lock_for p b w t) = Inr v" "content s' = (content s)(p \<mapsto> GStr v)" by metis
    moreover then have "table (content s') p = Held (stored_form (lock_for p b w t))"
      using marshal_read [OF lock_for_ok] 1 by (simp add: table_def)
    ultimately show ?thesis using Free by (auto simp: verdict_def)
  next
    case (Held l)
    with slot_Held AcquireLock_held_live 1 obtain s' where
      r: "run api (AcquireLock st p b w) s = (holder_check b w l, s')" by metis
    have "table (content s') p = Held l" using svc.Acquire_kept [of s p b w] 1(1) r Held by simp
    with r Held ref_time_ok [of 0] show ?thesis by (auto simp: verdict_def holder_check_def)
  next
    case Corrupt
    obtain r s' where r: "run api (AcquireLock st p b w) s = (r, s')" by (meson surj_pair)
    have "table (content s') p = Corrupt" using svc.Acquire_kept [of s p b w] 1(1) r Corrupt by simp
    moreover from 1(1) r have "verdict r = (None, False)"
      by (cases rule: AcquireLock_cases) (use Corrupt in \<open>auto simp: verdict_def table_def\<close>)
    ultimately show ?thesis using r Corrupt ref_time_ok [of 0] by auto
  qed
next
  case (2 s p b w l)
  with slot_Held AcquireLock_held_live obtain s' where
    "run api (AcquireLock st p b w) s = (holder_check b w l, s')" by metis
  with 2 show ?case by (auto simp: holder_check_def)
next
  case (3 s p b w)
  then show ?case using Delete_live [of s p] by (auto simp: run_ReleaseLock)
next
  case (4 s p l)
  with slot_Held obtain x where x: "content s p = Some (GStr x)" "read_lock (GStr x) = Inr l" by blast
  with Get_live 4 obtain s' where "run api (st_Get st p) s = (Inr (GStr x), s')" by blast
  with x 4 show ?case by (auto simp: run_GetLock)
next
  case (5 s p)
  then have "content s p = None" by (simp add: table_def)
  with Get_live_missing 5 obtain e s' where
    "run api (st_Get st p) s = (Inl e, s')" "Error e = ''key not found''" by blast
  with 5 show ?case by (auto simp: run_GetLock Contains_self)
qed

section \<open>The lock manager over Olric\<close>

definition locks ::
    "('w \<Rightarrow> string \<Rightarrow> string \<Rightarrow> go_value option) \<Rightarrow> olric_store \<Rightarrow> 'w node \<Rightarrow> string \<Rightarrow> slot" where
  "locks view os s = table (store_content view os s)"

definition olric_locks :: "olric_store \<Rightarrow> lock_manager" where
  "olric_locks os = NewOlricLockManager (as_Store os)"

context olric_node
begin

lemma lock_service_here: "lock_service api (olric_locks os) (ready os) (locks view os)"
  using kv.svc.lock_service_axioms unfolding locks_def olric_locks_def .

end

context olric_node_live
begin

lemma lock_live_here: "lock_live api (olric_locks os) (ready os) (locks view os)"
  using kvl.live.lock_live_axioms unfolding locks_def olric_locks_def .

end

lemma olric_lock_service:
  "olric_dmap api view \<Longrightarrow> lock_service api (olric_locks os) (ready os) (locks view os)"
  by (rule olric_node.lock_service_here) (rule olric_node.intro)

lemma olric_lock_live:
  "olric_live api view \<Longrightarrow> lock_live api (olric_locks os) (ready os) (locks view os)"
  by (rule olric_node_live.lock_live_here)
    (simp add: olric_node_live_def olric_node_def olric_live_def)

end
