(* ===== verification/Handlers.thy ===== *)
theory Handlers
  imports Http StorageContract
begin

text \<open>
  The lock endpoints: \<open>internal/handlers/lock.go\<close>.  A handler is a program whose result is the list
  of its calls on the response writer and the metrics.  Log lines are not modelled.  The locale
  facts at the end are proved against the interface of the lock manager, not its implementation.
\<close>

section \<open>The handlers\<close>

text \<open>\<open>h.metrics != nil && h.metrics.LockOperationsTotal != nil\<close> is one flag.\<close>

record lock_handlers =
  h_lockManager :: lock_manager
  h_metrics :: bool

definition NewLockHandlers :: "lock_manager \<Rightarrow> bool \<Rightarrow> lock_handlers" where
  "NewLockHandlers lm m = \<lparr>h_lockManager = lm, h_metrics = m\<rparr>"

definition name_char :: "char \<Rightarrow> bool" where
  "name_char c \<longleftrightarrow> in_range 97 122 (byte c) \<or> in_range 65 90 (byte c) \<or> in_range 48 57 (byte c) \<or>
     c = CHR ''_'' \<or> c = CHR ''/'' \<or> c = CHR ''-''"

definition validNamePattern :: "string \<Rightarrow> bool" where
  "validNamePattern s \<longleftrightarrow> s \<noteq> [] \<and> list_all name_char s"

definition maxNameLength :: nat where "maxNameLength = 256"

definition validateName :: "string \<Rightarrow> string \<Rightarrow> go_error option" where
  "validateName nm fieldName =
     (if nm = [] then Some (New (fieldName @ '' is required''))
      else let nm = strings_TrimSpace nm in
        if length nm > maxNameLength then Some (New (fieldName @ '' exceeds maximum length''))
        else if \<not> validNamePattern nm then Some (New (fieldName @ '' contains invalid characters''))
        else None)"

definition recordMetric :: "lock_handlers \<Rightarrow> string \<Rightarrow> string \<Rightarrow> http_event list" where
  "recordMetric h operation status =
     (if h_metrics h then [HMetric (Inc ''lock_operations_total'' [operation, status])] else [])"

definition respondJSON :: "int \<Rightarrow> lock_response \<Rightarrow> http_event list" where
  "respondJSON status data = reply_json status (response_json data)"

definition respondError :: "int \<Rightarrow> string \<Rightarrow> http_event list" where
  "respondError status message =
     respondJSON status \<lparr>Status = ''error'', Message = message, Lock = None\<rparr>"

definition respondLock :: "int \<Rightarrow> string \<Rightarrow> string \<Rightarrow> lock option \<Rightarrow> http_event list" where
  "respondLock status statusStr message l =
     respondJSON status \<lparr>Status = statusStr, Message = message, Lock = l\<rparr>"

definition owner :: string where "owner = ''placeholder-owner''"

definition HandleLock :: "lock_handlers \<Rightarrow> request \<Rightarrow> http_event list prog" where
  "HandleLock h r = (case decode_lock_request (rq_Body r) of
     None \<Rightarrow> Ret (recordMetric h ''lock'' ''failure'' @ respondError 400 ''Invalid request body'')
   | Some req \<Rightarrow>
     let project = strings_TrimSpace (req_Project req); branch = strings_TrimSpace (req_Branch req) in
     case validateName project ''Project name'' of
       Some err \<Rightarrow> Ret (recordMetric h ''lock'' ''failure'' @ respondError 400 (Error err))
     | None \<Rightarrow> (case validateName branch ''Branch name'' of
         Some err \<Rightarrow> Ret (recordMetric h ''lock'' ''failure'' @ respondError 400 (Error err))
       | None \<Rightarrow> seq (lm_AcquireLock (h_lockManager h) project branch owner) (\<lambda>(lock, err). Ret (case err of
           Some err \<Rightarrow>
             if errors_Is err ErrLockConflict
             then recordMetric h ''lock'' ''conflict'' @
               respondLock 409 ''locked'' ''Lock held by another branch'' lock
             else recordMetric h ''lock'' ''failure'' @ respondError 500 ''Failed to acquire lock''
         | None \<Rightarrow> recordMetric h ''lock'' ''success'' @
             respondLock 200 ''locked'' ''Lock acquired successfully'' lock))))"

definition HandleUnlock :: "lock_handlers \<Rightarrow> request \<Rightarrow> http_event list prog" where
  "HandleUnlock h r = (case decode_unlock_request (rq_Body r) of
     None \<Rightarrow> Ret (recordMetric h ''unlock'' ''failure'' @ respondError 400 ''Invalid request body'')
   | Some req \<Rightarrow>
     let project = strings_TrimSpace (unreq_Project req); branch = strings_TrimSpace (unreq_Branch req) in
     case validateName project ''Project name'' of
       Some err \<Rightarrow> Ret (recordMetric h ''unlock'' ''failure'' @ respondError 400 (Error err))
     | None \<Rightarrow> (case validateName branch ''Branch name'' of
         Some err \<Rightarrow> Ret (recordMetric h ''unlock'' ''failure'' @ respondError 400 (Error err))
       | None \<Rightarrow> seq (lm_ReleaseLock (h_lockManager h) project branch owner) (\<lambda>err. Ret (case err of
           Some err \<Rightarrow> recordMetric h ''unlock'' ''failure'' @ respondError 500 ''Failed to release lock''
         | None \<Rightarrow> recordMetric h ''unlock'' ''success'' @ respondJSON 200
             \<lparr>Status = ''unlocked'', Message = ''Lock released successfully'', Lock = None\<rparr>))))"

definition HandleGetLock :: "lock_handlers \<Rightarrow> request \<Rightarrow> http_event list prog" where
  "HandleGetLock h r = (let project = strings_TrimSpace (rq_project r) in
     case validateName project ''Project name'' of
       Some err \<Rightarrow> Ret (recordMetric h ''get'' ''failure'' @ respondError 400 (Error err))
     | None \<Rightarrow> seq (lm_GetLock (h_lockManager h) project) (\<lambda>g. Ret (case g of
         Inl err \<Rightarrow>
           if errors_Is err ErrLockNotFound
           then recordMetric h ''get'' ''success'' @ respondJSON 404
             \<lparr>Status = ''unlocked'', Message = ''No lock exists for this project'', Lock = None\<rparr>
           else recordMetric h ''get'' ''failure'' @ respondError 500 ''Failed to get lock status''
       | Inr lock \<Rightarrow> recordMetric h ''get'' ''success'' @
           respondLock 200 ''locked'' ''Lock exists'' (Some lock))))"

section \<open>Names\<close>

lemma name_char_plain: "name_char c \<Longrightarrow> byte c < 0x80"
  by (auto simp: name_char_def in_range_def)

lemma pattern_utf8: "validNamePattern s \<Longrightarrow> valid_utf8 s"
  by (rule valid_utf8_ascii) (auto simp: validNamePattern_def list_all_iff name_char_plain)

lemma validateName_trimmed:
  "validateName (strings_TrimSpace s) f = None \<longleftrightarrow>
     validNamePattern (strings_TrimSpace s) \<and> length (strings_TrimSpace s) \<le> maxNameLength"
  by (auto simp: validateName_def TrimSpace_idem Let_def validNamePattern_def)

text \<open>The name a request carries, if it is acceptable.\<close>

definition clean_name :: "string \<Rightarrow> string option" where
  "clean_name s = (let t = strings_TrimSpace s in
     if validNamePattern t \<and> length t \<le> maxNameLength then Some t else None)"

lemma clean_name_validate:
  "validateName (strings_TrimSpace s) f = None \<longleftrightarrow> clean_name s = Some (strings_TrimSpace s)"
  by (simp add: validateName_trimmed clean_name_def Let_def)

lemma clean_name_Some:
  assumes "clean_name s = Some t"
  shows "t = strings_TrimSpace s" "t \<noteq> []" "valid_utf8 t"
  using assms pattern_utf8
  by (auto simp: clean_name_def Let_def validNamePattern_def split: if_splits)

lemma space_not_name: "\<forall>r \<in> set space_runes. list_all (\<lambda>c. \<not> name_char c) r"
  by code_simp

lemma no_leading_name:
  assumes "list_all name_char t" "\<forall>r \<in> set rs. r \<noteq> [] \<and> list_all (\<lambda>c. \<not> name_char c) r"
  shows "no_leading rs t"
  using assms unfolding no_leading_def by (cases t) (fastforce simp: prefix_Cons)+

lemma clean_name_fixed:
  assumes "validNamePattern t" "length t \<le> maxNameLength"
  shows "clean_name t = Some t"
proof -
  have "list_all name_char t" "list_all name_char (rev t)"
    using assms(1) by (simp_all add: validNamePattern_def)
  then have "no_leading space_runes t" "no_leading (map rev space_runes) (rev t)"
    using space_not_name space_runes_nonempty by (auto intro!: no_leading_name)
  then show ?thesis using assms by (simp add: clean_name_def Let_def TrimSpace_noop)
qed

definition lock_target :: "request \<Rightarrow> (string \<times> string) option" where
  "lock_target r = (case decode_lock_request (rq_Body r) of
     None \<Rightarrow> None
   | Some req \<Rightarrow> (case (clean_name (req_Project req), clean_name (req_Branch req)) of
       (Some p, Some b) \<Rightarrow> Some (p, b) | _ \<Rightarrow> None))"

definition unlock_target :: "request \<Rightarrow> (string \<times> string) option" where
  "unlock_target r = (case decode_unlock_request (rq_Body r) of
     None \<Rightarrow> None
   | Some req \<Rightarrow> (case (clean_name (unreq_Project req), clean_name (unreq_Branch req)) of
       (Some p, Some b) \<Rightarrow> Some (p, b) | _ \<Rightarrow> None))"

text \<open>The metric events of a handler, and its reply, apart.\<close>

definition counted :: "lock_handlers \<Rightarrow> string \<Rightarrow> string \<Rightarrow> metric_call list" where
  "counted h operation status =
     (if h_metrics h then [Inc ''lock_operations_total'' [operation, status]] else [])"

lemma recordMetric_counted: "recordMetric h o' st = map HMetric (counted h o' st)"
  by (simp add: recordMetric_def counted_def)

lemmas reply_simps = recordMetric_counted respondError_def respondLock_def respondJSON_def
  deliver_reply_json

section \<open>What a request comes to\<close>

definition invalid_reply :: "lock_handlers \<Rightarrow> string \<Rightarrow> string \<Rightarrow> http_event list" where
  "invalid_reply h operation message =
     map HMetric (counted h operation ''failure'') @ respondError 400 message"

definition lock_reply :: "lock_handlers \<Rightarrow> lock option \<times> go_error option \<Rightarrow> http_event list" where
  "lock_reply h r = (case r of
     (lock, Some err) \<Rightarrow>
       if errors_Is err ErrLockConflict
       then map HMetric (counted h ''lock'' ''conflict'') @
         respondLock 409 ''locked'' ''Lock held by another branch'' lock
       else map HMetric (counted h ''lock'' ''failure'') @ respondError 500 ''Failed to acquire lock''
   | (lock, None) \<Rightarrow> map HMetric (counted h ''lock'' ''success'') @
       respondLock 200 ''locked'' ''Lock acquired successfully'' lock)"

lemma HandleLock_invalid:
  assumes "lock_target r = None"
  shows "\<exists>m. HandleLock h r = Ret (invalid_reply h ''lock'' m)"
proof (cases "decode_lock_request (rq_Body r)")
  case None
  then show ?thesis by (auto simp: HandleLock_def invalid_reply_def recordMetric_counted)
next
  case (Some req)
  with assms have "clean_name (req_Project req) = None \<or> clean_name (req_Branch req) = None"
    by (auto simp: lock_target_def split: option.splits)
  then have "validateName (strings_TrimSpace (req_Project req)) ''Project name'' \<noteq> None \<or>
      validateName (strings_TrimSpace (req_Branch req)) ''Branch name'' \<noteq> None"
    by (auto simp: clean_name_validate)
  with Some show ?thesis
    by (auto simp: HandleLock_def invalid_reply_def recordMetric_counted Let_def split: option.splits)
qed

lemma HandleLock_valid:
  assumes "lock_target r = Some (p, b)"
  shows "HandleLock h r = seq (lm_AcquireLock (h_lockManager h) p b owner) (\<lambda>a. Ret (lock_reply h a))"
proof -
  obtain req where req: "decode_lock_request (rq_Body r) = Some req"
    "clean_name (req_Project req) = Some p" "clean_name (req_Branch req) = Some b"
    using assms by (auto simp: lock_target_def split: option.splits)
  have p: "p = strings_TrimSpace (req_Project req)" "b = strings_TrimSpace (req_Branch req)"
    using req clean_name_Some by blast+
  with req have "validateName p ''Project name'' = None" "validateName b ''Branch name'' = None"
    by (simp_all add: clean_name_validate)
  with req p show ?thesis
    unfolding HandleLock_def lock_reply_def recordMetric_counted by (simp add: Let_def case_prod_unfold)
qed

lemma lock_target_names:
  assumes "lock_target r = Some (p, b)"
  shows "p \<noteq> []" "b \<noteq> []" "valid_utf8 p" "valid_utf8 b"
  using assms clean_name_Some by (auto simp: lock_target_def split: option.splits)

definition unlock_reply :: "lock_handlers \<Rightarrow> go_error option \<Rightarrow> http_event list" where
  "unlock_reply h e = (case e of
     Some err \<Rightarrow> map HMetric (counted h ''unlock'' ''failure'') @
       respondError 500 ''Failed to release lock''
   | None \<Rightarrow> map HMetric (counted h ''unlock'' ''success'') @ respondJSON 200
       \<lparr>Status = ''unlocked'', Message = ''Lock released successfully'', Lock = None\<rparr>)"

lemma HandleUnlock_invalid:
  assumes "unlock_target r = None"
  shows "\<exists>m. HandleUnlock h r = Ret (invalid_reply h ''unlock'' m)"
proof (cases "decode_unlock_request (rq_Body r)")
  case None
  then show ?thesis by (auto simp: HandleUnlock_def invalid_reply_def recordMetric_counted)
next
  case (Some req)
  with assms have "clean_name (unreq_Project req) = None \<or> clean_name (unreq_Branch req) = None"
    by (auto simp: unlock_target_def split: option.splits)
  then have "validateName (strings_TrimSpace (unreq_Project req)) ''Project name'' \<noteq> None \<or>
      validateName (strings_TrimSpace (unreq_Branch req)) ''Branch name'' \<noteq> None"
    by (auto simp: clean_name_validate)
  with Some show ?thesis
    by (auto simp: HandleUnlock_def invalid_reply_def recordMetric_counted Let_def split: option.splits)
qed

lemma HandleUnlock_valid:
  assumes "unlock_target r = Some (p, b)"
  shows "HandleUnlock h r = seq (lm_ReleaseLock (h_lockManager h) p b owner) (\<lambda>e. Ret (unlock_reply h e))"
proof -
  obtain req where req: "decode_unlock_request (rq_Body r) = Some req"
    "clean_name (unreq_Project req) = Some p" "clean_name (unreq_Branch req) = Some b"
    using assms by (auto simp: unlock_target_def split: option.splits)
  have p: "p = strings_TrimSpace (unreq_Project req)" "b = strings_TrimSpace (unreq_Branch req)"
    using req clean_name_Some by blast+
  with req have "validateName p ''Project name'' = None" "validateName b ''Branch name'' = None"
    by (simp_all add: clean_name_validate)
  with req p show ?thesis
    unfolding HandleUnlock_def unlock_reply_def recordMetric_counted by (simp add: Let_def)
qed

lemma unlock_target_names:
  assumes "unlock_target r = Some (p, b)"
  shows "p \<noteq> []" "b \<noteq> []" "valid_utf8 p" "valid_utf8 b"
  using assms clean_name_Some by (auto simp: unlock_target_def split: option.splits)

definition get_reply :: "lock_handlers \<Rightarrow> go_error + lock \<Rightarrow> http_event list" where
  "get_reply h g = (case g of
     Inl err \<Rightarrow>
       if errors_Is err ErrLockNotFound
       then map HMetric (counted h ''get'' ''success'') @ respondJSON 404
         \<lparr>Status = ''unlocked'', Message = ''No lock exists for this project'', Lock = None\<rparr>
       else map HMetric (counted h ''get'' ''failure'') @ respondError 500 ''Failed to get lock status''
   | Inr lock \<Rightarrow> map HMetric (counted h ''get'' ''success'') @
       respondLock 200 ''locked'' ''Lock exists'' (Some lock))"

lemma HandleGetLock_invalid:
  assumes "clean_name (rq_project r) = None"
  shows "\<exists>m. HandleGetLock h r = Ret (invalid_reply h ''get'' m)"
proof -
  have "validateName (strings_TrimSpace (rq_project r)) ''Project name'' \<noteq> None"
    using assms by (simp add: clean_name_validate)
  then show ?thesis
    by (auto simp: HandleGetLock_def invalid_reply_def recordMetric_counted Let_def)
qed

lemma HandleGetLock_valid:
  assumes "clean_name (rq_project r) = Some p"
  shows "HandleGetLock h r = seq (lm_GetLock (h_lockManager h) p) (\<lambda>g. Ret (get_reply h g))"
proof -
  have "p = strings_TrimSpace (rq_project r)" using assms clean_name_Some(1) by blast
  moreover with assms have "validateName p ''Project name'' = None" by (simp add: clean_name_validate)
  ultimately show ?thesis
    unfolding HandleGetLock_def get_reply_def recordMetric_counted by (simp add: Let_def)
qed

lemmas reply_defs = invalid_reply_def lock_reply_def unlock_reply_def get_reply_def

lemma deliver_respondJSON:
  "deliver (map HMetric ms @ respondJSON status d) = \<lparr>rs_code = Some status,
     rs_headers = [''Content-Type'' \<mapsto> ''application/json''],
     rs_body = (case response_json d of Inl _ \<Rightarrow> [] | Inr v \<Rightarrow> print v @ [CHR 0x0A])\<rparr>"
  by (simp add: respondJSON_def deliver_reply_json)

lemma reply_codes [simp]:
  "rs_code (deliver (map HMetric ms @ respondJSON status d)) = Some status"
  "rs_code (deliver (map HMetric ms @ respondLock status st m lo)) = Some status"
  "rs_code (deliver (map HMetric ms @ respondError status m)) = Some status"
  by (simp_all add: deliver_respondJSON respondLock_def respondError_def)

lemma metric_calls_respond [simp]:
  "metric_calls (respondJSON status d) = []" "metric_calls (respondError status m) = []"
  "metric_calls (respondLock status st m lo) = []"
  by (simp_all add: respondJSON_def respondError_def respondLock_def)

section \<open>The handlers over any lock manager that keeps its contract\<close>

context lock_service
begin

lemma HandleLock_run:
  assumes "h_lockManager h = lm" "run api (HandleLock h r) s = (evs, s')"
  obtains (invalid) m where "lock_target r = None" "evs = invalid_reply h ''lock'' m" "s' = s"
  | (valid) p b a where "lock_target r = Some (p, b)" "run api (lm_AcquireLock lm p b owner) s = (a, s')"
      "evs = lock_reply h a"
proof (cases "lock_target r")
  case None
  with HandleLock_invalid [of r h] assms(2) show thesis by (auto intro: invalid)
next
  case (Some pb)
  obtain p b where "pb = (p, b)" by (cases pb)
  with Some HandleLock_valid [of r p b h] assms show thesis
    by (intro valid [of p b "fst (run api (lm_AcquireLock lm p b owner) s)"])
      (auto simp: prog_simps split: prod.splits)
qed

lemma HandleLock_200:
  assumes "h_lockManager h = lm" "inv s" "run api (HandleLock h r) s = (evs, s')"
    and "rs_code (deliver evs) = Some 200"
  shows "\<exists>p b l. lock_target r = Some (p, b) \<and> slots s' p = Held l \<and> Branch l = b \<and> Owner l = owner \<and>
    (slots s p = Held l \<or> slots s p = Free \<and> Project l = p) \<and> keeps_others (slots s) (slots s') p"
  using assms(1,3)
proof (cases rule: HandleLock_run)
  case (invalid m)
  with assms(4) show ?thesis by (simp add: invalid_reply_def)
next
  case (valid p b a)
  with assms(4) obtain lo where a: "a = (lo, None)"
    by (cases a) (auto simp: lock_reply_def split: option.splits if_splits)
  from Acquire_ok [OF assms(2)] valid(2) a obtain l where l: "lo = Some l" "Branch l = b" "Owner l = owner"
    "slots s p = Held l \<or> slots s p = Free \<and> Project l = p \<and> slots s' p \<noteq> Free \<and>
      (lock_ok l \<longrightarrow> slots s' p = Held (stored_form l))"
    by blast
  have others: "keeps_others (slots s) (slots s') p"
    using Acquire_other [OF assms(2) valid(2)] by (simp add: keeps_others_def)
  show ?thesis
  proof (cases "slots s p = Held l")
    case True
    with Acquire_kept [OF assms(2) valid(2)] valid(1) l others show ?thesis by auto
  next
    case False
    then have free: "slots s p = Free" using l by blast
    have "time_ok (CreatedAt l)" using Acquire_time [OF assms(2)] valid(2) a l(1) free by blast
    moreover have "valid_utf8 owner" by (simp add: owner_def valid_utf8_ascii)
    ultimately have "lock_ok l"
      using lock_target_names [OF valid(1)] l free by (auto simp: lock_ok_def)
    with l free valid(1) others show ?thesis
      by (intro exI [of _ p] exI [of _ b] exI [of _ "stored_form l"]) auto
  qed
qed

lemma HandleLock_409:
  assumes "h_lockManager h = lm" "inv s" "run api (HandleLock h r) s = (evs, s')"
    and "rs_code (deliver evs) = Some 409"
  shows "\<exists>p b l. lock_target r = Some (p, b) \<and> slots s p = Held l \<and> (Branch l \<noteq> b \<or> Owner l \<noteq> owner) \<and>
    slots s' = slots s \<and>
    deliver evs = deliver (respondLock 409 ''locked'' ''Lock held by another branch'' (Some l))"
  using assms(1,3)
proof (cases rule: HandleLock_run)
  case (invalid m)
  with assms(4) show ?thesis by (simp add: invalid_reply_def)
next
  case (valid p b a)
  with assms(4) obtain lo e where a: "a = (lo, Some e)" "errors_Is e ErrLockConflict"
    by (cases a) (auto simp: lock_reply_def split: option.splits if_splits)
  from Acquire_conflict [OF assms(2)] valid(2) a obtain l where l: "lo = Some l" "slots s p = Held l"
    "Branch l \<noteq> b \<or> Owner l \<noteq> owner" by blast
  with Acquire_kept [OF assms(2) valid(2)] have "slots s' = slots s" by simp
  moreover have "deliver evs = deliver (respondLock 409 ''locked'' ''Lock held by another branch'' (Some l))"
    using valid(3) a l(1) deliver_respondJSON [of "[]"]
    by (simp add: lock_reply_def respondLock_def deliver_respondJSON)
  ultimately show ?thesis using valid(1) l by blast
qed

lemma HandleLock_never_steals:
  assumes "h_lockManager h = lm" "inv s" "run api (HandleLock h r) s = (evs, s')"
    and "slots s q = Held l"
  shows "slots s' q = Held l"
  using assms(1,3)
proof (cases rule: HandleLock_run)
  case (valid p b a)
  then show ?thesis
    using Acquire_kept [OF assms(2) valid(2)] Acquire_other [OF assms(2) valid(2)] assms(4)
    by (cases "q = p") auto
qed (use assms in simp)

lemma HandleUnlock_run:
  assumes "h_lockManager h = lm" "run api (HandleUnlock h r) s = (evs, s')"
  obtains (invalid) m where "unlock_target r = None" "evs = invalid_reply h ''unlock'' m" "s' = s"
  | (valid) p b e where "unlock_target r = Some (p, b)" "run api (lm_ReleaseLock lm p b owner) s = (e, s')"
      "evs = unlock_reply h e"
proof (cases "unlock_target r")
  case None
  with HandleUnlock_invalid [of r h] assms(2) show thesis by (auto intro: invalid)
next
  case (Some pb)
  obtain p b where "pb = (p, b)" by (cases pb)
  with Some HandleUnlock_valid [of r p b h] assms show thesis
    by (intro valid [of p b "fst (run api (lm_ReleaseLock lm p b owner) s)"])
      (auto simp: prog_simps split: prod.splits)
qed

lemma HandleUnlock_200:
  assumes "h_lockManager h = lm" "inv s" "run api (HandleUnlock h r) s = (evs, s')"
    and "rs_code (deliver evs) = Some 200"
  shows "\<exists>p b. unlock_target r = Some (p, b) \<and> slots s' = (slots s)(p := Free)"
  using assms(1,3)
proof (cases rule: HandleUnlock_run)
  case (invalid m)
  with assms(4) show ?thesis by (simp add: invalid_reply_def)
next
  case (valid p b e)
  with assms(4) have "e = None" by (auto simp: unlock_reply_def split: option.splits)
  with Release_ok [OF assms(2)] valid show ?thesis by blast
qed

lemma HandleGetLock_run:
  assumes "h_lockManager h = lm" "run api (HandleGetLock h r) s = (evs, s')"
  obtains (invalid) m where "clean_name (rq_project r) = None" "evs = invalid_reply h ''get'' m" "s' = s"
  | (valid) p g where "clean_name (rq_project r) = Some p" "run api (lm_GetLock lm p) s = (g, s')"
      "evs = get_reply h g"
proof (cases "clean_name (rq_project r)")
  case None
  with HandleGetLock_invalid [of r h] assms(2) show thesis by (auto intro: invalid)
next
  case (Some p)
  with HandleGetLock_valid [of r p h] assms show thesis
    by (intro valid [of p "fst (run api (lm_GetLock lm p) s)"])
      (auto simp: prog_simps split: prod.splits)
qed

lemma HandleGetLock_keeps:
  assumes "h_lockManager h = lm" "inv s" "run api (HandleGetLock h r) s = (evs, s')"
  shows "inv s' \<and> slots s' = slots s"
  using assms(1,3) by (cases rule: HandleGetLock_run) (use assms(2) GetLock_frame in auto)

lemma HandleGetLock_200:
  assumes "h_lockManager h = lm" "inv s" "run api (HandleGetLock h r) s = (evs, s')"
    and "rs_code (deliver evs) = Some 200"
  shows "\<exists>p l. clean_name (rq_project r) = Some p \<and> slots s p = Held l \<and>
    deliver evs = deliver (respondLock 200 ''locked'' ''Lock exists'' (Some l))"
  using assms(1,3)
proof (cases rule: HandleGetLock_run)
  case (invalid m)
  with assms(4) show ?thesis by (simp add: invalid_reply_def)
next
  case (valid p g)
  with assms(4) obtain l where "g = Inr l" by (cases g) (auto simp: get_reply_def split: if_splits)
  with GetLock_held [OF assms(2)] valid deliver_respondJSON [of "[]"] show ?thesis
    by (auto simp: get_reply_def respondLock_def deliver_respondJSON)
qed

lemma HandleGetLock_404:
  assumes "h_lockManager h = lm" "inv s" "run api (HandleGetLock h r) s = (evs, s')"
    and "rs_code (deliver evs) = Some 404"
  shows "\<exists>p. clean_name (rq_project r) = Some p \<and> slots s p = Free"
  using assms(1,3)
proof (cases rule: HandleGetLock_run)
  case (invalid m)
  with assms(4) show ?thesis by (simp add: invalid_reply_def)
next
  case (valid p g)
  with assms(4) obtain e where "g = Inl e" "errors_Is e ErrLockNotFound"
    by (cases g) (auto simp: get_reply_def respondLock_def split: if_splits)
  with GetLock_free [OF assms(2)] valid show ?thesis by blast
qed

end

section \<open>When nothing fails\<close>

text \<open>The status of \<open>POST /lock\<close> and what it makes of the project's slot.\<close>

definition lock_spec :: "slot \<Rightarrow> string \<Rightarrow> string \<Rightarrow> go_time \<Rightarrow> int \<times> slot" where
  "lock_spec sl p b t = (case acquire_slot sl p b owner t of
     ((lo, ok), sl') \<Rightarrow> (if ok then 200 else if lo = None then 500 else 409, sl'))"

lemma owner_ok [simp]: "owner \<noteq> []" "valid_utf8 owner"
  by (simp_all add: owner_def valid_utf8_ascii)

definition status_of :: "http_event list \<Rightarrow> int" where
  "status_of evs = the (rs_code (deliver evs))"

context lock_live
begin

text \<open>A refusal names the lock in the way exactly when it is a conflict.\<close>

lemma Acquire_refusal:
  assumes "inv s" "p \<noteq> []" "b \<noteq> []" "valid_utf8 p" "valid_utf8 b" "w \<noteq> []" "valid_utf8 w"
    and "run api (lm_AcquireLock lm p b w) s = ((lo, Some e), s')"
  shows "errors_Is e ErrLockConflict = (lo \<noteq> None)"
proof
  show "errors_Is e ErrLockConflict \<Longrightarrow> lo \<noteq> None" using Acquire_conflict [OF assms(1,8)] by blast
next
  assume "lo \<noteq> None"
  then obtain l where l: "lo = Some l" by auto
  obtain t where "((lo, False), slots s' p) = acquire_slot (slots s p) p b w t"
    using Acquire_refines [OF assms(1-3,6,4,5,7)] assms(8) by (auto simp: verdict_def)
  with l have "slots s p = Held l" "Branch l \<noteq> b \<or> Owner l \<noteq> w" by (cases "slots s p"; simp)+
  with Acquire_refuses [OF assms(1-3,6)] assms(8) show "errors_Is e ErrLockConflict" by auto
qed

lemma HandleLock_refines:
  assumes "h_lockManager h = lm" "inv s" "lock_target r = Some (p, b)"
  shows "\<exists>t evs s'. run api (HandleLock h r) s = (evs, s') \<and> time_ok t \<and> inv s' \<and>
    (status_of evs, slots s' p) = lock_spec (slots s p) p b t \<and> keeps_others (slots s) (slots s') p"
proof -
  note n = lock_target_names [OF assms(3)]
  obtain t a s' where a: "run api (lm_AcquireLock lm p b owner) s = (a, s')" "time_ok t"
    "(verdict a, slots s' p) = acquire_slot (slots s p) p b owner t"
    using Acquire_refines [OF assms(2) n(1,2) owner_ok(1) n(3,4) owner_ok(2)] by blast
  have run: "run api (HandleLock h r) s = (lock_reply h a, s')"
    using a(1) assms by (simp add: HandleLock_valid prog_simps)
  have "(status_of (lock_reply h a), slots s' p) = lock_spec (slots s p) p b t"
  proof (cases a)
    case (Pair lo eo)
    show ?thesis
    proof (cases eo)
      case None
      with Pair a(3) show ?thesis
        by (simp add: lock_spec_def lock_reply_def status_of_def verdict_def flip: a(3))
    next
      case (Some e)
      have "errors_Is e ErrLockConflict = (lo \<noteq> None)"
        using Acquire_refusal [OF assms(2) n owner_ok] a(1) Pair Some by simp
      then show ?thesis
        using Pair Some by (auto simp: lock_spec_def lock_reply_def status_of_def verdict_def simp flip: a(3))
    qed
  qed
  with run a show ?thesis
    using Acquire_inv [OF assms(2) a(1)] Acquire_other [OF assms(2) a(1)] by (auto simp: keeps_others_def)
qed

lemma HandleUnlock_live:
  assumes "h_lockManager h = lm" "inv s" "unlock_target r = Some (p, b)"
  shows "\<exists>evs s'. run api (HandleUnlock h r) s = (evs, s') \<and> inv s' \<and> status_of evs = 200 \<and>
    slots s' = (slots s)(p := Free)"
proof -
  obtain s' where d: "run api (lm_ReleaseLock lm p b owner) s = (None, s')"
    using Release_live [OF assms(2) unlock_target_names(1) [OF assms(3)]] by blast
  then have "run api (HandleUnlock h r) s = (unlock_reply h None, s')"
    using assms by (simp add: HandleUnlock_valid prog_simps)
  with Release_inv [OF assms(2) d] Release_ok [OF assms(2) d] show ?thesis
    by (simp add: unlock_reply_def status_of_def)
qed

lemma HandleGetLock_live:
  assumes "h_lockManager h = lm" "inv s" "clean_name (rq_project r) = Some p"
  shows "slots s p = Held l \<Longrightarrow> \<exists>evs s'. run api (HandleGetLock h r) s = (evs, s') \<and> inv s' \<and>
      status_of evs = 200 \<and> deliver evs = deliver (respondLock 200 ''locked'' ''Lock exists'' (Some l))"
    and "slots s p = Free \<Longrightarrow> \<exists>evs s'. run api (HandleGetLock h r) s = (evs, s') \<and> inv s' \<and>
      status_of evs = 404"
proof -
  note p = clean_name_Some(2) [OF assms(3)]
  assume "slots s p = Held l"
  then obtain s' where g: "run api (lm_GetLock lm p) s = (Inr l, s')" using GetLock_live assms(2) p by blast
  then have "run api (HandleGetLock h r) s = (get_reply h (Inr l), s')"
    using assms by (simp add: HandleGetLock_valid prog_simps)
  with GetLock_frame [OF assms(2) g] deliver_respondJSON [of "[]"] show "\<exists>evs s'. run api (HandleGetLock h r) s = (evs, s') \<and> inv s' \<and>
      status_of evs = 200 \<and> deliver evs = deliver (respondLock 200 ''locked'' ''Lock exists'' (Some l))"
    by (simp add: get_reply_def status_of_def respondLock_def deliver_respondJSON)
next
  note p = clean_name_Some(2) [OF assms(3)]
  assume "slots s p = Free"
  then obtain s' where g: "run api (lm_GetLock lm p) s = (Inl ErrLockNotFound, s')"
    using GetLock_live_free assms(2) p by blast
  then have "run api (HandleGetLock h r) s = (get_reply h (Inl ErrLockNotFound), s')"
    using assms by (simp add: HandleGetLock_valid prog_simps)
  with GetLock_frame [OF assms(2) g] show "\<exists>evs s'. run api (HandleGetLock h r) s = (evs, s') \<and> inv s' \<and>
      status_of evs = 404"
    by (simp add: get_reply_def status_of_def)
qed

end

section \<open>Every reply\<close>

lemma status_of_Some: "status_of evs = c \<Longrightarrow> rs_code (deliver evs) = Some c"
  by (auto simp: status_of_def deliver_def http_WriteHeader_def)

lemma status_of_simps [simp]:
  "status_of (map HMetric ms @ respondJSON status d) = status"
  "status_of (map HMetric ms @ respondLock status st m lo) = status"
  "status_of (map HMetric ms @ respondError status m) = status"
  by (simp_all add: status_of_def)

definition lock_outcome :: "int \<Rightarrow> string" where
  "lock_outcome c = (if c = 200 then ''success'' else if c = 409 then ''conflict'' else ''failure'')"

definition get_outcome :: "int \<Rightarrow> string" where
  "get_outcome c = (if c = 200 \<or> c = 404 then ''success'' else ''failure'')"

text \<open>
  The reply to the operation \<open>op\<close>: the body is one JSON object and a newline, and a client's decoder
  reads the object back.  It is a \<open>LockResponse\<close> whose status word goes with the code and which shows a
  lock only where one belongs.  Only a lock whose time has no text leaves the body empty.
\<close>

definition reply_word :: "string \<Rightarrow> int \<Rightarrow> string" where
  "reply_word op code = (if code = 400 \<or> code = 500 then ''error''
     else if op = ''unlock'' \<or> code = 404 then ''unlocked'' else ''locked'')"

definition json_reply :: "string \<Rightarrow> http_event list \<Rightarrow> bool" where
  "json_reply op evs \<longleftrightarrow> rs_headers (deliver evs) = [''Content-Type'' \<mapsto> ''application/json''] \<and>
     (\<exists>m lo. (op = ''unlock'' \<or> status_of evs \<in> {400, 404, 500} \<longrightarrow> lo = None) \<and>
       (case response_json \<lparr>Status = reply_word op (status_of evs), Message = m, Lock = lo\<rparr> of
          Inr j \<Rightarrow> rs_body (deliver evs) = print j @ [CHR 0x0A] \<and> decode_first (rs_body (deliver evs)) = Some j
        | Inl _ \<Rightarrow> rs_body (deliver evs) = [] \<and>
            (\<exists>l. lo = Some l \<and> (\<forall>t. time_MarshalText (CreatedAt l) \<noteq> Inr t))))"

lemma json_reply_respondJSON:
  assumes "w = reply_word op c" "op = ''unlock'' \<or> c \<in> {400, 404, 500} \<longrightarrow> lo = None"
  shows "json_reply op (map HMetric ms @ respondJSON c \<lparr>Status = w, Message = m, Lock = lo\<rparr>)"
proof -
  let ?r = "\<lparr>Status = w, Message = m, Lock = lo\<rparr>"
  have "case response_json ?r of
      Inr j \<Rightarrow> decode_first (print j @ [CHR 0x0A]) = Some j
    | Inl _ \<Rightarrow> \<exists>l. lo = Some l \<and> (\<forall>t. time_MarshalText (CreatedAt l) \<noteq> Inr t)"
  proof (cases "response_json ?r")
    case (Inl e)
    then show ?thesis by (auto simp: response_json_def lock_json_def Let_def split: option.splits sum.splits)
  next
    case (Inr j)
    then show ?thesis using reply_body_decodes response_json_wf [OF Inr] by (simp add: max_depth_def)
  qed
  with assms show ?thesis
    unfolding json_reply_def
    by (intro conjI exI [of _ m] exI [of _ lo]) (auto simp: deliver_respondJSON split: sum.splits)
qed

lemma json_reply_simps [simp]:
  "c = 400 \<or> c = 500 \<Longrightarrow> json_reply op (map HMetric ms @ respondError c m)"
  "op \<noteq> ''unlock'' \<Longrightarrow> c \<in> {200, 409} \<Longrightarrow> json_reply op (map HMetric ms @ respondLock c ''locked'' m lo)"
  "op = ''unlock'' \<or> c = 404 \<Longrightarrow> c \<in> {200, 404} \<Longrightarrow>
     json_reply op (map HMetric ms @ respondJSON c \<lparr>Status = ''unlocked'', Message = m, Lock = None\<rparr>)"
  unfolding respondLock_def respondError_def
  by (rule json_reply_respondJSON; auto simp: reply_word_def)+

lemma invalid_reply_facts [simp]:
  "status_of (invalid_reply h op m) = 400" "json_reply op (invalid_reply h op m)"
  "metric_calls (invalid_reply h op m) = counted h op ''failure''"
  by (simp_all add: invalid_reply_def)

lemma lock_reply_facts:
  "status_of (lock_reply h a) \<in> {200, 409, 500}" "json_reply ''lock'' (lock_reply h a)"
  "metric_calls (lock_reply h a) = counted h ''lock'' (lock_outcome (status_of (lock_reply h a)))"
  by (auto simp: lock_reply_def lock_outcome_def split: prod.splits option.splits)

lemma unlock_reply_facts:
  "status_of (unlock_reply h e) \<in> {200, 500}" "json_reply ''unlock'' (unlock_reply h e)"
  "metric_calls (unlock_reply h e) = counted h ''unlock'' (lock_outcome (status_of (unlock_reply h e)))"
  by (auto simp: unlock_reply_def lock_outcome_def split: option.splits)

lemma get_reply_facts:
  "status_of (get_reply h g) \<in> {200, 404, 500}" "json_reply ''get'' (get_reply h g)"
  "metric_calls (get_reply h g) = counted h ''get'' (get_outcome (status_of (get_reply h g)))"
  by (auto simp: get_reply_def get_outcome_def split: sum.splits)

lemma HandleLock_shape:
  obtains (invalid) m where "lock_target r = None" "run api (HandleLock h r) s = (invalid_reply h ''lock'' m, s)"
  | (valid) a where "lock_target r \<noteq> None" "fst (run api (HandleLock h r) s) = lock_reply h a"
proof (cases "lock_target r = None")
  case True
  with HandleLock_invalid [of r h] show thesis by (auto intro: invalid)
next
  case False
  then obtain p b where p: "lock_target r = Some (p, b)" by auto
  then have "fst (run api (HandleLock h r) s) = lock_reply h (fst (run api (lm_AcquireLock (h_lockManager h) p b owner) s))"
    by (simp add: HandleLock_valid prog_simps split: prod.splits)
  with False show thesis by (rule valid)
qed

lemma HandleLock_replies:
  "(status_of (fst (run api (HandleLock h r) s)) = 400) = (lock_target r = None) \<and>
   (lock_target r = None \<longrightarrow> snd (run api (HandleLock h r) s) = s) \<and>
   status_of (fst (run api (HandleLock h r) s)) \<in> {200, 400, 409, 500} \<and>
   metric_calls (fst (run api (HandleLock h r) s)) =
     counted h ''lock'' (lock_outcome (status_of (fst (run api (HandleLock h r) s)))) \<and>
   json_reply ''lock'' (fst (run api (HandleLock h r) s))"
proof (cases rule: HandleLock_shape [of r api h s])
  case (invalid m)
  then show ?thesis by (simp add: lock_outcome_def)
next
  case (valid a)
  with lock_reply_facts [of h a] show ?thesis by auto
qed

lemma HandleUnlock_shape:
  obtains (invalid) m where "unlock_target r = None" "run api (HandleUnlock h r) s = (invalid_reply h ''unlock'' m, s)"
  | (valid) a where "unlock_target r \<noteq> None" "fst (run api (HandleUnlock h r) s) = unlock_reply h a"
proof (cases "unlock_target r = None")
  case True
  with HandleUnlock_invalid [of r h] show thesis by (auto intro: invalid)
next
  case False
  then obtain p b where p: "unlock_target r = Some (p, b)" by auto
  then have "fst (run api (HandleUnlock h r) s) = unlock_reply h (fst (run api (lm_ReleaseLock (h_lockManager h) p b owner) s))"
    by (simp add: HandleUnlock_valid prog_simps split: prod.splits)
  with False show thesis by (rule valid)
qed

lemma HandleUnlock_replies:
  "(status_of (fst (run api (HandleUnlock h r) s)) = 400) = (unlock_target r = None) \<and>
   (unlock_target r = None \<longrightarrow> snd (run api (HandleUnlock h r) s) = s) \<and>
   status_of (fst (run api (HandleUnlock h r) s)) \<in> {200, 400, 500} \<and>
   metric_calls (fst (run api (HandleUnlock h r) s)) =
     counted h ''unlock'' (lock_outcome (status_of (fst (run api (HandleUnlock h r) s)))) \<and>
   json_reply ''unlock'' (fst (run api (HandleUnlock h r) s))"
proof (cases rule: HandleUnlock_shape [of r api h s])
  case (invalid m)
  then show ?thesis by (simp add: lock_outcome_def)
next
  case (valid a)
  with unlock_reply_facts [of h a] show ?thesis by auto
qed

lemma HandleGetLock_shape:
  obtains (invalid) m where "clean_name (rq_project r) = None" "run api (HandleGetLock h r) s = (invalid_reply h ''get'' m, s)"
  | (valid) a where "clean_name (rq_project r) \<noteq> None" "fst (run api (HandleGetLock h r) s) = get_reply h a"
proof (cases "clean_name (rq_project r) = None")
  case True
  with HandleGetLock_invalid [of r h] show thesis by (auto intro: invalid)
next
  case False
  then obtain p where p: "clean_name (rq_project r) = Some p" by auto
  then have "fst (run api (HandleGetLock h r) s) = get_reply h (fst (run api (lm_GetLock (h_lockManager h) p) s))"
    by (simp add: HandleGetLock_valid prog_simps split: prod.splits)
  with False show thesis by (rule valid)
qed

lemma HandleGetLock_replies:
  "(status_of (fst (run api (HandleGetLock h r) s)) = 400) = (clean_name (rq_project r) = None) \<and>
   (clean_name (rq_project r) = None \<longrightarrow> snd (run api (HandleGetLock h r) s) = s) \<and>
   status_of (fst (run api (HandleGetLock h r) s)) \<in> {200, 400, 404, 500} \<and>
   metric_calls (fst (run api (HandleGetLock h r) s)) =
     counted h ''get'' (get_outcome (status_of (fst (run api (HandleGetLock h r) s)))) \<and>
   json_reply ''get'' (fst (run api (HandleGetLock h r) s))"
proof (cases rule: HandleGetLock_shape [of r api h s])
  case (invalid m)
  then show ?thesis by (simp add: get_outcome_def)
next
  case (valid a)
  with get_reply_facts [of h a] show ?thesis by auto
qed

end
