(* ===== verification/Race.thy ===== *)
theory Race
  imports Handlers
begin

text \<open>
  Requests served at the same time.  Every request is a goroutine of its own; \<open>moves\<close> lets any one
  of a pool of programs make its next call on Olric or the clock.  \<open>guarded\<close> is what a program may
  do to the map whatever answers it gets; the invariants below hold in every state reachable from
  the start of any number of guarded programs.  \<open>double_grant\<close> is what they do not give: the check
  and the write of \<open>PutIfAbsent\<close> are two calls, and two branches can both be told that they hold
  the lock.
\<close>

section \<open>Interleaving\<close>

type_synonym ('a, 'w) pool = "'a prog list \<times> 'w node"

inductive moves :: "'w olric \<Rightarrow> ('a, 'w) pool \<Rightarrow> ('a, 'w) pool \<Rightarrow> bool" for api :: "'w olric" where
  move: "i < length ps \<Longrightarrow> effect api (ps ! i) s = (p, s') \<Longrightarrow> moves api (ps, s) (ps[i := p], s')"

inductive reaches :: "'w olric \<Rightarrow> ('a, 'w) pool \<Rightarrow> ('a, 'w) pool \<Rightarrow> bool" for api :: "'w olric" where
  start: "reaches api c c"
| later: "reaches api c c' \<Longrightarrow> moves api c' c'' \<Longrightarrow> reaches api c c''"

inductive_cases moves_elim: "moves api (ps, s) c"

text \<open>Program \<open>i\<close> alone making \<open>n\<close> calls.\<close>

fun calls :: "nat \<Rightarrow> 'w olric \<Rightarrow> 'a prog \<Rightarrow> 'w node \<Rightarrow> 'a prog \<times> 'w node" where
  "calls 0 api p s = (p, s)"
| "calls (Suc n) api p s = (case effect api p s of (p', s') \<Rightarrow> calls n api p' s')"

lemma reaches_trans: "reaches api c c' \<Longrightarrow> reaches api b c \<Longrightarrow> reaches api b c'"
  by (induction rule: reaches.induct) (auto intro: reaches.later)

lemma reaches_calls:
  assumes "i < length ps" "calls n api (ps ! i) s = (p, s')"
  shows "reaches api (ps, s) (ps[i := p], s')"
  using assms
proof (induction n arbitrary: ps s)
  case 0
  then show ?case by (auto intro: reaches.start)
next
  case (Suc n)
  obtain q t where q: "effect api (ps ! i) s = (q, t)" by (meson surj_pair)
  have "moves api (ps, s) (ps[i := q], t)" using Suc.prems(1) q by (rule move)
  then have "reaches api (ps, s) (ps[i := q], t)" using reaches.start reaches.later by metis
  moreover have "reaches api (ps[i := q], t) (ps[i := p], s')"
    using Suc.IH [of "ps[i := q]" t] Suc.prems q by simp
  ultimately show ?case using reaches_trans by metis
qed

section \<open>What a program may do\<close>

text \<open>\<open>W\<close>: the entries it may write; \<open>D\<close>: the keys it may delete; \<open>d\<close>: the map it works on.\<close>

primrec guarded ::
    "string \<Rightarrow> (string \<Rightarrow> go_value \<Rightarrow> bool) \<Rightarrow> (string \<Rightarrow> bool) \<Rightarrow> 'a prog \<Rightarrow> bool" where
  "guarded d W D (Ret a) = True"
| "guarded d W D (Load k) = (\<forall>h \<in> {None, Some d}. guarded d W D (k h))"
| "guarded d W D (Save h p) = (h = Some d \<and> guarded d W D p)"
| "guarded d W D (ClientNewDMap n k) = (\<forall>r. guarded d W D (k r))"
| "guarded d W D (DMapGet n key k) = (\<forall>r. guarded d W D (k r))"
| "guarded d W D (DMapPut n key v ttl k) = (n = d \<and> W key v \<and> (\<forall>r. guarded d W D (k r)))"
| "guarded d W D (DMapDelete n key k) = (n = d \<and> D key \<and> (\<forall>r. guarded d W D (k r)))"
| "guarded d W D (ClientMembers k) = (\<forall>r. guarded d W D (k r))"
| "guarded d W D (ClientStats n k) = (\<forall>r. guarded d W D (k r))"
| "guarded d W D (DbShutdown k) = False"
| "guarded d W D (Now k) = (\<forall>t. time_ok t \<longrightarrow> guarded d W D (k t))"

lemma guarded_seq: "guarded d W D m \<Longrightarrow> (\<And>a. guarded d W D (f a)) \<Longrightarrow> guarded d W D (seq m f)"
  by (induction m) auto

lemma guarded_and_then:
  "guarded d W D m \<Longrightarrow> (\<And>a. guarded d W D (f a)) \<Longrightarrow> guarded d W D (and_then m f)"
  unfolding and_then_def by (rule guarded_seq) (auto split: sum.splits)

lemma guarded_mono:
  "guarded d W D p \<Longrightarrow> (\<And>k v. W k v \<Longrightarrow> W' k v) \<Longrightarrow> (\<And>k. D k \<Longrightarrow> D' k) \<Longrightarrow> guarded d W' D' p"
  by (induction p) auto

text \<open>One allowed change of the content.\<close>

definition changes ::
    "(string \<Rightarrow> go_value \<Rightarrow> bool) \<Rightarrow> (string \<Rightarrow> bool) \<Rightarrow> (string \<Rightarrow> go_value option) \<Rightarrow>
     (string \<Rightarrow> go_value option) \<Rightarrow> bool" where
  "changes W D m m' \<longleftrightarrow> m' = m \<or> (\<exists>k v. W k v \<and> m' = m(k \<mapsto> v)) \<or> (\<exists>k. D k \<and> m' = m(k := None))"

context olric_node
begin

lemma handle_ok_ext [simp]: "handle_ok os (s\<lparr>ext := w\<rparr>) = handle_ok os s"
  by (simp add: handle_ok_def)

lemma guarded_effect:
  assumes g: "guarded (DMapName (store_config os)) W D p" and h: "handle_ok os s"
    and e: "effect api p s = (p', s')"
  shows "guarded (DMapName (store_config os)) W D p' \<and> handle_ok os s' \<and> changes W D (content s) (content s')"
proof (cases p)
  case (DMapPut d key v ttl k)
  obtain r w where r: "api_Put api d key v ttl (ext s) = (r, w)" by (meson surj_pair)
  have "changes W D (content s) (content (s\<lparr>ext := w\<rparr>))"
    using put_ok put_err r g DMapPut
    by (cases r) (auto simp: changes_def store_content_def, (fastforce)+)
  with DMapPut g h e r show ?thesis by (auto simp: call_def)
next
  case (DMapDelete d key k)
  obtain r w where r: "api_Delete api d key (ext s) = (r, w)" by (meson surj_pair)
  have "changes W D (content s) (content (s\<lparr>ext := w\<rparr>))"
    using delete_ok delete_err r g DMapDelete
    by (cases r) (auto simp: changes_def store_content_def, (fastforce)+)
  with DMapDelete g h e r show ?thesis by (auto simp: call_def)
next
  case (Now k)
  obtain t w where t: "api_Now api (ext s) = (t, w)" by (meson surj_pair)
  with now_view now_ok [of "ext s"] Now g h e show ?thesis
    by (auto simp: call_def changes_def store_content_def)
qed (use g h e new_dmap_view get_view members_view stats_view in
    \<open>auto simp: call_def changes_def store_content_def handle_ok_def split: prod.splits\<close>)

lemma guarded_ready:
  assumes "guarded (DMapName (store_config os)) W D q" "ready os s" "effect api q s = (q', s')"
  shows "ready os s'"
  using assms by (cases q) (auto simp: call_def ready_def split: prod.splits)

end

section \<open>The requests of the service\<close>

datatype api_call = CallLock request | CallUnlock request | CallGet request

fun serve :: "lock_handlers \<Rightarrow> api_call \<Rightarrow> http_event list prog" where
  "serve h (CallLock r) = HandleLock h r"
| "serve h (CallUnlock r) = HandleUnlock h r"
| "serve h (CallGet r) = HandleGetLock h r"

fun locks_project :: "api_call \<Rightarrow> string option" where
  "locks_project (CallLock r) = map_option fst (lock_target r)"
| "locks_project _ = None"

fun unlocks_project :: "api_call \<Rightarrow> string option" where
  "unlocks_project (CallUnlock r) = map_option fst (unlock_target r)"
| "unlocks_project _ = None"

text \<open>What a lock request may write: a lock of its own project, in JSON.\<close>

definition lock_entry :: "string \<Rightarrow> go_value \<Rightarrow> bool" where
  "lock_entry p v \<longleftrightarrow>
     (\<exists>l. read_lock v = Inr l \<and> Project l = p \<and> Owner l = owner \<and> time_ok (CreatedAt l))"

abbreviation (input) this_map :: "olric_store \<Rightarrow> string" where
  "this_map os \<equiv> DMapName (store_config os)"

lemma guarded_getDMap: "guarded (this_map os) W D (getDMap os)"
  by (auto simp: getDMap_def split: option.splits)

lemma guarded_Get: "guarded (this_map os) W D (st_Get (as_Store os) k)"
  by (auto simp: as_Store_def olric_Get_def intro!: guarded_and_then guarded_getDMap)

text \<open>The map a store works on is the one \<open>getDMap\<close> gives it.\<close>

lemma guarded_getDMap_seq:
  assumes "\<And>e. guarded (this_map os) W D (f (Inl e))" "guarded (this_map os) W D (f (Inr (this_map os)))"
  shows "guarded (this_map os) W D (seq (getDMap os) f)"
  using assms by (auto simp: getDMap_def split: option.splits)

lemma guarded_PutIfAbsent:
  assumes "W k v"
  shows "guarded (this_map os) W D (st_PutIfAbsent (as_Store os) k v ttl)"
  using assms
  by (auto simp: as_Store_def olric_PutIfAbsent_def and_then_def intro!: guarded_getDMap_seq
      split: sum.splits)

lemma guarded_Delete:
  assumes "D k"
  shows "guarded (this_map os) W D (st_Delete (as_Store os) k)"
  using assms by (auto simp: as_Store_def olric_Delete_def intro!: guarded_getDMap_seq)

lemma guarded_GetLock: "guarded (this_map os) W D (GetLock (as_Store os) p)"
  by (auto simp: GetLock_def intro!: guarded_seq guarded_Get)

lemma guarded_AcquireLock:
  assumes "\<And>t v. time_ok t \<Longrightarrow> json_Marshal (lock_for p b w t) = Inr v \<Longrightarrow> W p (GStr v)"
  shows "guarded (this_map os) W D (AcquireLock (as_Store os) p b w)"
  using assms
  by (auto simp: AcquireLock_def create_lock_def Let_def lock_for_def [symmetric]
      intro!: guarded_seq guarded_GetLock guarded_PutIfAbsent split: sum.splits)

lemma guarded_ReleaseLock: "D p \<Longrightarrow> guarded (this_map os) W D (ReleaseLock (as_Store os) p b w)"
  by (auto simp: ReleaseLock_def intro!: guarded_seq guarded_Delete)

lemma guarded_serve:
  assumes "h_lockManager h = olric_locks os"
    and "\<And>p v. locks_project c = Some p \<Longrightarrow> lock_entry p v \<Longrightarrow> W p v"
    and "\<And>p. unlocks_project c = Some p \<Longrightarrow> D p"
  shows "guarded (this_map os) W D (serve h c)"
proof (cases c)
  case (CallLock r)
  show ?thesis
  proof (cases "lock_target r")
    case None
    with HandleLock_invalid [of r h] CallLock show ?thesis by auto
  next
    case (Some pb)
    obtain p b where pb: "pb = (p, b)" by (cases pb)
    have "W p (GStr v)" if "time_ok t" "json_Marshal (lock_for p b owner t) = Inr v" for t v
    proof -
      have "lock_ok (lock_for p b owner t)"
        using lock_for_ok lock_target_names(3,4) [of r p b] Some pb owner_ok that(1) by simp
      from marshal_read [OF this that(2)] that(1) have "lock_entry p (GStr v)"
        by (simp add: lock_entry_def)
      with assms(2) CallLock Some pb show ?thesis by simp
    qed
    then show ?thesis
      using CallLock HandleLock_valid [of r p b h] Some pb assms(1)
      by (auto simp: olric_locks_def intro!: guarded_seq guarded_AcquireLock)
  qed
next
  case (CallUnlock r)
  show ?thesis
  proof (cases "unlock_target r")
    case None
    with HandleUnlock_invalid [of r h] CallUnlock show ?thesis by auto
  next
    case (Some pb)
    with CallUnlock HandleUnlock_valid [of r "fst pb" "snd pb" h] assms(1,3) show ?thesis
      by (auto simp: olric_locks_def intro!: guarded_seq guarded_ReleaseLock)
  qed
next
  case (CallGet r)
  show ?thesis
  proof (cases "clean_name (rq_project r)")
    case None
    with HandleGetLock_invalid [of r h] CallGet show ?thesis by auto
  next
    case (Some p)
    with CallGet HandleGetLock_valid [of r p h] assms(1) show ?thesis
      by (auto simp: olric_locks_def intro!: guarded_seq guarded_GetLock)
  qed
qed

section \<open>Invariants of every interleaving\<close>

context olric_node
begin

lemma reaches_invariant:
  assumes "reaches api c c'"
    and "list_all (guarded (this_map os) W D) (fst c)" "handle_ok os (snd c)" "I (content (snd c))"
    and step: "\<And>m m'. I m \<Longrightarrow> changes W D m m' \<Longrightarrow> I m'"
  shows "list_all (guarded (this_map os) W D) (fst c') \<and> handle_ok os (snd c') \<and> I (content (snd c'))"
  using assms(1-4)
proof (induction rule: reaches.induct)
  case (later c c' c'')
  from later.hyps(2) obtain ps s i p s' where m: "c' = (ps, s)" "i < length ps"
    "effect api (ps ! i) s = (p, s')" "c'' = (ps[i := p], s')"
    by (cases rule: moves.cases) auto
  from later.IH [OF later.prems] m have ih: "list_all (guarded (this_map os) W D) ps" "handle_ok os s"
    "I (content s)" by auto
  have "guarded (this_map os) W D (ps ! i)" using ih(1) m(2) by (simp add: list_all_length)
  from guarded_effect [OF this ih(2) m(3)] step [OF ih(3)]
  have "guarded (this_map os) W D p" "handle_ok os s'" "I (content s')" by auto
  with ih(1) m(4) show ?case
    by (auto simp: list_all_iff dest: set_update_subset_insert [THEN subsetD])
qed simp

end

text \<open>
  Every entry is a lock of the service, stored under its own project, with a time that can be
  rendered.
\<close>

definition tidy :: "(string \<Rightarrow> slot) \<Rightarrow> bool" where
  "tidy m \<longleftrightarrow> (\<forall>p. case m p of Free \<Rightarrow> True | Held l \<Rightarrow> Project l = p \<and> Owner l = owner \<and> time_ok (CreatedAt l)
    | Corrupt \<Rightarrow> False)"

lemma tidy_changes: "tidy (table m) \<Longrightarrow> changes lock_entry D m m' \<Longrightarrow> tidy (table m')"
  by (auto simp: changes_def table_upd tidy_def lock_entry_def)

context olric_node
begin

lemma serve_invariant:
  assumes "reaches api (map (serve h) cs, s) (ps, s')" "h_lockManager h = olric_locks os"
    and "handle_ok os s" "I (content s)"
    and W: "\<And>c p v. c \<in> set cs \<Longrightarrow> locks_project c = Some p \<Longrightarrow> lock_entry p v \<Longrightarrow> W p v"
    and D: "\<And>c p. c \<in> set cs \<Longrightarrow> unlocks_project c = Some p \<Longrightarrow> D p"
    and step: "\<And>m m'. I m \<Longrightarrow> changes W D m m' \<Longrightarrow> I m'"
  shows "handle_ok os s' \<and> I (content s')"
proof -
  have "list_all (guarded (this_map os) W D) (map (serve h) cs)"
    using guarded_serve [OF assms(2), of _ W D] W D by (auto simp: list_all_iff)
  then show ?thesis using reaches_invariant [OF assms(1), of W D I] assms(3,4) step by simp
qed

lemma tidy_reaches:
  assumes "reaches api (map (serve h) cs, s) (ps, s')" "h_lockManager h = olric_locks os"
    and "handle_ok os s" "tidy (locks view os s)"
  shows "tidy (locks view os s')"
proof -
  have "handle_ok os s' \<and> tidy (table (content s'))"
    by (rule serve_invariant [where I = "\<lambda>m. tidy (table m)" and W = lock_entry and D = "\<lambda>_. True",
          OF assms(1-3)])
      (use assms(4) tidy_changes in \<open>auto simp: locks_def\<close>)
  then show ?thesis by (simp add: locks_def)
qed

lemma frame_reaches:
  assumes "reaches api (map (serve h) cs, s) (ps, s')" "h_lockManager h = olric_locks os" "handle_ok os s"
  shows "\<forall>c \<in> set cs. unlocks_project c \<noteq> Some p \<Longrightarrow> locks view os s p \<noteq> Free \<Longrightarrow> locks view os s' p \<noteq> Free"
    and "\<forall>c \<in> set cs. locks_project c \<noteq> Some p \<Longrightarrow> locks view os s p = Free \<Longrightarrow> locks view os s' p = Free"
    and "\<forall>c \<in> set cs. locks_project c \<noteq> Some p \<and> unlocks_project c \<noteq> Some p \<Longrightarrow>
      locks view os s' p = locks view os s p"
proof -
  assume a: "\<forall>c \<in> set cs. unlocks_project c \<noteq> Some p" "locks view os s p \<noteq> Free"
  have "handle_ok os s' \<and> content s' p \<noteq> None"
    by (rule serve_invariant [where I = "\<lambda>m. m p \<noteq> None"
          and W = "\<lambda>_ _. True" and D = "\<lambda>k. k \<noteq> p", OF assms])
      (use a in \<open>auto simp: locks_def table_def changes_def\<close>)
  then show "locks view os s' p \<noteq> Free" by (simp add: locks_def table_def)
next
  assume a: "\<forall>c \<in> set cs. locks_project c \<noteq> Some p" "locks view os s p = Free"
  have "handle_ok os s' \<and> content s' p = None"
    by (rule serve_invariant [where I = "\<lambda>m. m p = None"
          and W = "\<lambda>k _. k \<noteq> p" and D = "\<lambda>_. True", OF assms])
      (use a in \<open>auto simp: locks_def table_def changes_def\<close>)
  then show "locks view os s' p = Free" by (simp add: locks_def table_def)
next
  assume a: "\<forall>c \<in> set cs. locks_project c \<noteq> Some p \<and> unlocks_project c \<noteq> Some p"
  have "handle_ok os s' \<and> content s' p = content s p"
    by (rule serve_invariant [where I = "\<lambda>m. m p = content s p"
          and W = "\<lambda>k _. k \<noteq> p" and D = "\<lambda>k. k \<noteq> p", OF assms])
      (use a in \<open>auto simp: changes_def\<close>)
  then show "locks view os s' p = locks view os s p" by (simp add: locks_def table_def)
qed

end

section \<open>The race\<close>

text \<open>
  A lock request on a free project, stopped after its second look at the map: both looks have
  found nothing, and its next call is the write.
\<close>

context olric_node_live
begin

lemma get_free:
  assumes "content s p = None"
  obtains e w where "api_Get api (this_map os) p (ext s) = (Inl e, w)" "Error e = ''key not found''"
    "view w = view (ext s)"
  using get_live_missing [of "ext s" "this_map os" p] assms get_view
  by (metis fst_conv store_content_def surj_pair)

lemma content_ext: "view w = view (ext s) \<Longrightarrow> content (s\<lparr>ext := w\<rparr>) = content s"
  by (simp add: store_content_def)

lemma acquire_checks:
  assumes "ready os s" "content s p = None" "p \<noteq> []" "b \<noteq> []" "w \<noteq> []"
  obtains t v s' k where "time_ok t" "json_Marshal (lock_for p b w t) = Inr v" "ready os s'"
    "content s' = content s"
    "calls 5 api (seq (AcquireLock (as_Store os) p b w) f) s =
       (DMapPut (this_map os) p (GStr v) None k, s')"
    "k None = f (Some (lock_for p b w t), None)"
proof -
  obtain e1 w1 where g1: "api_Get api (this_map os) p (ext s) = (Inl e1, w1)"
    "Error e1 = ''key not found''" "view w1 = view (ext s)" using get_free assms(2) by blast
  obtain t w2 where t: "api_Now api w1 = (t, w2)" by (meson surj_pair)
  have t': "time_ok t" "view w2 = view w1" using now_ok [of w1] now_view t by auto
  obtain v where v: "json_Marshal (lock_for p b w t) = Inr v"
    using marshal_time_ok [of "lock_for p b w t"] t'(1) by auto
  have "content (s\<lparr>ext := w2\<rparr>) p = None" using assms(2) g1(3) t'(2) by (simp add: content_ext)
  then obtain e2 w3 where g2: "api_Get api (this_map os) p w2 = (Inl e2, w3)"
    "Error e2 = ''key not found''" "view w3 = view w2" using get_free [of "s\<lparr>ext := w2\<rparr>" p] by auto
  define s' where "s' = s\<lparr>ext := w3\<rparr>"
  define k where "k = (\<lambda>err. f (case err of
      None \<Rightarrow> (Some (lock_for p b w t), None)
    | Some e \<Rightarrow> (None, Some (Wrap ''failed to store lock'' (Wrap ''failed to put value'' e)))))"
  show thesis
  proof (rule that [of t v s' k])
    show "k None = f (Some (lock_for p b w t), None)" by (simp add: k_def)
    show "time_ok t" "json_Marshal (lock_for p b w t) = Inr v" by (fact t' v)+
    show "ready os s'" using assms(1) by (simp add: s'_def ready_def)
    show "content s' = content s" using g1(3) g2(3) t'(2) by (simp add: s'_def content_ext)
    have d: "dmap s = Some (this_map os)" using assms(1) by (simp add: ready_def)
    show "calls 5 api (seq (AcquireLock (as_Store os) p b w) f) s =
       (DMapPut (this_map os) p (GStr v) None k, s')"
      using assms(3-5) d g1 t v g2
      by (simp add: eval_nat_numeral AcquireLock_def GetLock_def as_Store_def olric_Get_def and_then_def
          getDMap_def create_lock_def olric_PutIfAbsent_def call_def Contains_self Let_def
          lock_for_def isKeyNotFoundError_def expiry_def s'_def)
        (auto simp: k_def fun_eq_iff lock_for_def split: option.splits)
  qed
qed

end

context olric_node_live
begin

lemma put_step:
  assumes "ready os s"
  obtains s' where "calls 1 api (DMapPut (this_map os) p x None k) s = (k None, s')" "ready os s'"
    "content s' = (content s)(p \<mapsto> x)"
proof -
  obtain w where w: "api_Put api (this_map os) p x None (ext s) = (None, w)"
    using put_live [of "this_map os" p x None "ext s"] by (metis fst_conv surj_pair)
  from put_ok [OF w] have "content (s\<lparr>ext := w\<rparr>) = (content s)(p \<mapsto> x)" by (simp add: store_content_def fun_upd_def)
  with w assms that [of "s\<lparr>ext := w\<rparr>"] show thesis by (simp add: call_def ready_def)
qed

lemma both_granted:
  assumes h: "h_lockManager h = olric_locks os" and s: "ready os s" "locks view os s p = Free"
    and r: "lock_target r1 = Some (p, b1)" "lock_target r2 = Some (p, b2)"
  shows "\<exists>e1 e2 s' t. reaches api ([HandleLock h r1, HandleLock h r2], s) ([Ret e1, Ret e2], s') \<and>
    status_of e1 = 200 \<and> status_of e2 = 200 \<and>
    locks view os s' p = Held (stored_form (lock_for p b1 owner t))"
proof -
  let ?f = "\<lambda>a. Ret (lock_reply h a)" and ?d = "this_map os"
  define A where "A = (\<lambda>b. seq (AcquireLock (as_Store os) p b owner) ?f)"
  have H: "HandleLock h r1 = A b1" "HandleLock h r2 = A b2"
    using HandleLock_valid r h by (simp_all add: A_def olric_locks_def)
  have free: "content s p = None" using s(2) by (simp add: locks_def table_def)
  note n1 = lock_target_names [OF r(1)] and n2 = lock_target_names [OF r(2)]
  obtain t1 v1 s1 k1 where 1: "time_ok t1" "json_Marshal (lock_for p b1 owner t1) = Inr v1" "ready os s1"
    "content s1 = content s" "calls 5 api (A b1) s = (DMapPut ?d p (GStr v1) None k1, s1)"
    "k1 None = ?f (Some (lock_for p b1 owner t1), None)"
    using acquire_checks [OF s(1) free n1(1,2) owner_ok(1), of ?f] unfolding A_def by metis
  have free': "content s1 p = None" using 1(4) free by simp
  obtain t2 v2 s2 k2 where 2: "ready os s2"
    "calls 5 api (A b2) s1 = (DMapPut ?d p (GStr v2) None k2, s2)"
    "k2 None = ?f (Some (lock_for p b2 owner t2), None)"
    using acquire_checks [OF 1(3) free' n2(1,2) owner_ok(1), of ?f] unfolding A_def by metis
  obtain s3 where 3: "calls 1 api (DMapPut ?d p (GStr v2) None k2) s2 = (k2 None, s3)" "ready os s3"
    using put_step [OF 2(1)] by metis
  obtain s4 where 4: "calls 1 api (DMapPut ?d p (GStr v1) None k1) s3 = (k1 None, s4)"
    "content s4 = (content s3)(p \<mapsto> GStr v1)" using put_step [OF 3(2)] by metis
  have r1: "reaches api ([A b1, A b2], s) ([DMapPut ?d p (GStr v1) None k1, A b2], s1)"
    using reaches_calls [of 0 "[A b1, A b2]" 5 api s] 1(5) by simp
  have r2: "reaches api ([DMapPut ?d p (GStr v1) None k1, A b2], s1)
      ([DMapPut ?d p (GStr v1) None k1, DMapPut ?d p (GStr v2) None k2], s2)"
    using reaches_calls [of 1 "[DMapPut ?d p (GStr v1) None k1, A b2]" 5 api s1] 2(2) by simp
  have r3: "reaches api ([DMapPut ?d p (GStr v1) None k1, DMapPut ?d p (GStr v2) None k2], s2)
      ([DMapPut ?d p (GStr v1) None k1, k2 None], s3)"
    using reaches_calls [of 1 "[DMapPut ?d p (GStr v1) None k1, DMapPut ?d p (GStr v2) None k2]" 1 api s2]
      3(1) by simp
  have r4: "reaches api ([DMapPut ?d p (GStr v1) None k1, k2 None], s3) ([k1 None, k2 None], s4)"
    using reaches_calls [of 0 "[DMapPut ?d p (GStr v1) None k1, k2 None]" 1 api s3] 4(1) by simp
  have run: "reaches api ([A b1, A b2], s) ([k1 None, k2 None], s4)"
    by (rule reaches_trans [OF r4 reaches_trans [OF r3 reaches_trans [OF r2 r1]]])
  have slot: "locks view os s4 p = Held (stored_form (lock_for p b1 owner t1))"
    using marshal_read [OF lock_for_ok [OF n1(3,4) owner_ok(2) 1(1)] 1(2)] 4(2)
    by (simp add: locks_def table_def)
  have ok: "status_of (lock_reply h (Some l, None)) = 200" for l by (simp add: lock_reply_def)
  from run slot show ?thesis unfolding H 1(6) 2(3) using ok by blast
qed

end

end
