(* ===== verification/Endpoints.thy ===== *)
theory Endpoints
  imports Race
begin

text \<open>
  The endpoints over Olric, and the requests on which witnesses evaluate them.
\<close>

section \<open>The endpoints over Olric\<close>

definition endpoints :: "olric_store \<Rightarrow> bool \<Rightarrow> lock_handlers" where
  "endpoints os m = NewLockHandlers (olric_locks os) m"

lemma endpoints_manager [simp]: "h_lockManager (endpoints os m) = olric_locks os"
  by (simp add: endpoints_def NewLockHandlers_def)

text \<open>Requests and a node for the witnesses.\<close>

definition post :: "string \<Rightarrow> string \<Rightarrow> request" where
  "post path body = \<lparr>rq_Method = ''POST'', rq_Path = path, rq_ContentLength = int (length body),
     rq_Body = body, rq_RoutePattern = Some path, rq_project = []\<rparr>"

definition get_lock :: "string \<Rightarrow> request" where
  "get_lock project = \<lparr>rq_Method = ''GET'', rq_Path = ''/lock/'' @ project, rq_ContentLength = 0,
     rq_Body = [], rq_RoutePattern = Some ''/lock/{project}'', rq_project = project\<rparr>"

definition sample_body :: string where
  "sample_body = [CHR 0x7B, CHR 0x22] @ ''project'' @ [CHR 0x22] @ '': '' @ [CHR 0x22] @ ''api '' @
     [CHR 0x22] @ '', '' @ [CHR 0x22] @ ''branch'' @ [CHR 0x22] @ '':'' @ [CHR 0x22] @ ''feat/x'' @
     [CHR 0x22, CHR 0x7D]"

definition main_body :: string where
  "main_body = [CHR 0x7B, CHR 0x22] @ ''project'' @ [CHR 0x22] @ '': '' @ [CHR 0x22] @ ''api'' @
     [CHR 0x22] @ '', '' @ [CHR 0x22] @ ''branch'' @ [CHR 0x22] @ '':'' @ [CHR 0x22] @ ''main'' @
     [CHR 0x22, CHR 0x7D]"

lemma main_lock_target: "lock_target (post ''/lock'' main_body) = Some (''api'', ''main'')"
  by code_simp

lemma sample_lock_target: "lock_target (post ''/lock'' sample_body) = Some (''api'', ''feat/x'')"
  by code_simp

lemma sample_unlock_target: "unlock_target (post ''/unlock'' sample_body) = Some (''api'', ''feat/x'')"
  by code_simp

lemma sample_get_target: "clean_name (rq_project (get_lock ''api'')) = Some ''api''"
  by code_simp

lemma ref_dmap: "olric_dmap ref_api ref_data"
  by (rule ref.olric_dmap_axioms)

lemma ref_live: "olric_live ref_api ref_data"
  by (rule ref.olric_live_axioms)

lemma ready_node_free: "locks ref_data default_store ready_node p = Free"
  by (simp add: locks_def table_def store_content_def ready_node_def ref_node_def)

lemma sample_lock_run:
  "\<exists>evs s'. run ref_api (HandleLock (endpoints default_store True) (post ''/lock'' sample_body)) ready_node
     = (evs, s') \<and> rs_code (deliver evs) = Some 200 \<and> ready default_store s' \<and>
     (\<exists>t. locks ref_data default_store s' ''api'' =
        Held (stored_form (lock_for ''api'' ''feat/x'' owner t)))"
proof -
  obtain t evs s' where r: "run ref_api (HandleLock (endpoints default_store True)
      (post ''/lock'' sample_body)) ready_node = (evs, s')" "ready default_store s'"
    "(status_of evs, locks ref_data default_store s' ''api'') = lock_spec Free ''api'' ''feat/x'' t"
    using lock_live.HandleLock_refines [OF olric_lock_live [OF ref_live] endpoints_manager
        ready_ready_node sample_lock_target, unfolded ready_node_free] by blast
  moreover have "rs_code (deliver evs) \<noteq> None"
    by (simp add: deliver_def http_WriteHeader_def)
  ultimately show ?thesis by (auto simp: lock_spec_def status_of_def)
qed

lemma main_conflict_run:
  "\<exists>s evs s' l. ready default_store s \<and> locks ref_data default_store s ''api'' = Held l \<and>
     Branch l = ''feat/x'' \<and> run ref_api (HandleLock (endpoints default_store True)
       (post ''/lock'' main_body)) s = (evs, s') \<and> rs_code (deliver evs) = Some 409"
proof -
  obtain s :: "ref_world node" and t where s: "ready default_store s" "locks ref_data default_store s ''api'' =
      Held (stored_form (lock_for ''api'' ''feat/x'' owner t))" (is "_ = Held ?l")
    using sample_lock_run by blast
  obtain t evs and s' :: "ref_world node" where "run ref_api (HandleLock (endpoints default_store True)
      (post ''/lock'' main_body)) s = (evs, s')"
    "(status_of evs, locks ref_data default_store s' ''api'') = lock_spec (Held ?l) ''api'' ''main'' t"
    using lock_live.HandleLock_refines [OF olric_lock_live [OF ref_live] endpoints_manager
        s(1) main_lock_target, unfolded s(2)] by blast
  moreover have "rs_code (deliver evs) \<noteq> None"
    by (simp add: deliver_def http_WriteHeader_def)
  ultimately show ?thesis using s by (auto simp: lock_spec_def status_of_def)
qed

lemma sample_race:
  "\<exists>e1 e2 s' t. reaches ref_api (map (serve (endpoints default_store True))
      [CallLock (post ''/lock'' sample_body), CallLock (post ''/lock'' main_body)], ready_node) ([Ret e1, Ret e2], s') \<and>
    locks ref_data default_store s' ''api'' = Held (stored_form (lock_for ''api'' ''feat/x'' owner t))"
proof -
  have "olric_node_live ref_api ref_data" by (rule ref_node.olric_node_live_axioms)
  from olric_node_live.both_granted [OF this endpoints_manager ready_ready_node ready_node_free
      sample_lock_target main_lock_target] show ?thesis by (simp only: list.map serve.simps) blast
qed

lemma ready_node_handle: "handle_ok default_store ready_node"
  using ready_ready_node by (simp add: handle_ok_def ready_def)

end
