(* ===== verification/Replies.thy ===== *)
theory Replies
  imports Endpoints
begin

text \<open>
  What every reply of the lock endpoints is made of, whatever Olric answers and whatever other
  requests do meanwhile.  \<open>ensures\<close> is what a program's result satisfies when every string it reads
  of the map satisfies \<open>G\<close>; \<open>tidy\<close> is such an invariant of the map.
\<close>

section \<open>Well-formed replies\<close>

text \<open>The word in the field \<open>status\<close> that goes with a status code and a lock.\<close>

definition status_word :: "int \<Rightarrow> lock option \<Rightarrow> string" where
  "status_word code lo = (if code \<in> {400, 500} then ''error'' else if lo = None then ''unlocked'' else ''locked'')"

text \<open>
  One JSON object that a client's decoder reads back: a \<open>LockResponse\<close> whose status word goes with
  the code and which shows a lock exactly with the codes that stand for one.
\<close>

definition reply_ok :: "response \<Rightarrow> bool" where
  "reply_ok resp \<longleftrightarrow> rs_headers resp = [''Content-Type'' \<mapsto> ''application/json''] \<and>
     (\<exists>code m lo j. rs_code resp = Some code \<and> code \<in> {200, 400, 404, 409, 500} \<and>
       (code \<in> {400, 404, 500} \<longrightarrow> lo = None) \<and> (code = 409 \<longrightarrow> lo \<noteq> None) \<and>
       response_json \<lparr>Status = status_word code lo, Message = m, Lock = lo\<rparr> = Inr j \<and>
       decode_first (rs_body resp) = Some j)"

definition lock_dated :: "lock option \<Rightarrow> bool" where
  "lock_dated lo \<longleftrightarrow> (\<forall>l. lo = Some l \<longrightarrow> time_ok (CreatedAt l))"

lemma lock_json_total: "time_ok (CreatedAt l) \<Longrightarrow> \<exists>j. lock_json l = Inr j"
  using parse_format [of "CreatedAt l"] by (fastforce simp: lock_json_def)

lemma response_json_total:
  assumes "lock_dated (Lock r)"
  obtains j where "response_json r = Inr j"
  using assms lock_json_total
  by (cases "Lock r") (fastforce simp: response_json_def Let_def lock_dated_def)+

lemma reply_ok_respondJSON:
  assumes "lock_dated lo" "code \<in> {200, 400, 404, 409, 500}" "code \<in> {400, 404, 500} \<longrightarrow> lo = None"
    "code = 409 \<longrightarrow> lo \<noteq> None" "w = status_word code lo"
  shows "reply_ok (deliver (map HMetric ms @ respondJSON code \<lparr>Status = w, Message = m, Lock = lo\<rparr>))"
proof -
  obtain j where j: "response_json \<lparr>Status = w, Message = m, Lock = lo\<rparr> = Inr j"
    using response_json_total [of "\<lparr>Status = w, Message = m, Lock = lo\<rparr>"] assms(1) by auto
  have "decode_first (print j @ [CHR 0x0A]) = Some j"
    using reply_body_decodes response_json_wf [OF j] by (simp add: max_depth_def)
  with j assms(2-) show ?thesis
    unfolding reply_ok_def by (intro conjI exI [of _ code] exI [of _ m] exI [of _ lo] exI [of _ j])
      (simp_all add: deliver_respondJSON)
qed

lemma reply_ok_error:
  "code \<in> {400, 500} \<Longrightarrow> reply_ok (deliver (map HMetric ms @ respondError code m))"
  unfolding respondError_def by (rule reply_ok_respondJSON) (auto simp: status_word_def lock_dated_def)

lemma reply_ok_lock:
  "time_ok (CreatedAt l) \<Longrightarrow> code \<in> {200, 409} \<Longrightarrow>
     reply_ok (deliver (map HMetric ms @ respondLock code ''locked'' m (Some l)))"
  unfolding respondLock_def by (rule reply_ok_respondJSON) (auto simp: status_word_def lock_dated_def)

lemma reply_ok_unlocked:
  "code \<in> {200, 404} \<Longrightarrow> reply_ok (deliver (map HMetric ms @ respondJSON code
     \<lparr>Status = ''unlocked'', Message = m, Lock = None\<rparr>))"
  by (rule reply_ok_respondJSON) (auto simp: status_word_def lock_dated_def)

lemmas reply_ok_rules = reply_ok_error reply_ok_lock reply_ok_unlocked

section \<open>What a program's result satisfies\<close>

text \<open>
  \<open>d\<close>: the map, which the store has opened; \<open>G\<close>: what a value under a key satisfies; \<open>R\<close>: what the
  result then satisfies.  No error of Olric is one of the service's own.
\<close>

primrec ensures :: "string \<Rightarrow> (string \<Rightarrow> go_value \<Rightarrow> bool) \<Rightarrow> ('a \<Rightarrow> bool) \<Rightarrow> 'a prog \<Rightarrow> bool" where
  "ensures d G R (Ret a) = R a"
| "ensures d G R (Load k) = ensures d G R (k (Some d))"
| "ensures d G R (Save h p) = ensures d G R p"
| "ensures d G R (ClientNewDMap n k) = (\<forall>r. ensures d G R (k r))"
| "ensures d G R (DMapGet n key k) =
     (\<forall>r. (case r of Inl e \<Rightarrow> \<not> own_error e | Inr (Inl e) \<Rightarrow> \<not> own_error e
       | Inr (Inr x) \<Rightarrow> n = d \<longrightarrow> G key (GStr x)) \<longrightarrow> ensures d G R (k r))"
| "ensures d G R (DMapPut n key v ttl k) =
     (\<forall>r. (\<forall>e. r = Some e \<longrightarrow> \<not> own_error e) \<longrightarrow> ensures d G R (k r))"
| "ensures d G R (DMapDelete n key k) = (\<forall>r. ensures d G R (k r))"
| "ensures d G R (ClientMembers k) = (\<forall>r. ensures d G R (k r))"
| "ensures d G R (ClientStats n k) = (\<forall>r. ensures d G R (k r))"
| "ensures d G R (DbShutdown k) = (\<forall>r. ensures d G R (k r))"
| "ensures d G R (Now k) = (\<forall>t. time_ok t \<longrightarrow> ensures d G R (k t))"

lemma ensures_seq:
  "ensures d G Q m \<Longrightarrow> (\<And>a. Q a \<Longrightarrow> ensures d G R (f a)) \<Longrightarrow> ensures d G R (seq m f)"
  by (induction m) auto

text \<open>The invariant of the map: every entry satisfies \<open>G\<close>.\<close>

definition all_entries :: "(string \<Rightarrow> go_value \<Rightarrow> bool) \<Rightarrow> (string \<Rightarrow> go_value option) \<Rightarrow> bool" where
  "all_entries G m \<longleftrightarrow> (\<forall>k v. m k = Some v \<longrightarrow> G k v)"

lemma all_entries_changes: "all_entries G m \<Longrightarrow> changes G D m m' \<Longrightarrow> all_entries G m'"
  by (auto simp: all_entries_def changes_def split: if_splits)

lemma tidy_all_entries: "tidy (table m) = all_entries lock_entry m"
proof -
  have "(case slot_of (m k) of Free \<Rightarrow> True | Held l \<Rightarrow> Project l = k \<and> Owner l = owner \<and> time_ok (CreatedAt l)
      | Corrupt \<Rightarrow> False) = (\<forall>v. m k = Some v \<longrightarrow> lock_entry k v)" for k
    by (auto simp: slot_of_def lock_entry_def split: option.splits sum.splits)
  then show ?thesis by (simp add: tidy_def all_entries_def table_def)
qed

context olric_node
begin

lemma ensures_effect:
  assumes "ensures (this_map os) G R p" "ready os s" "all_entries G (content s)"
    and "effect api p s = (p', s')"
  shows "ensures (this_map os) G R p'"
proof (cases p)
  case (DMapGet n key k)
  obtain r w where r: "api_Get api n key (ext s) = (r, w)" by (meson surj_pair)
  then have "p' = k r" using assms(4) DMapGet by (auto simp: call_def)
  moreover have "case r of Inl e \<Rightarrow> \<not> own_error e | Inr (Inl e) \<Rightarrow> \<not> own_error e
      | Inr (Inr x) \<Rightarrow> n = this_map os \<longrightarrow> G key (GStr x)"
    using r get_own [of n key "ext s"] get_scan [of n key "ext s"] get_found [of n key "ext s"] assms(3)
    by (auto simp: all_entries_def store_content_def split: sum.splits)
  ultimately show ?thesis using assms(1) DMapGet by simp
next
  case (DMapPut n key v ttl k)
  obtain r w where r: "api_Put api n key v ttl (ext s) = (r, w)" by (meson surj_pair)
  then have "p' = k r" using assms(4) DMapPut by (auto simp: call_def)
  moreover have "\<not> own_error e" if "r = Some e" for e using put_own r that by blast
  ultimately show ?thesis using assms(1) DMapPut by simp
next
  case (Now k)
  with now_ok [of "ext s"] assms(1,4) show ?thesis by (auto simp: call_def split: prod.splits)
qed (use assms in \<open>auto simp: call_def ready_def split: prod.splits\<close>)

lemma ensures_reaches:
  assumes "reaches api (ps, s) c" "ready os s" "all_entries G (content s)"
    and "list_all (\<lambda>p. guarded (this_map os) G D p \<and> ensures (this_map os) G R p) ps"
  shows "ready os (snd c) \<and> all_entries G (content (snd c)) \<and>
    list_all (\<lambda>p. guarded (this_map os) G D p \<and> ensures (this_map os) G R p) (fst c)"
  using assms
proof (induction "(ps, s)" c rule: reaches.induct)
  case (later c' c'')
  from later.hyps(3) obtain qs t j q t' where m: "c' = (qs, t)" "j < length qs" "effect api (qs ! j) t = (q, t')"
    "c'' = (qs[j := q], t')"
    by (cases rule: moves.cases) auto
  from later.hyps(2) [OF later.prems] m have ih: "ready os t" "all_entries G (content t)"
    "list_all (\<lambda>p. guarded (this_map os) G D p \<and> ensures (this_map os) G R p) qs" by auto
  then have q: "guarded (this_map os) G D (qs ! j)" "ensures (this_map os) G R (qs ! j)"
    using m(2) by (auto simp: list_all_length)
  have "handle_ok os t" using ih(1) by (simp add: ready_def handle_ok_def)
  from guarded_effect [OF q(1) this m(3)] guarded_ready [OF q(1) ih(1) m(3)]
    ensures_effect [OF q(2) ih(1,2) m(3)] all_entries_changes [OF ih(2)] ih(3) m(4) show ?case
    by (auto simp: list_all_iff dest!: set_update_subset_insert [THEN subsetD])
qed simp

end

section \<open>The replies of the endpoints\<close>

lemma ensures_getDMap: "ensures (this_map os) G (\<lambda>r. r = Inr (this_map os)) (getDMap os)"
  by (simp add: getDMap_def)

definition reads_ok :: "(string \<Rightarrow> go_value \<Rightarrow> bool) \<Rightarrow> string \<Rightarrow> go_error + go_value \<Rightarrow> bool" where
  "reads_ok G k r \<longleftrightarrow> (case r of Inl e \<Rightarrow> \<not> own_error e | Inr v \<Rightarrow> G k v)"

lemma ensures_Get: "ensures (this_map os) G (reads_ok G k) (st_Get (as_Store os) k)"
  unfolding as_Store_def olric_Get_def and_then_def store.simps
  by (rule ensures_seq [OF ensures_getDMap]) (auto simp: reads_ok_def split: sum.splits)

definition dated :: "go_error + lock \<Rightarrow> bool" where
  "dated g \<longleftrightarrow> (case g of
     Inl e \<Rightarrow> e = ErrLockNotFound \<or> \<not> own_error e | Inr l \<Rightarrow> time_ok (CreatedAt l))"

lemma ensures_GetLock: "ensures (this_map os) lock_entry dated (GetLock (as_Store os) p)"
proof (cases "p = []")
  case False
  then show ?thesis
    unfolding GetLock_def
    by (simp, intro ensures_seq [OF ensures_Get])
      (auto simp: dated_def reads_ok_def lock_entry_def read_lock_own split: sum.splits)
qed (simp add: GetLock_def dated_def)

definition acquired_ok :: "lock option \<times> go_error option \<Rightarrow> bool" where
  "acquired_ok a \<longleftrightarrow> lock_dated (fst a) \<and>
     (fst a = None \<longrightarrow> (\<exists>e. snd a = Some e \<and> \<not> errors_Is e ErrLockConflict))"

lemma acquired_ok_simps:
  "time_ok (CreatedAt l) \<Longrightarrow> acquired_ok (holder_check b w l)"
  "time_ok (CreatedAt l) \<Longrightarrow> acquired_ok (Some l, None)"
  "acquired_ok (None, Some e) = (\<not> errors_Is e ErrLockConflict)"
  by (auto simp: acquired_ok_def holder_check_def lock_dated_def)

lemma NotFound_no_Conflict [simp]: "\<not> errors_Is ErrLockNotFound ErrLockConflict"
  by (simp add: ErrLockNotFound_def ErrLockConflict_def)

lemma ensures_create_lock: "ensures (this_map os) lock_entry acquired_ok (create_lock (as_Store os) p b w)"
proof -
  have race: "ensures (this_map os) lock_entry acquired_ok (seq (GetLock (as_Store os) p) (\<lambda>r. Ret (case r of
      Inl err \<Rightarrow> (None, Some (Wrap ''failed to get lock after race'' err))
    | Inr existingLock \<Rightarrow> holder_check b w existingLock)))"
    by (rule ensures_seq [OF ensures_GetLock]) (auto simp: dated_def acquired_ok_simps split: sum.splits)
  have put: "ensures (this_map os) lock_entry (\<lambda>r. \<forall>e. r = Inl e \<longrightarrow> \<not> own_error e)
      (st_PutIfAbsent (as_Store os) p v ttl)" for v ttl
    unfolding as_Store_def olric_PutIfAbsent_def and_then_def store.simps
    by (rule ensures_seq [OF ensures_getDMap]) (auto split: sum.splits option.splits)
  have "json_Marshal \<lparr>Project = p, Branch = b, CreatedAt = t, Owner = w\<rparr> \<noteq> Inl e" if "time_ok t" for t e
    using marshal_time_ok [of "\<lparr>Project = p, Branch = b, CreatedAt = t, Owner = w\<rparr>"] that by auto
  then show ?thesis
    unfolding create_lock_def
    by (auto simp: Let_def acquired_ok_simps
        intro!: ensures_seq [OF put] race split: sum.splits)
qed

lemma ensures_AcquireLock: "ensures (this_map os) lock_entry acquired_ok (AcquireLock (as_Store os) p b w)"
  unfolding AcquireLock_def
  by (auto simp: acquired_ok_simps dated_def intro!: ensures_seq [OF ensures_GetLock] ensures_create_lock
      split: sum.splits)

lemma ensures_ReleaseLock: "ensures (this_map os) G (\<lambda>_. True) (ReleaseLock (as_Store os) p b w)"
  unfolding ReleaseLock_def as_Store_def olric_Delete_def store.simps
  by (auto intro!: ensures_seq [OF ensures_seq [OF ensures_getDMap]])

lemma reply_ok_replies:
  "reply_ok (deliver (invalid_reply h op m))"
  "acquired_ok a \<Longrightarrow> reply_ok (deliver (lock_reply h a))"
  "reply_ok (deliver (unlock_reply h e))"
  "dated g \<Longrightarrow> reply_ok (deliver (get_reply h g))"
  by (auto simp: invalid_reply_def lock_reply_def unlock_reply_def get_reply_def acquired_ok_def lock_dated_def
      dated_def intro!: reply_ok_rules split: option.splits sum.splits prod.splits)

lemma ensures_serve:
  assumes "h_lockManager h = olric_locks os"
  shows "ensures (this_map os) lock_entry (\<lambda>evs. reply_ok (deliver evs)) (serve h c)"
proof (cases c)
  case (CallLock r)
  then show ?thesis
    using HandleLock_invalid [of r h] HandleLock_valid [of r _ _ h] assms
    by (cases "lock_target r")
      (auto simp: olric_locks_def reply_ok_replies intro!: ensures_seq [OF ensures_AcquireLock])
next
  case (CallUnlock r)
  then show ?thesis
    using HandleUnlock_invalid [of r h] HandleUnlock_valid [of r _ _ h] assms
    by (cases "unlock_target r")
      (auto simp: olric_locks_def reply_ok_replies intro!: ensures_seq [OF ensures_ReleaseLock])
next
  case (CallGet r)
  then show ?thesis
    using HandleGetLock_invalid [of r h] HandleGetLock_valid [of r _ h] assms
    by (cases "clean_name (rq_project r)")
      (auto simp: olric_locks_def reply_ok_replies intro!: ensures_seq [OF ensures_GetLock])
qed

text \<open>From a tidy map every reply of every request is well formed, and the map stays tidy.\<close>

lemma replies_typed:
  assumes "olric_dmap api view" "h_lockManager h = olric_locks os" "ready os s" "tidy (locks view os s)"
    and "reaches api (map (serve h) cs, s) (ps, s')"
  shows "tidy (locks view os s') \<and> (\<forall>i evs. i < length ps \<longrightarrow> ps ! i = Ret evs \<longrightarrow> reply_ok (deliver evs))"
proof -
  have "list_all (\<lambda>p. guarded (this_map os) lock_entry (\<lambda>_. True) p \<and>
      ensures (this_map os) lock_entry (\<lambda>evs. reply_ok (deliver evs)) p) (map (serve h) cs)"
    using guarded_serve [OF assms(2), of _ lock_entry "\<lambda>_. True"] ensures_serve [OF assms(2)]
    by (simp add: list_all_iff)
  from olric_node.ensures_reaches [OF olric_node.intro [OF assms(1)] assms(5,3) _ this] assms(4)
  have "tidy (locks view os s')" "list_all (ensures (this_map os) lock_entry (\<lambda>evs. reply_ok (deliver evs))) ps"
    by (auto simp: locks_def tidy_all_entries list_all_iff)
  then show ?thesis by (fastforce simp: list_all_length)
qed

end
