(* ===== verification/Clock.thy ===== *)
theory Clock
  imports Effects
begin

text \<open>One reading of the clock: what it gives and what it leaves.\<close>

definition clock :: "'w olric \<Rightarrow> 'w node \<Rightarrow> go_time" where
  "clock api s = fst (api_Now api (ext s))"

definition tick :: "'w olric \<Rightarrow> 'w node \<Rightarrow> 'w node" where
  "tick api s = s\<lparr>ext := snd (api_Now api (ext s))\<rparr>"

lemma call_Now [simp]: "call (api_Now api) s = (clock api s, tick api s)"
  by (simp add: call_def clock_def tick_def split: prod.splits)

end
