(* ===== verification/Health.thy ===== *)
theory Health
  imports Http OlricRef Clock "HOL-Library.AList" "HOL-Library.List_Lexorder" "HOL-Library.Char_ord"
begin

text \<open>
  Health checks: \<open>internal/health/health.go\<close>, \<open>checker.go\<close> and \<open>manager.go\<close>.  The two checkers of the
  package are objects that the manager's setters change, so a checker is a reference and the
  objects are part of the state; any other checker is a name and a program.  Every reading of the
  clock is a \<open>Now\<close>.  \<open>CheckAll\<close> runs its checks in goroutines; here they run one after the other, in
  an order that is an argument, and results are collected in that order.  The timeout of a check
  is a failure of the calls the check makes.
\<close>

section \<open>Data\<close>

datatype status = StatusOK | StatusStarting | StatusNotReady | StatusError

fun status_text :: "status \<Rightarrow> string" where
  "status_text StatusOK = ''ok''"
| "status_text StatusStarting = ''starting''"
| "status_text StatusNotReady = ''not-ready''"
| "status_text StatusError = ''error''"

record check_result =
  cr_Name :: string
  cr_Status :: status
  cr_Message :: string
  cr_Timestamp :: go_time
  cr_Duration :: int

record startup_response =
  su_Status :: status
  su_Timestamp :: go_time
  su_Checks :: "(string \<times> status) list"

record liveness_response =
  lv_Status :: status
  lv_Timestamp :: go_time

record readiness_response =
  rd_Status :: status
  rd_Timestamp :: go_time
  rd_Ready :: bool

section \<open>The checkers of the package\<close>

record server_checker =
  sc_serversRunning :: bool

record readiness_checker =
  rc_shuttingDown :: bool
  rc_serversRunning :: bool

definition NewServerChecker :: server_checker where
  "NewServerChecker = \<lparr>sc_serversRunning = False\<rparr>"

definition NewReadinessChecker :: readiness_checker where
  "NewReadinessChecker = \<lparr>rc_shuttingDown = False, rc_serversRunning = False\<rparr>"

definition server_SetRunning :: "bool \<Rightarrow> server_checker \<Rightarrow> server_checker" where
  "server_SetRunning running s = s\<lparr>sc_serversRunning := running\<rparr>"

definition readiness_SetRunning :: "bool \<Rightarrow> readiness_checker \<Rightarrow> readiness_checker" where
  "readiness_SetRunning running r = r\<lparr>rc_serversRunning := running\<rparr>"

definition readiness_SetShuttingDown :: "bool \<Rightarrow> readiness_checker \<Rightarrow> readiness_checker" where
  "readiness_SetShuttingDown shutDown r = r\<lparr>rc_shuttingDown := shutDown\<rparr>"

text \<open>\<open>time.Since\<close> reads the clock; a field initialiser is evaluated in the order written.\<close>

definition server_Check :: "server_checker \<Rightarrow> check_result prog" where
  "server_Check s = Now (\<lambda>start. Now (\<lambda>timestamp. Now (\<lambda>now.
     let result = \<lparr>cr_Name = ''servers'', cr_Status = StatusOK, cr_Message = ''All servers running'',
       cr_Timestamp = timestamp, cr_Duration = time_Sub now start\<rparr>
     in Ret (if \<not> sc_serversRunning s
             then result\<lparr>cr_Status := StatusStarting, cr_Message := ''Servers starting''\<rparr>
             else result))))"

definition readiness_Check :: "readiness_checker \<Rightarrow> check_result prog" where
  "readiness_Check r = Now (\<lambda>start. Now (\<lambda>timestamp. Now (\<lambda>now.
     let result = \<lparr>cr_Name = ''readiness'', cr_Status = StatusOK, cr_Message = ''Service ready'',
       cr_Timestamp = timestamp, cr_Duration = time_Sub now start\<rparr>
     in Ret (if rc_shuttingDown r
             then result\<lparr>cr_Status := StatusNotReady, cr_Message := ''Service shutting down''\<rparr>
             else if \<not> rc_serversRunning r
             then result\<lparr>cr_Status := StatusNotReady, cr_Message := ''Service not ready''\<rparr>
             else result))))"

section \<open>The manager\<close>

datatype checker =
    ServerChecker nat
  | ReadinessChecker nat
  | OtherChecker string "check_result prog"

record cached_result =
  cc_result :: check_result
  cc_expiresAt :: go_time

record manager =
  mg_checkers :: "(string \<times> checker) list"
  mg_cache :: "string \<Rightarrow> cached_result option"
  mg_cacheDuration :: int
  mg_checkTimeout :: int
  mg_serverChecker :: "nat option"
  mg_readinessChecker :: "nat option"
  server_objs :: "nat \<Rightarrow> server_checker"
  readiness_objs :: "nat \<Rightarrow> readiness_checker"

definition NewManager :: "int \<Rightarrow> int \<Rightarrow> manager" where
  "NewManager cacheDuration checkTimeout = \<lparr>mg_checkers = [], mg_cache = (\<lambda>_. None),
     mg_cacheDuration = cacheDuration, mg_checkTimeout = checkTimeout,
     mg_serverChecker = None, mg_readinessChecker = None,
     server_objs = (\<lambda>_. NewServerChecker), readiness_objs = (\<lambda>_. NewReadinessChecker)\<rparr>"

fun checker_Name :: "checker \<Rightarrow> string" where
  "checker_Name (ServerChecker _) = ''servers''"
| "checker_Name (ReadinessChecker _) = ''readiness''"
| "checker_Name (OtherChecker n _) = n"

fun checker_Check :: "manager \<Rightarrow> checker \<Rightarrow> check_result prog" where
  "checker_Check m (ServerChecker a) = server_Check (server_objs m a)"
| "checker_Check m (ReadinessChecker a) = readiness_Check (readiness_objs m a)"
| "checker_Check m (OtherChecker _ check) = check"

definition RegisterChecker :: "manager \<Rightarrow> checker \<Rightarrow> manager" where
  "RegisterChecker m c =
     (let m = m\<lparr>mg_checkers := AList.update (checker_Name c) c (mg_checkers m)\<rparr>
      in case c of
           ServerChecker a \<Rightarrow> m\<lparr>mg_serverChecker := Some a\<rparr>
         | ReadinessChecker a \<Rightarrow> m\<lparr>mg_readinessChecker := Some a\<rparr>
         | OtherChecker _ _ \<Rightarrow> m)"

definition SetServersRunning :: "manager \<Rightarrow> bool \<Rightarrow> manager" where
  "SetServersRunning m running =
     (let m1 = (case mg_serverChecker m of
            None \<Rightarrow> m
          | Some a \<Rightarrow> m\<lparr>server_objs := (server_objs m)(a := server_SetRunning running (server_objs m a))\<rparr>)
      in case mg_readinessChecker m1 of
           None \<Rightarrow> m1
         | Some a \<Rightarrow> m1\<lparr>readiness_objs :=
             (readiness_objs m1)(a := readiness_SetRunning running (readiness_objs m1 a))\<rparr>)"

definition SetShuttingDown :: "manager \<Rightarrow> bool \<Rightarrow> manager" where
  "SetShuttingDown m shutDown = (case mg_readinessChecker m of
     None \<Rightarrow> m
   | Some a \<Rightarrow> m\<lparr>readiness_objs :=
       (readiness_objs m)(a := readiness_SetShuttingDown shutDown (readiness_objs m a))\<rparr>)"

definition getCachedResult :: "manager \<Rightarrow> string \<Rightarrow> check_result option prog" where
  "getCachedResult m name = (case mg_cache m name of
     Some cached \<Rightarrow> Now (\<lambda>now. Ret
       (if time_Before now (cc_expiresAt cached) then Some (cc_result cached) else None))
   | None \<Rightarrow> Ret None)"

definition cacheResult :: "manager \<Rightarrow> string \<Rightarrow> check_result \<Rightarrow> manager prog" where
  "cacheResult m name result = Now (\<lambda>now. Ret (m\<lparr>mg_cache := (mg_cache m)(name \<mapsto>
     \<lparr>cc_result = result, cc_expiresAt = time_Add now (mg_cacheDuration m)\<rparr>)\<rparr>))"

definition runCheck :: "manager \<Rightarrow> checker \<Rightarrow> (check_result \<times> manager) prog" where
  "runCheck m c = (let name = checker_Name c in
     seq (getCachedResult m name) (\<lambda>cached. case cached of
       Some result \<Rightarrow> Ret (result, m)
     | None \<Rightarrow> seq (checker_Check m c) (\<lambda>result.
         seq (cacheResult m name result) (\<lambda>m'. Ret (result, m')))))"

text \<open>\<open>order\<close>: the names of the checkers in the order in which their goroutines run.\<close>

fun CheckAll :: "manager \<Rightarrow> string list \<Rightarrow> (check_result list \<times> manager) prog" where
  "CheckAll m [] = Ret ([], m)"
| "CheckAll m (name # order) = (case map_of (mg_checkers m) name of
     None \<Rightarrow> CheckAll m order
   | Some c \<Rightarrow> seq (runCheck m c) (\<lambda>(result, m').
       seq (CheckAll m' order) (\<lambda>(results, m''). Ret (result # results, m''))))"

definition add_result :: "check_result \<Rightarrow> status \<times> (string \<times> status) list \<times> bool \<Rightarrow>
    status \<times> (string \<times> status) list \<times> bool" where
  "add_result result acc = (case acc of (status, checks, allOK) \<Rightarrow>
     (let checks = AList.update (cr_Name result) (cr_Status result) checks;
          allOK = (if cr_Status result \<noteq> StatusOK then False else allOK);
          status = (if cr_Status result = StatusStarting then StatusStarting else status);
          status = (if cr_Status result = StatusError then StatusError else status)
      in (status, checks, allOK)))"

definition GetStartupStatus :: "manager \<Rightarrow> string list \<Rightarrow> (startup_response \<times> manager) prog" where
  "GetStartupStatus m order = seq (CheckAll m order) (\<lambda>(results, m'). Now (\<lambda>now.
     case fold add_result results (StatusOK, [], True) of (status, checks, allOK) \<Rightarrow>
       Ret (\<lparr>su_Status = (if allOK then StatusOK else status), su_Timestamp = now,
             su_Checks = checks\<rparr>, m')))"

definition GetLivenessStatus :: "liveness_response prog" where
  "GetLivenessStatus = Now (\<lambda>now. Ret \<lparr>lv_Status = StatusOK, lv_Timestamp = now\<rparr>)"

definition GetReadinessStatus :: "manager \<Rightarrow> (readiness_response \<times> manager) prog" where
  "GetReadinessStatus m = seq
     (case mg_readinessChecker m of
        Some a \<Rightarrow> runCheck m (ReadinessChecker a)
      | None \<Rightarrow> Now (\<lambda>now. Ret (\<lparr>cr_Name = ''readiness'', cr_Status = StatusOK, cr_Message = [],
          cr_Timestamp = now, cr_Duration = 0\<rparr>, m)))
     (\<lambda>(result, m'). Ret (\<lparr>rd_Status = cr_Status result, rd_Timestamp = cr_Timestamp result,
        rd_Ready = (cr_Status result = StatusOK)\<rparr>, m'))"

section \<open>The cache\<close>

text \<open>A cached result counts as long as the clock is before its expiry.\<close>

definition cache_hit :: "manager \<Rightarrow> string \<Rightarrow> go_time \<Rightarrow> check_result option" where
  "cache_hit m name now = (case mg_cache m name of
     Some c \<Rightarrow> if time_Before now (cc_expiresAt c) then Some (cc_result c) else None
   | None \<Rightarrow> None)"

text \<open>Everything of a manager but its cache: no check changes it.\<close>

definition same_setup :: "manager \<Rightarrow> manager \<Rightarrow> bool" where
  "same_setup m m' \<longleftrightarrow> m' = m\<lparr>mg_cache := mg_cache m'\<rparr>"

lemma same_setup_fields:
  assumes "same_setup m m'"
  shows "mg_checkers m' = mg_checkers m" "mg_cacheDuration m' = mg_cacheDuration m"
    "mg_serverChecker m' = mg_serverChecker m" "mg_readinessChecker m' = mg_readinessChecker m"
    "server_objs m' = server_objs m" "readiness_objs m' = readiness_objs m"
  using assms unfolding same_setup_def by (metis manager.select_convs manager.surjective manager.update_convs(2))+

lemma same_setup_refl [simp]: "same_setup m m"
  by (simp add: same_setup_def)

lemma same_setup_trans: "same_setup m m' \<Longrightarrow> same_setup m' m'' \<Longrightarrow> same_setup m m''"
  unfolding same_setup_def by (metis manager.surjective manager.update_convs(2))

text \<open>A check is answered from the cache, with one look at the clock, or run and then cached.\<close>

definition run_fresh :: "'w olric \<Rightarrow> manager \<Rightarrow> checker \<Rightarrow> 'w node \<Rightarrow> (check_result \<times> manager) \<times> 'w node" where
  "run_fresh api m c s = (case run api (checker_Check m c) s of (r, s1) \<Rightarrow>
     ((r, m\<lparr>mg_cache := (mg_cache m)(checker_Name c \<mapsto>
        \<lparr>cc_result = r, cc_expiresAt = time_Add (clock api s1) (mg_cacheDuration m)\<rparr>)\<rparr>), tick api s1))"

lemma run_runCheck:
  "run api (runCheck m c) s =
     (if mg_cache m (checker_Name c) = None then run_fresh api m c s
      else case cache_hit m (checker_Name c) (clock api s) of
        Some r \<Rightarrow> ((r, m), tick api s)
      | None \<Rightarrow> run_fresh api m c (tick api s))"
  by (simp add: runCheck_def Let_def getCachedResult_def cacheResult_def cache_hit_def prog_simps
      run_fresh_def split: option.splits prod.splits)

lemma run_fresh_frame:
  assumes "run_fresh api m c s = ((r, m'), s')"
  shows "same_setup m m' \<and> (\<forall>n. n \<noteq> checker_Name c \<longrightarrow> mg_cache m' n = mg_cache m n) \<and>
    (\<exists>e. mg_cache m' (checker_Name c) = Some e \<and> cc_result e = r)"
  using assms by (auto simp: run_fresh_def same_setup_def split: prod.splits)

lemma runCheck_frame:
  assumes "run api (runCheck m c) s = ((r, m'), s')"
  shows "same_setup m m' \<and> (\<forall>n. n \<noteq> checker_Name c \<longrightarrow> mg_cache m' n = mg_cache m n) \<and>
    (\<exists>e. mg_cache m' (checker_Name c) = Some e \<and> cc_result e = r)"
proof (cases "cache_hit m (checker_Name c) (clock api s)")
  case None
  then obtain s0 where "run_fresh api m c s0 = ((r, m'), s')"
    using assms by (auto simp: run_runCheck split: if_splits)
  then show ?thesis by (rule run_fresh_frame)
next
  case (Some r')
  then obtain e where "mg_cache m (checker_Name c) = Some e" "cc_result e = r'"
    by (auto simp: cache_hit_def split: option.splits if_splits)
  with Some assms show ?thesis by (auto simp: run_runCheck)
qed

lemma CheckAll_setup: "run api (CheckAll m order) s = ((rs, m'), s') \<Longrightarrow> same_setup m m'"
proof (induction m order arbitrary: rs s m' s' rule: CheckAll.induct)
  case (2 m name order)
  show ?case
  proof (cases "map_of (mg_checkers m) name")
    case None
    with 2 show ?thesis by simp
  next
    case (Some c)
    obtain r m1 s1 where r: "run api (runCheck m c) s = ((r, m1), s1)" by (metis surj_pair)
    obtain rs1 m2 s2 where rs: "run api (CheckAll m1 order) s1 = ((rs1, m2), s2)" by (metis surj_pair)
    from 2(2) [OF Some] rs have "same_setup m1 m2" by blast
    moreover from "2.prems" Some r rs have "m' = m2" by (simp add: prog_simps)
    ultimately show ?thesis using same_setup_trans runCheck_frame [OF r] by blast
  qed
qed simp

section \<open>The probes\<close>

text \<open>
  The startup verdict as a function of the statuses alone: the last of the results that is
  starting or an error, and ok if there is none.
\<close>

fun startup_verdict :: "status list \<Rightarrow> status" where
  "startup_verdict [] = StatusOK"
| "startup_verdict (st # sts) =
     (let rest = startup_verdict sts in
      if rest = StatusOK \<and> st \<in> {StatusStarting, StatusError} then st else rest)"

lemma startup_verdict_OK:
  "startup_verdict sts = StatusOK \<longleftrightarrow> (\<forall>st \<in> set sts. st \<noteq> StatusStarting \<and> st \<noteq> StatusError)"
  by (induction sts) (auto simp: Let_def)

lemma add_result_eq:
  "add_result r (st, checks, ok) =
     ((if cr_Status r \<in> {StatusStarting, StatusError} then cr_Status r else st),
      AList.update (cr_Name r) (cr_Status r) checks, ok \<and> cr_Status r = StatusOK)"
  by (auto simp: add_result_def Let_def)

lemma fold_add_result:
  "fold add_result rs (status, checks, allOK) =
     ((if startup_verdict (map cr_Status rs) = StatusOK then status else startup_verdict (map cr_Status rs)),
      AList.updates (map cr_Name rs) (map cr_Status rs) checks,
      allOK \<and> (\<forall>r \<in> set rs. cr_Status r = StatusOK))"
proof (induction rs arbitrary: status checks allOK)
  case (Cons r rs)
  show ?case
    by (cases "cr_Status r") (simp_all add: add_result_eq Cons.IH Let_def)
qed simp

lemma run_GetStartupStatus:
  "run api (GetStartupStatus m order) s = (case run api (CheckAll m order) s of ((rs, m'), s') \<Rightarrow>
     ((\<lparr>su_Status = startup_verdict (map cr_Status rs), su_Timestamp = clock api s',
        su_Checks = AList.updates (map cr_Name rs) (map cr_Status rs) []\<rparr>, m'), tick api s'))"
proof -
  have ok: "(if \<forall>r \<in> set rs. cr_Status r = StatusOK then StatusOK else startup_verdict (map cr_Status rs)) =
      startup_verdict (map cr_Status rs)" for rs
    using startup_verdict_OK [of "map cr_Status rs"] by auto
  show ?thesis
    by (simp add: GetStartupStatus_def prog_simps fold_add_result ok split: prod.splits)
qed

lemma run_server_Check:
  "\<exists>r s'. run api (server_Check c) s = (r, s') \<and> cr_Name r = ''servers'' \<and>
     cr_Status r = (if sc_serversRunning c then StatusOK else StatusStarting)"
  by (simp add: server_Check_def Let_def)

definition readiness_verdict :: "readiness_checker \<Rightarrow> status" where
  "readiness_verdict c =
     (if rc_serversRunning c \<and> \<not> rc_shuttingDown c then StatusOK else StatusNotReady)"

lemma run_readiness_Check:
  "\<exists>r s'. run api (readiness_Check c) s = (r, s') \<and> cr_Name r = ''readiness'' \<and>
     cr_Status r = readiness_verdict c"
  by (simp add: readiness_Check_def Let_def readiness_verdict_def)

lemma run_GetReadinessStatus:
  assumes "mg_readinessChecker m = Some a"
  shows "\<exists>resp m' s'. run api (GetReadinessStatus m) s = ((resp, m'), s') \<and>
    rd_Ready resp = (rd_Status resp = StatusOK) \<and>
    rd_Status resp = (case cache_hit m ''readiness'' (clock api s) of
        Some r \<Rightarrow> cr_Status r | None \<Rightarrow> readiness_verdict (readiness_objs m a))"
proof -
  have fresh: "\<exists>r m' s'. run_fresh api m (ReadinessChecker a) s0 = ((r, m'), s') \<and>
      cr_Status r = readiness_verdict (readiness_objs m a)" for s0
    using run_readiness_Check [of api "readiness_objs m a" s0] by (auto simp: run_fresh_def)
  show ?thesis
  proof (cases "mg_cache m ''readiness'' = None")
    case True
    with assms fresh [of s] show ?thesis
      by (auto simp: GetReadinessStatus_def prog_simps run_runCheck cache_hit_def)
  next
    case False
    with assms fresh [of "tick api s"] show ?thesis
      by (cases "cache_hit m ''readiness'' (clock api s)")
        (auto simp: GetReadinessStatus_def prog_simps run_runCheck)
  qed
qed

lemma Before_Add: "time_Before now (time_Add t d) \<longleftrightarrow> time_Sub now t < d"
  by (auto simp: time_Before_def time_Add_def time_Sub_def split: option.splits)

text \<open>
  C33.  The startup probe's status is decided by the results of \<open>CheckAll\<close> alone: the last of them
  that is starting or an error, in the order in which they arrive.  It is ok exactly when no result
  is one of these two; a check that answers not-ready does not keep the probe from ok.
\<close>

theorem startup_status:
  "let rs = fst (fst (run api (CheckAll m order) s));
       resp = fst (fst (run api (GetStartupStatus m order) s))
   in su_Status resp = startup_verdict (map cr_Status rs) \<and>
      (su_Status resp = StatusOK) = list_all (\<lambda>r. cr_Status r \<in> {StatusOK, StatusNotReady}) rs \<and>
      map_of (su_Checks resp) = (map_of (AList.updates (map cr_Name rs) (map cr_Status rs) []))"
proof -
  have "startup_verdict (map cr_Status rs) = StatusOK \<longleftrightarrow>
      list_all (\<lambda>r. cr_Status r \<in> {StatusOK, StatusNotReady}) rs" for rs
    unfolding startup_verdict_OK list_all_iff by (auto intro: status.exhaust)
  then show ?thesis by (auto simp: run_GetStartupStatus Let_def split: prod.splits)
qed

text \<open>
  C34.  The readiness probe after the service has been marked as shutting down: not ready, unless a
  result from before is still in the cache, which is then repeated.
\<close>

theorem readiness_when_draining:
  assumes "mg_readinessChecker m = Some a"
  shows "\<exists>resp m' s'. run api (GetReadinessStatus (SetShuttingDown m True)) s = ((resp, m'), s') \<and>
    rd_Ready resp = (rd_Status resp = StatusOK) \<and>
    rd_Status resp = (case cache_hit m ''readiness'' (clock api s) of
        Some r \<Rightarrow> cr_Status r | None \<Rightarrow> StatusNotReady)"
proof -
  define m1 where "m1 = SetShuttingDown m True"
  have m1: "mg_readinessChecker m1 = Some a" "cache_hit m1 = cache_hit m"
      "readiness_verdict (readiness_objs m1 a) = StatusNotReady"
    using assms by (auto simp: m1_def SetShuttingDown_def cache_hit_def readiness_verdict_def
        readiness_SetShuttingDown_def fun_eq_iff)
  show ?thesis
    using run_GetReadinessStatus [OF m1(1), of api s] unfolding m1(2,3) unfolding m1_def .
qed

definition sample_manager :: manager where
  "sample_manager = RegisterChecker (RegisterChecker (NewManager 0 Second) (ServerChecker 0)) (ReadinessChecker 0)"

lemma sample_manager_refs:
  "mg_readinessChecker sample_manager = Some 0" "mg_serverChecker sample_manager = Some 0"
  by (simp_all add: sample_manager_def RegisterChecker_def Let_def)

lemma readiness_when_draining_witness:
  "\<exists>resp m' s'. run ref_api (GetReadinessStatus (SetShuttingDown sample_manager True)) ref_node = ((resp, m'), s') \<and>
     \<not> rd_Ready resp"
proof -
  have "cache_hit sample_manager ''readiness'' (clock ref_api ref_node) = None"
    by (simp add: cache_hit_def sample_manager_def RegisterChecker_def Let_def NewManager_def)
  with readiness_when_draining [OF sample_manager_refs(1), of ref_api ref_node] show ?thesis by auto
qed

lemma runCheck_lifetime:
  assumes "run api (runCheck m c) s = ((r, m'), s')" and "cache_hit m (checker_Name c) (clock api s) = None"
  obtains s1 where "run api (checker_Check m c) (if mg_cache m (checker_Name c) = None then s else tick api s) = (r, s1)"
    "s' = tick api s1"
    "mg_cache m' (checker_Name c) = Some \<lparr>cc_result = r, cc_expiresAt = time_Add (clock api s1) (mg_cacheDuration m)\<rparr>"
proof -
  have "run_fresh api m c (if mg_cache m (checker_Name c) = None then s else tick api s) = ((r, m'), s')"
    using assms by (auto simp: run_runCheck split: if_splits)
  with that show thesis by (auto simp: run_fresh_def split: prod.splits)
qed

text \<open>
  C35.  A check that is not answered from the cache is run, and its result kept for exactly the cache
  duration, counted from the first reading of the clock after the check.  Until then every run of
  the same checker, by a manager with that entry and whatever flags, makes no call but one reading of
  the clock and repeats the result; from then on the check is run again.
\<close>

theorem cache_lifetime:
  assumes "run api (runCheck m c) s = ((r, m'), s')" and "cache_hit m (checker_Name c) (clock api s) = None"
  shows "\<exists>s1. run api (checker_Check m c) (if mg_cache m (checker_Name c) = None then s else tick api s) = (r, s1) \<and>
    s' = tick api s1 \<and>
    (\<forall>m2 s2. mg_cache m2 (checker_Name c) = mg_cache m' (checker_Name c) \<longrightarrow>
      (if time_Sub (clock api s2) (clock api s1) < mg_cacheDuration m
       then run api (runCheck m2 c) s2 = ((r, m2), tick api s2)
       else fst (fst (run api (runCheck m2 c) s2)) = fst (run api (checker_Check m2 c) (tick api s2))))"
proof -
  from assms obtain s1 where s1:
    "run api (checker_Check m c) (if mg_cache m (checker_Name c) = None then s else tick api s) = (r, s1)"
    "s' = tick api s1"
    "mg_cache m' (checker_Name c) = Some \<lparr>cc_result = r, cc_expiresAt = time_Add (clock api s1) (mg_cacheDuration m)\<rparr>"
    by (rule runCheck_lifetime)
  then show ?thesis
    by (intro exI [of _ s1]) (auto simp: run_runCheck cache_hit_def Before_Add run_fresh_def split: prod.splits)
qed

text \<open>
  With a cache of two nanoseconds, on a clock that advances by one at every reading: the first repeat
  still says that the servers are starting although they run, the second does not.
\<close>

definition brief_manager :: manager where
  "brief_manager = RegisterChecker (NewManager 2 Second) (ServerChecker 0)"

lemma cache_lifetime_witness:
  "\<exists>r m' s'. run ref_api (runCheck brief_manager (ServerChecker 0)) ref_node = ((r, m'), s') \<and>
     cr_Status r = StatusStarting \<and>
     (let m2 = SetServersRunning m' True in
        run ref_api (runCheck m2 (ServerChecker 0)) s' = ((r, m2), tick ref_api s') \<and>
        cr_Status (fst (fst (run ref_api (runCheck m2 (ServerChecker 0)) (tick ref_api s')))) = StatusOK)"
proof -
  obtain r m' s' where r: "run ref_api (runCheck brief_manager (ServerChecker 0)) ref_node = ((r, m'), s')"
    by (metis surj_pair)
  have b: "mg_cache brief_manager = (\<lambda>_. None)" "mg_cacheDuration brief_manager = 2"
    "mg_serverChecker brief_manager = Some 0" "\<not> sc_serversRunning (server_objs brief_manager 0)"
    by (simp_all add: brief_manager_def RegisterChecker_def NewManager_def NewServerChecker_def Let_def)
  define m2 where "m2 = SetServersRunning m' True"
  have "same_setup brief_manager m'" using runCheck_frame [OF r] by blast
  then have m2: "mg_cache m2 = mg_cache m'" "sc_serversRunning (server_objs m2 0)"
    using same_setup_fields(3) [of brief_manager m'] b(3)
    by (auto simp: m2_def SetServersRunning_def server_SetRunning_def Let_def split: option.splits)
  obtain s1 where s1: "run ref_api (server_Check (server_objs brief_manager 0)) ref_node = (r, s1)" "s' = tick ref_api s1"
    "\<forall>m2 s2. mg_cache m2 ''servers'' = mg_cache m' ''servers'' \<longrightarrow>
      (if time_Sub (clock ref_api s2) (clock ref_api s1) < 2
       then run ref_api (runCheck m2 (ServerChecker 0)) s2 = ((r, m2), tick ref_api s2)
       else fst (fst (run ref_api (runCheck m2 (ServerChecker 0)) s2)) =
         fst (run ref_api (server_Check (server_objs m2 0)) (tick ref_api s2)))"
    using cache_lifetime [OF r] by (auto simp: b(1,2) cache_hit_def)
  have clock: "time_Sub (clock ref_api s') (clock ref_api s1) = 1"
    "time_Sub (clock ref_api (tick ref_api s')) (clock ref_api s1) = 2"
    using s1(2) by (simp_all add: clock_def tick_def ref_api_def ref_time_def time_Sub_def)
  have st: "cr_Status r = StatusStarting"
    using s1(1) b(4) run_server_Check [of ref_api "server_objs brief_manager 0" ref_node] by auto
  have "run ref_api (runCheck m2 (ServerChecker 0)) s' = ((r, m2), tick ref_api s')"
    using spec [OF spec [OF s1(3), of m2], of s'] m2(1) clock(1) by simp
  moreover have "cr_Status (fst (fst (run ref_api (runCheck m2 (ServerChecker 0)) (tick ref_api s')))) = StatusOK"
    using spec [OF spec [OF s1(3), of m2], of "tick ref_api s'"] m2 clock(2)
      run_server_Check [of ref_api "server_objs m2 0" "tick ref_api (tick ref_api s')"] by auto
  ultimately show ?thesis using r st unfolding m2_def by (auto simp: Let_def)
qed

section \<open>The interface \<open>Checker\<close>\<close>

text \<open>
  What the manager relies on of a checker, and its comments ask for: the result of a check carries
  the checker's name, under which it is cached and reported.
\<close>

locale named_check =
  fixes api :: "'w olric" and name :: string and check :: "check_result prog"
  assumes check_name: "cr_Name (fst (run api check s)) = name"
begin

lemma named_run: "run api check s = (r, s') \<Longrightarrow> cr_Name r = name"
  using check_name [of s] by simp

end

interpretation server_check: named_check api "''servers''" "server_Check c" for api c
  by unfold_locales (simp add: server_Check_def Let_def)

interpretation readiness_check: named_check api "''readiness''" "readiness_Check c" for api c
  by unfold_locales (simp add: readiness_Check_def Let_def)

definition named_checker :: "'w olric \<Rightarrow> checker \<Rightarrow> bool" where
  "named_checker api c \<longleftrightarrow> (\<forall>m. named_check api (checker_Name c) (checker_Check m c))"

lemma named_package_checkers [simp]:
  "named_checker api (ServerChecker a)" "named_checker api (ReadinessChecker a)"
  by (simp_all add: named_checker_def server_check.named_check_axioms readiness_check.named_check_axioms)

lemma named_OtherChecker: "named_check api n check \<Longrightarrow> named_checker api (OtherChecker n check)"
  by (simp add: named_checker_def)

text \<open>A manager that reports every check under its own name.\<close>

definition well_named :: "'w olric \<Rightarrow> manager \<Rightarrow> bool" where
  "well_named api m \<longleftrightarrow>
     (\<forall>n c. map_of (mg_checkers m) n = Some c \<longrightarrow> checker_Name c = n \<and> named_checker api c) \<and>
     (\<forall>n e. mg_cache m n = Some e \<longrightarrow> cr_Name (cc_result e) = n)"

lemma runCheck_named:
  assumes "well_named api m" "named_checker api c" "run api (runCheck m c) s = ((r, m'), s')"
  shows "cr_Name r = checker_Name c" "well_named api m'"
proof -
  have fresh: "cr_Name r = checker_Name c" if "run_fresh api m c s0 = ((r, m'), s')" for s0
    using that assms(2) named_check.named_run [of api "checker_Name c" "checker_Check m c" s0]
    by (auto simp: run_fresh_def named_checker_def split: prod.splits)
  show r: "cr_Name r = checker_Name c"
  proof (cases "cache_hit m (checker_Name c) (clock api s)")
    case None
    then show ?thesis using assms(3) fresh by (auto simp: run_runCheck split: if_splits)
  next
    case (Some r')
    then obtain e where "mg_cache m (checker_Name c) = Some e" "cc_result e = r'"
      by (auto simp: cache_hit_def split: option.splits if_splits)
    with Some assms show ?thesis by (auto simp: run_runCheck well_named_def)
  qed
  note f = runCheck_frame [OF assms(3)]
  have "cr_Name (cc_result e) = n" if "mg_cache m' n = Some e" for n e
    using f r that assms(1) by (cases "n = checker_Name c") (auto simp: well_named_def)
  with assms(1) same_setup_fields(1) [of m m'] f show "well_named api m'" by (simp add: well_named_def)
qed

lemma CheckAll_named:
  assumes "well_named api m" "run api (CheckAll m order) s = ((rs, m'), s')"
  shows "map cr_Name rs = filter (\<lambda>n. map_of (mg_checkers m) n \<noteq> None) order \<and> well_named api m'"
  using assms
proof (induction m order arbitrary: rs s m' s' rule: CheckAll.induct)
  case (2 m name order)
  show ?case
  proof (cases "map_of (mg_checkers m) name")
    case None
    with 2 show ?thesis by auto
  next
    case (Some c)
    obtain r m1 s1 where r: "run api (runCheck m c) s = ((r, m1), s1)" by (metis surj_pair)
    obtain rs1 m2 s2 where rs: "run api (CheckAll m1 order) s1 = ((rs1, m2), s2)" by (metis surj_pair)
    have c: "checker_Name c = name" "named_checker api c" using 2(3) Some by (auto simp: well_named_def)
    note n = runCheck_named [OF 2(3) c(2) r]
    have "mg_checkers m1 = mg_checkers m" using runCheck_frame [OF r] same_setup_fields(1) by blast
    with 2(2) [OF Some n(2) rs] n(1) c(1) 2(4) Some r rs show ?thesis by (auto simp: prog_simps)
  qed
qed simp

lemma update_new: "k \<notin> fst ` set al \<Longrightarrow> AList.update k v al = al @ [(k, v)]"
  by (induction al) auto

lemma updates_new:
  assumes "length vs = length ks" "distinct (map fst al @ ks)"
  shows "AList.updates ks vs al = al @ zip ks vs"
  using assms
proof (induction vs ks arbitrary: al rule: list_induct2')
  case (4 v vs k ks)
  then have "AList.update k v al = al @ [(k, v)]" by (intro update_new) auto
  with 4 show ?case by simp
qed simp_all

text \<open>The startup response of such a manager shows every check asked for, each under its name.\<close>

lemma startup_names:
  assumes "well_named api m" "run api (GetStartupStatus m order) s = ((resp, m'), s')"
    and "distinct order" "set order \<subseteq> fst ` set (mg_checkers m)"
  shows "map fst (su_Checks resp) = order \<and> su_Status resp = startup_verdict (map snd (su_Checks resp)) \<and>
    well_named api m'"
proof -
  obtain rs m1 s1 where c: "run api (CheckAll m order) s = ((rs, m1), s1)" by (metis surj_pair)
  have "filter (\<lambda>n. map_of (mg_checkers m) n \<noteq> None) order = order"
    using assms(4) by (auto simp: map_of_eq_None_iff intro!: filter_True)
  with CheckAll_named [OF assms(1) c] have n: "map cr_Name rs = order" "well_named api m1" by auto
  have len: "length rs = length order" using n(1) by auto
  have "AList.updates (map cr_Name rs) (map cr_Status rs) [] = [] @ zip order (map cr_Status rs)"
    unfolding n(1) by (rule updates_new) (use len assms(3) in auto)
  with n(2) assms(2) c len show ?thesis by (auto simp: run_GetStartupStatus)
qed

lemma readiness_named:
  assumes "well_named api m" "run api (GetReadinessStatus m) s = ((resp, m'), s')"
  shows "well_named api m'"
proof (cases "mg_readinessChecker m")
  case None
  with assms show ?thesis by (simp add: GetReadinessStatus_def prog_simps)
next
  case (Some a)
  obtain r m1 s1 where r: "run api (runCheck m (ReadinessChecker a)) s = ((r, m1), s1)" by (metis surj_pair)
  from runCheck_named(2) [OF assms(1) _ r] Some r assms(2) show ?thesis
    by (simp add: GetReadinessStatus_def prog_simps)
qed

lemma setters_named:
  "well_named api m \<Longrightarrow> well_named api (SetServersRunning m b)"
  "well_named api m \<Longrightarrow> well_named api (SetShuttingDown m b)"
  by (auto simp: well_named_def SetServersRunning_def SetShuttingDown_def Let_def split: option.splits)

lemma RegisterChecker_named:
  "well_named api m \<Longrightarrow> named_checker api c \<Longrightarrow> well_named api (RegisterChecker m c)"
  by (auto simp: well_named_def RegisterChecker_def Let_def update_conv split: checker.splits if_splits)

lemma NewManager_named: "well_named api (NewManager d t)"
  by (simp add: well_named_def NewManager_def)

section \<open>What probing leaves alone\<close>

text \<open>
  Probing changes nothing but the cache: the registered checkers, the objects behind them and the
  durations are the same afterwards.
\<close>

lemma Readiness_setup: "run api (GetReadinessStatus m) s = ((resp, m'), s') \<Longrightarrow> same_setup m m'"
proof (cases "mg_readinessChecker m")
  case (Some a)
  assume run: "run api (GetReadinessStatus m) s = ((resp, m'), s')"
  obtain r m1 s1 where r: "run api (runCheck m (ReadinessChecker a)) s = ((r, m1), s1)" by (metis surj_pair)
  with Some run runCheck_frame [OF r] show ?thesis by (simp add: GetReadinessStatus_def prog_simps)
qed (simp add: GetReadinessStatus_def prog_simps)

lemma Startup_setup: "run api (GetStartupStatus m order) s = ((resp, m'), s') \<Longrightarrow> same_setup m m'"
  using CheckAll_setup [of api m order s] by (auto simp: run_GetStartupStatus split: prod.splits)

end
