(* ===== verification/Metrics.thy ===== *)
theory Metrics
  imports Http "HOL-Library.Word"
begin

text \<open>
  The service's metrics: \<open>internal/metrics/metrics.go\<close>.  A metric is its description (kind, name,
  help, labels, buckets); counting is Prometheus' own.  \<open>well_used\<close> says of a call that its metric is
  registered, the operation one of its kind and the label values as many as the labels; \<open>accepted\<close>
  says besides that the label values are UTF-8, and then Prometheus does not panic.  \<open>register_all\<close>
  is when a registry takes its collectors without a panic.  Buckets are in thousandths.
\<close>

section \<open>Descriptions\<close>

datatype metric_kind = Counter | CounterVec | Gauge | GaugeVec | Summary | HistogramVec

datatype buckets = NoBuckets | Buckets "int list" | ExponentialBuckets int int nat

record metric_desc =
  md_kind :: metric_kind
  md_Namespace :: string
  md_Name :: string
  md_Help :: string
  md_labels :: "string list"
  md_Buckets :: buckets

definition desc :: "metric_kind \<Rightarrow> string \<Rightarrow> string \<Rightarrow> string \<Rightarrow> string list \<Rightarrow> buckets \<Rightarrow> metric_desc" where
  "desc k ns name help labels bs = \<lparr>md_kind = k, md_Namespace = ns, md_Name = name, md_Help = help,
     md_labels = labels, md_Buckets = bs\<rparr>"

definition app_metrics :: "string \<Rightarrow> metric_desc list" where
  "app_metrics ns = [
     desc GaugeVec ns ''app_info'' ''Application build information''
       [''version'', ''commit'', ''build_date'', ''go_version''] NoBuckets,
     desc Counter ns ''app_uptime_seconds'' ''Application uptime in seconds'' [] NoBuckets,
     desc Gauge ns ''app_start_time_seconds'' ''Unix timestamp of service start'' [] NoBuckets,
     desc Gauge ns ''app_go_goroutines'' ''Number of goroutines'' [] NoBuckets,
     desc Gauge ns ''app_go_threads'' ''Number of OS threads'' [] NoBuckets,
     desc Summary ns ''app_go_gc_duration_seconds'' ''GC pause durations'' [] NoBuckets]"

definition http_metrics :: "string \<Rightarrow> metric_desc list" where
  "http_metrics ns = [
     desc CounterVec ns ''http_requests_total'' ''Total number of HTTP requests''
       [''method'', ''path'', ''status''] NoBuckets,
     desc HistogramVec ns ''http_request_duration_seconds'' ''HTTP request duration in seconds''
       [''method'', ''path'', ''status'']
       (Buckets [1, 5, 10, 25, 50, 100, 250, 500, 1000, 2500, 5000, 10000]),
     desc HistogramVec ns ''http_request_size_bytes'' ''HTTP request size in bytes''
       [''method'', ''path''] (ExponentialBuckets 100 10 7),
     desc HistogramVec ns ''http_response_size_bytes'' ''HTTP response size in bytes''
       [''method'', ''path''] (ExponentialBuckets 100 10 7),
     desc GaugeVec ns ''http_requests_in_flight'' ''Current number of HTTP requests being processed''
       [''method'', ''path''] NoBuckets]"

definition health_metrics :: "string \<Rightarrow> metric_desc list" where
  "health_metrics ns = [
     desc GaugeVec ns ''health_check_status'' ''Health check status (1 for healthy, 0 for unhealthy)''
       [''check_name'', ''status''] NoBuckets,
     desc HistogramVec ns ''health_check_duration_seconds'' ''Health check duration in seconds''
       [''check_name''] (Buckets [1, 5, 10, 25, 50, 100, 250, 500, 1000]),
     desc GaugeVec ns ''health_check_last_success_timestamp''
       ''Unix timestamp of last successful health check'' [''check_name''] NoBuckets,
     desc CounterVec ns ''health_check_failures_total'' ''Total number of health check failures''
       [''check_name''] NoBuckets]"

definition lock_metrics :: "string \<Rightarrow> metric_desc list" where
  "lock_metrics ns = [
     desc CounterVec ns ''lock_operations_total''
       ''Total number of lock operations by operation type and status''
       [''operation'', ''status''] NoBuckets]"

text \<open>
  What a registry is handed, in the order in which it is: the metrics of the service, and two
  collectors of the library, whose metrics are the library's.
\<close>

datatype registered = Metric metric_desc | GoCollector | ProcessCollector

definition register :: "string \<Rightarrow> registered list" where
  "register ns = map Metric (app_metrics ns @ http_metrics ns @ health_metrics ns @ lock_metrics ns) @
     [GoCollector, ProcessCollector]"

section \<open>Construction and runtime metrics\<close>

record metrics =
  mt_namespace :: string
  mt_registry :: "registered list"

text \<open>A missing key of the build information reads as the empty string; \<open>unix_s\<close> is \<open>time.Now().Unix()\<close>.\<close>

definition build_value :: "(string \<Rightarrow> string option) \<Rightarrow> string \<Rightarrow> string" where
  "build_value info k = (case info k of None \<Rightarrow> [] | Some v \<Rightarrow> v)"

definition unix_s :: "go_time \<Rightarrow> int" where
  "unix_s t = unix_ns t div Second"

definition NewMetrics ::
    "string \<Rightarrow> (string \<Rightarrow> string option) \<Rightarrow> string \<Rightarrow> (metrics \<times> metric_call list) prog" where
  "NewMetrics namespace buildInfo goVersion =
     Now (\<lambda>now. Ret (\<lparr>mt_namespace = namespace, mt_registry = register namespace\<rparr>,
       [SetTo ''app_info'' [build_value buildInfo ''version'', build_value buildInfo ''commit'',
          build_value buildInfo ''date'', goVersion] (Num 1),
        SetTo ''app_start_time_seconds'' [] (Num (unix_s now))]))"

text \<open>What Go's runtime reports; \<open>PauseNs\<close> is its circular buffer of 256 pauses.\<close>

record runtime_stats =
  rt_NumGoroutine :: int
  rt_GOMAXPROCS :: int
  rt_NumGC :: "32 word"
  rt_PauseNs :: "int list"

definition pause_index :: "32 word \<Rightarrow> nat" where
  "pause_index n = unat ((n + 255) mod 256)"

definition UpdateRuntimeMetrics :: "runtime_stats \<Rightarrow> metric_call list" where
  "UpdateRuntimeMetrics rt =
     [SetTo ''app_go_goroutines'' [] (Num (rt_NumGoroutine rt)),
      SetTo ''app_go_threads'' [] (Num (rt_GOMAXPROCS rt))] @
     (if rt_NumGC rt > 0
      then [Observe ''app_go_gc_duration_seconds'' [] (Secs (rt_PauseNs rt ! pause_index (rt_NumGC rt)))]
      else [])"

section \<open>What Prometheus demands\<close>

fun call_name :: "metric_call \<Rightarrow> string" where
  "call_name (Inc n _) = n"
| "call_name (Dec n _) = n"
| "call_name (AddTo n _ _) = n"
| "call_name (SetTo n _ _) = n"
| "call_name (Observe n _ _) = n"

fun call_labels :: "metric_call \<Rightarrow> string list" where
  "call_labels (Inc _ ls) = ls"
| "call_labels (Dec _ ls) = ls"
| "call_labels (AddTo _ ls _) = ls"
| "call_labels (SetTo _ ls _) = ls"
| "call_labels (Observe _ ls _) = ls"

fun call_kinds :: "metric_call \<Rightarrow> metric_kind list" where
  "call_kinds (Inc _ _) = [Counter, CounterVec, Gauge, GaugeVec]"
| "call_kinds (Dec _ _) = [Gauge, GaugeVec]"
| "call_kinds (AddTo _ _ _) = [Counter, CounterVec, Gauge, GaugeVec]"
| "call_kinds (SetTo _ _ _) = [Gauge, GaugeVec]"
| "call_kinds (Observe _ _ _) = [Summary, HistogramVec]"

definition call_ok :: "registered list \<Rightarrow> metric_call \<Rightarrow> bool" where
  "call_ok rs c = list_ex (\<lambda>r. case r of
     Metric d \<Rightarrow> md_Name d = call_name c \<and> length (call_labels c) = length (md_labels d) \<and>
       List.member (call_kinds c) (md_kind d)
   | _ \<Rightarrow> False) rs"

definition well_used :: "registered list \<Rightarrow> metric_call list \<Rightarrow> bool" where
  "well_used ds cs = list_all (call_ok ds) cs"

lemma well_used_simps [simp]:
  "well_used ds []" "well_used ds (c # cs) = (call_ok ds c \<and> well_used ds cs)"
  "well_used ds (as @ bs) = (well_used ds as \<and> well_used ds bs)"
  by (simp_all add: well_used_def)

definition accepted :: "registered list \<Rightarrow> metric_call list \<Rightarrow> bool" where
  "accepted rs cs \<longleftrightarrow> well_used rs cs \<and> list_all (\<lambda>c. list_all valid_utf8 (call_labels c)) cs"

lemma accepted_append [simp]: "accepted rs (as @ bs) = (accepted rs as \<and> accepted rs bs)"
  by (auto simp: accepted_def)

text \<open>
  Descriptions, by the rules that the documentation of the client library gives: the name of a
  metric is its namespace's and its own; names and labels are made of certain characters, and labels do
  not begin with two underscores; a histogram keeps the label \<open>le\<close> to itself and a summary \<open>quantile\<close>;
  buckets increase, and exponential ones begin above zero and have a factor above one.
\<close>

definition fq_name :: "metric_desc \<Rightarrow> string" where
  "fq_name d = (if md_Name d = [] then [] else if md_Namespace d = [] then md_Name d
     else md_Namespace d @ ''_'' @ md_Name d)"

definition is_letter :: "char \<Rightarrow> bool" where
  "is_letter c \<longleftrightarrow> in_range 0x61 0x7A (byte c) \<or> in_range 0x41 0x5A (byte c) \<or> c = CHR ''_''"

definition is_digit_char :: "char \<Rightarrow> bool" where
  "is_digit_char c \<longleftrightarrow> in_range 0x30 0x39 (byte c)"

fun valid_metric_name :: "string \<Rightarrow> bool" where
  "valid_metric_name [] = False"
| "valid_metric_name (c # cs) = ((is_letter c \<or> c = CHR '':'') \<and>
     list_all (\<lambda>c. is_letter c \<or> is_digit_char c \<or> c = CHR '':'') cs)"

fun valid_label_name :: "string \<Rightarrow> bool" where
  "valid_label_name [] = False"
| "valid_label_name (c # cs) = (is_letter c \<and> list_all (\<lambda>c. is_letter c \<or> is_digit_char c) cs \<and>
     \<not> prefix ''__'' (c # cs))"

fun buckets_ok :: "buckets \<Rightarrow> bool" where
  "buckets_ok NoBuckets = True"
| "buckets_ok (Buckets bs) = sorted_wrt (<) bs"
| "buckets_ok (ExponentialBuckets start factor n) = (0 < start \<and> 1 < factor \<and> 1 \<le> n)"

definition desc_ok :: "metric_desc \<Rightarrow> bool" where
  "desc_ok d \<longleftrightarrow> valid_metric_name (fq_name d) \<and> list_all valid_label_name (md_labels d) \<and>
     distinct (md_labels d) \<and> (md_kind d = HistogramVec \<longrightarrow> ''le'' \<notin> set (md_labels d)) \<and>
     (md_kind d = Summary \<longrightarrow> ''quantile'' \<notin> set (md_labels d)) \<and> buckets_ok (md_Buckets d)"

text \<open>
  What the two collectors of the library describe is a parameter; the library documents that their
  names begin with \<open>go_\<close> and \<open>process_\<close>.
\<close>

record library =
  lib_go :: "metric_desc list"
  lib_process :: "metric_desc list"

definition library_ok :: "library \<Rightarrow> bool" where
  "library_ok lib \<longleftrightarrow>
     list_all (\<lambda>d. desc_ok d \<and> prefix ''go_'' (fq_name d)) (lib_go lib) \<and>
     list_all (\<lambda>d. desc_ok d \<and> prefix ''process_'' (fq_name d)) (lib_process lib)"

fun describe :: "library \<Rightarrow> registered \<Rightarrow> metric_desc list" where
  "describe lib (Metric d) = [d]"
| "describe lib GoCollector = lib_go lib"
| "describe lib ProcessCollector = lib_process lib"

text \<open>\<open>MustRegister\<close> of one collector, and of several in turn; \<open>None\<close> is its panic.\<close>

definition names_of :: "library \<Rightarrow> registered list \<Rightarrow> string list" where
  "names_of lib rs = map fq_name (concat (map (describe lib) rs))"

definition MustRegister :: "library \<Rightarrow> registered \<Rightarrow> registered list \<Rightarrow> registered list option" where
  "MustRegister lib r registry =
     (if list_all (\<lambda>d. desc_ok d \<and> fq_name d \<notin> set (names_of lib registry)) (describe lib r)
      then Some (registry @ [r]) else None)"

fun register_all :: "library \<Rightarrow> registered list \<Rightarrow> registered list \<Rightarrow> registered list option" where
  "register_all lib [] registry = Some registry"
| "register_all lib (r # rs) registry = (case MustRegister lib r registry of
     None \<Rightarrow> None | Some registry \<Rightarrow> register_all lib rs registry)"

text \<open>A registry takes collectors that are well described and share no name.\<close>

definition apart :: "library \<Rightarrow> registered \<Rightarrow> registered \<Rightarrow> bool" where
  "apart lib r r' \<longleftrightarrow> fq_name ` set (describe lib r) \<inter> fq_name ` set (describe lib r') = {}"

lemma register_all_Some:
  assumes "\<forall>r \<in> set rs. list_all desc_ok (describe lib r)" "sorted_wrt (apart lib) (registry @ rs)"
  shows "register_all lib rs registry = Some (registry @ rs)"
  using assms
proof (induction rs arbitrary: registry)
  case (Cons r rs)
  have "apart lib r' r" if "r' \<in> set registry" for r'
    using Cons.prems(2) that by (auto simp: sorted_wrt_append)
  then have "fq_name d \<notin> set (names_of lib registry)" if "d \<in> set (describe lib r)" for d
    using that by (fastforce simp: names_of_def apart_def)
  then have "MustRegister lib r registry = Some (registry @ [r])"
    using Cons.prems(1) by (auto simp: MustRegister_def list_all_iff)
  moreover have "register_all lib rs (registry @ [r]) = Some ((registry @ [r]) @ rs)"
    using Cons.prems by (intro Cons.IH) auto
  ultimately show ?case by simp
qed simp

lemma apart_metrics: "distinct (map fq_name ds) \<Longrightarrow> sorted_wrt (apart lib) (map Metric ds)"
  by (induction ds) (auto simp: apart_def)

text \<open>The descriptions of the service itself.\<close>

definition own_metrics :: "registered list \<Rightarrow> metric_desc list" where
  "own_metrics rs = concat (map (\<lambda>r. case r of Metric d \<Rightarrow> [d] | _ \<Rightarrow> []) rs)"

definition registrable :: "registered list \<Rightarrow> bool" where
  "registrable rs \<longleftrightarrow> distinct (map md_Name (own_metrics rs)) \<and>
     list_all (\<lambda>d. distinct (md_labels d) \<and> buckets_ok (md_Buckets d)) (own_metrics rs)"

lemmas metric_defs = register_def app_metrics_def http_metrics_def health_metrics_def lock_metrics_def desc_def

lemma call_ok_append: "call_ok ds c \<Longrightarrow> call_ok (ds @ es) c" "call_ok es c \<Longrightarrow> call_ok (ds @ es) c"
  by (auto simp: call_ok_def)

lemma well_used_append_left: "well_used ds cs \<Longrightarrow> well_used (ds @ es) cs"
  and well_used_append_right: "well_used es cs \<Longrightarrow> well_used (ds @ es) cs"
  using call_ok_append by (auto simp: well_used_def list_all_iff)

text \<open>The calls of the service on these metrics are calls of \<open>call_ok\<close>.\<close>

lemma http_calls_ok [simp]:
  "call_ok (register ns) (Inc ''http_requests_total'' [a, b, c])"
  "call_ok (register ns) (Observe ''http_request_duration_seconds'' [a, b, c] v)"
  "call_ok (register ns) (Observe ''http_request_size_bytes'' [a, b] v)"
  "call_ok (register ns) (Observe ''http_response_size_bytes'' [a, b] v)"
  "call_ok (register ns) (Inc ''http_requests_in_flight'' [a, b])"
  "call_ok (register ns) (Dec ''http_requests_in_flight'' [a, b])"
  "call_ok (register ns) (Inc ''lock_operations_total'' [a, b])"
  by (simp_all add: call_ok_def metric_defs)

lemma other_calls_ok [simp]:
  "call_ok (register ns) (SetTo ''health_check_status'' [a, b] v)"
  "call_ok (register ns) (Observe ''health_check_duration_seconds'' [a] v)"
  "call_ok (register ns) (SetTo ''health_check_last_success_timestamp'' [a] v)"
  "call_ok (register ns) (Inc ''health_check_failures_total'' [a])"
  "call_ok (register ns) (SetTo ''app_info'' [a, b, c, d] v)"
  "call_ok (register ns) (SetTo ''app_start_time_seconds'' [] v)"
  "call_ok (register ns) (SetTo ''app_go_goroutines'' [] v)"
  "call_ok (register ns) (SetTo ''app_go_threads'' [] v)"
  "call_ok (register ns) (Observe ''app_go_gc_duration_seconds'' [] v)"
  "call_ok (register ns) (AddTo ''app_uptime_seconds'' [] v)"
  by (simp_all add: call_ok_def metric_defs)

section \<open>The runtime metrics read inside the buffer\<close>

lemma pause_index_eq: "pause_index n = (unat n + 255) mod 256"
proof -
  have "unat ((n + 255) mod 256) = (unat n + 255) mod 2 ^ 32 mod 256"
    by (simp add: unat_mod unat_word_ariths take_bit_eq_mod)
  also have "\<dots> = (unat n + 255) mod 256"
    by (rule mod_mod_cancel) (simp add: dvd_def)
  finally show ?thesis by (simp add: pause_index_def)
qed

text \<open>
  The index into the ring of garbage-collection pauses is always one of its 256, and once there
  has been a collection it is the slot of the latest one, also when the 32-bit sum wraps around.
\<close>

theorem pause_is_latest:
  "pause_index n < 256 \<and> (0 < n \<longrightarrow> pause_index n = (unat n - 1) mod 256)"
proof -
  have "(unat n + 255) mod 256 = (unat n - 1) mod 256" if "0 < n"
  proof -
    have "0 < unat n" using that by (simp add: word_less_nat_alt)
    then have "unat n + 255 = (unat n - 1) + 256" by simp
    then show ?thesis by (metis mod_add_self2)
  qed
  then show ?thesis by (simp add: pause_index_eq)
qed

lemma pause_is_latest_witness: "pause_index 300 = 43"
proof -
  have "(0 :: 32 word) < 300" by simp
  with pause_is_latest [of 300] have "pause_index 300 = (unat (300 :: 32 word) - 1) mod 256" by simp
  then show ?thesis by simp
qed

end
