(* ===== verification/Middleware.thy ===== *)
theory Middleware
  imports Metrics OlricRef Clock
begin

text \<open>
  The HTTP middleware: \<open>internal/middleware/metrics.go\<close>.  A handler returns or panics; either way it
  has made some calls before.  A middleware makes a handler from a handler.  Log lines are not
  modelled, so \<open>LoggingMiddleware\<close> is the handler it wraps.
\<close>

section \<open>Handlers that may panic\<close>

datatype served = Returned "http_event list" | Panicked "http_event list" string

text \<open>\<open>'m\<close>: what the handler has made of the state behind it, for one that has any.\<close>

type_synonym 'm handler = "request \<Rightarrow> (served \<times> 'm) prog"

fun events :: "served \<Rightarrow> http_event list" where
  "events (Returned evs) = evs"
| "events (Panicked evs _) = evs"

section \<open>The recording response writer\<close>

record response_writer =
  rw_statusCode :: int
  rw_bytesWritten :: int

definition newResponseWriter :: response_writer where
  "newResponseWriter = \<lparr>rw_statusCode = 200, rw_bytesWritten = 0\<rparr>"

definition rw_WriteHeader :: "int \<Rightarrow> response_writer \<Rightarrow> response_writer" where
  "rw_WriteHeader code rw = rw\<lparr>rw_statusCode := code\<rparr>"

text \<open>\<open>n\<close>: how many bytes the underlying writer took.\<close>

definition rw_Write :: "int \<Rightarrow> response_writer \<Rightarrow> response_writer" where
  "rw_Write n rw = rw\<lparr>rw_bytesWritten := rw_bytesWritten rw + n\<rparr>"

fun rw_event :: "http_event \<Rightarrow> response_writer \<Rightarrow> response_writer" where
  "rw_event (HWriteHeader code) rw = rw_WriteHeader code rw"
| "rw_event (HWrite b) rw = rw_Write (int (length b)) rw"
| "rw_event _ rw = rw"

definition recorded :: "http_event list \<Rightarrow> response_writer" where
  "recorded evs = fold rw_event evs newResponseWriter"

section \<open>Middleware\<close>

definition getRoutePattern :: "request \<Rightarrow> string" where
  "getRoutePattern r = (case rq_RoutePattern r of
     Some p \<Rightarrow> if p \<noteq> [] then p else if rq_Path r = [] then ''/'' else rq_Path r
   | None \<Rightarrow> if rq_Path r = [] then ''/'' else rq_Path r)"

definition MetricsMiddleware :: "'m handler \<Rightarrow> 'm handler" where
  "MetricsMiddleware next r = Now (\<lambda>start.
     let routePattern = getRoutePattern r;
         before = HMetric (Inc ''http_requests_in_flight'' [rq_Method r, routePattern]) #
           (if rq_ContentLength r > 0
            then [HMetric (Observe ''http_request_size_bytes'' [rq_Method r, routePattern]
              (Num (rq_ContentLength r)))]
            else []);
         deferred = [HMetric (Dec ''http_requests_in_flight'' [rq_Method r, routePattern])]
     in seq (next r) (\<lambda>(res, m). case res of
          Panicked evs e \<Rightarrow> Ret (Panicked (before @ evs @ deferred) e, m)
        | Returned evs \<Rightarrow> Now (\<lambda>now.
            let rw = recorded evs;
                status = strconv_Itoa (rw_statusCode rw)
            in Ret (Returned (before @ evs @
              [HMetric (Inc ''http_requests_total'' [rq_Method r, routePattern, status]),
               HMetric (Observe ''http_request_duration_seconds'' [rq_Method r, routePattern, status]
                 (Secs (time_Sub now start)))] @
              (if rw_bytesWritten rw > 0
               then [HMetric (Observe ''http_response_size_bytes'' [rq_Method r, routePattern]
                 (Num (rw_bytesWritten rw)))]
               else []) @ deferred), m))))"

definition LoggingMiddleware :: "'m handler \<Rightarrow> 'm handler" where
  "LoggingMiddleware next r = Now (\<lambda>start. seq (next r) (\<lambda>(res, m). case res of
     Panicked evs e \<Rightarrow> Ret (Panicked evs e, m)
   | Returned evs \<Rightarrow> Now (\<lambda>now. Ret (Returned evs, m))))"

definition HealthCheckMetricsMiddleware :: "string \<Rightarrow> 'm handler \<Rightarrow> 'm handler" where
  "HealthCheckMetricsMiddleware checkName next r = Now (\<lambda>start. seq (next r) (\<lambda>(res, m). case res of
     Panicked evs e \<Rightarrow> Ret (Panicked evs e, m)
   | Returned evs \<Rightarrow> Now (\<lambda>now.
       let duration = HMetric (Observe ''health_check_duration_seconds'' [checkName]
             (Secs (time_Sub now start)))
       in if rw_statusCode (recorded evs) = 200
          then Now (\<lambda>t. Ret (Returned (evs @ [duration,
            HMetric (SetTo ''health_check_status'' [checkName, ''ok''] (Num 1)),
            HMetric (SetTo ''health_check_status'' [checkName, ''error''] (Num 0)),
            HMetric (SetTo ''health_check_last_success_timestamp'' [checkName] (Num (unix_s t)))]), m))
          else Ret (Returned (evs @ [duration,
            HMetric (SetTo ''health_check_status'' [checkName, ''ok''] (Num 0)),
            HMetric (SetTo ''health_check_status'' [checkName, ''error''] (Num 1)),
            HMetric (Inc ''health_check_failures_total'' [checkName])]), m))))"

definition RecovererMiddleware :: "'m handler \<Rightarrow> 'm handler" where
  "RecovererMiddleware next r = seq (next r) (\<lambda>(res, m). Ret (case res of
     Returned evs \<Rightarrow> Returned evs
   | Panicked evs e \<Rightarrow> Returned (evs @
       [HWriteHeader 500, HWrite (''Internal Server Error: '' @ e)]), m))"

section \<open>What the client got and what was recorded\<close>

text \<open>A handler that never panics and has no state.\<close>

definition plain_handler :: "(request \<Rightarrow> http_event list prog) \<Rightarrow> unit handler" where
  "plain_handler f r = seq (f r) (\<lambda>evs. Ret (Returned evs, ()))"

definition json_shape :: "http_event list \<Rightarrow> bool" where
  "json_shape evs \<longleftrightarrow> (\<exists>ms c j. evs = map HMetric ms @ reply_json c j)"

lemma fold_rw_metric [simp]: "fold rw_event (map HMetric ms) rw = rw"
  by (induction ms) auto

lemma recorded_reply_json:
  "recorded (map HMetric ms @ reply_json c j) =
     \<lparr>rw_statusCode = c, rw_bytesWritten = int (length (rs_body (deliver (map HMetric ms @ reply_json c j))))\<rparr>"
  unfolding deliver_reply_json
  by (auto simp: recorded_def reply_json_def newResponseWriter_def rw_WriteHeader_def
      rw_Write_def split: sum.splits)

lemma recorded_json_shape:
  assumes "json_shape evs"
  shows "rs_code (deliver evs) = Some (rw_statusCode (recorded evs)) \<and>
    rw_bytesWritten (recorded evs) = int (length (rs_body (deliver evs)))"
  using assms by (auto simp: json_shape_def recorded_reply_json deliver_reply_json)

text \<open>The gauge of requests in flight, as the calls on it leave it.\<close>

fun in_flight_step :: "metric_call \<Rightarrow> int \<Rightarrow> int" where
  "in_flight_step (Inc n ls) k = (if n = ''http_requests_in_flight'' then k + 1 else k)"
| "in_flight_step (Dec n ls) k = (if n = ''http_requests_in_flight'' then k - 1 else k)"
| "in_flight_step _ k = k"

definition in_flight :: "metric_call list \<Rightarrow> int" where
  "in_flight cs = fold in_flight_step cs 0"

lemma in_flight_shift: "fold in_flight_step cs k = fold in_flight_step cs 0 + k"
proof (induction cs arbitrary: k)
  case (Cons c cs)
  show ?case using Cons [of "in_flight_step c k"] Cons [of "in_flight_step c 0"] by (cases c) auto
qed simp

lemma in_flight_simps [simp]:
  "in_flight [] = 0" "in_flight (c # cs) = in_flight_step c 0 + in_flight cs"
  "in_flight (as @ bs) = in_flight as + in_flight bs"
  using in_flight_shift [of cs "in_flight_step c 0"] in_flight_shift [of bs "fold in_flight_step as 0"]
  by (simp_all add: in_flight_def)

text \<open>
  The gauge of requests in flight is balanced: a request served through \<open>MetricsMiddleware\<close>,
  returning or panicking, leaves it where the wrapped handler alone would.
\<close>

theorem in_flight_balanced:
  "in_flight (metric_calls (events (fst (fst (run api (MetricsMiddleware next r) s))))) =
     in_flight (metric_calls (events (fst (fst (run api (next r) (tick api s))))))"
proof -
  obtain res m s' where "run api (next r) (tick api s) = ((res, m), s')" by (metis surj_pair)
  then show ?thesis
    by (cases res) (auto simp: MetricsMiddleware_def Let_def prog_simps)
qed

text \<open>
  A panic under \<open>RecovererMiddleware\<close> does not go further.  The client gets 500 if nothing was
  sent before; otherwise it has the status that was sent, while the recording writer is left with
  500, so the two differ exactly when another status was sent before the panic.
\<close>

theorem recoverer_answers:
  assumes "run api (next r) s = ((Panicked evs e, m), s')"
  shows "\<exists>evs'. run api (RecovererMiddleware next r) s = ((Returned evs', m), s') \<and>
    rs_code (deliver evs') = Some (case rs_code (fold deliver_event evs no_response) of None \<Rightarrow> 500 | Some c \<Rightarrow> c) \<and>
    rw_statusCode (recorded evs') = 500"
proof -
  have "rs_code (deliver (evs @ [HWriteHeader 500, HWrite b])) =
      Some (case rs_code (fold deliver_event evs no_response) of None \<Rightarrow> 500 | Some c \<Rightarrow> c)" for b
    by (auto simp: deliver_def http_WriteHeader_def Let_def split: option.splits)
  then show ?thesis
    using assms by (simp add: RecovererMiddleware_def prog_simps recorded_def rw_WriteHeader_def rw_Write_def)
qed

definition live_request :: request where
  "live_request = \<lparr>rq_Method = ''GET'', rq_Path = ''/healthz/live'', rq_ContentLength = 0, rq_Body = [],
     rq_RoutePattern = None, rq_project = []\<rparr>"

lemma recoverer_answers_witness:
  "\<exists>evs'. run ref_api (RecovererMiddleware (\<lambda>_. Ret (Panicked [HWriteHeader 200] ''boom'', ())) live_request) ref_node =
      ((Returned evs', ()), ref_node) \<and> rs_code (deliver evs') = Some 200 \<and> rw_statusCode (recorded evs') = 500"
proof -
  have "run ref_api (Ret (Panicked [HWriteHeader 200] ''boom'', ())) ref_node =
      ((Panicked [HWriteHeader 200] ''boom'', ()), ref_node)" by simp
  from recoverer_answers [of ref_api "\<lambda>_. Ret (Panicked [HWriteHeader 200] ''boom'', ())", OF this]
  show ?thesis by (simp add: no_response_def http_WriteHeader_def)
qed

text \<open>
  After a health check exactly one of the two status gauges of the check is 1, the one that agrees
  with the recorded status, and the failure counter moves only on failure.
\<close>

definition health_calls :: "string \<Rightarrow> int \<Rightarrow> int \<Rightarrow> go_time \<Rightarrow> metric_call list" where
  "health_calls n code d t = Observe ''health_check_duration_seconds'' [n] (Secs d) #
     (if code = 200
      then [SetTo ''health_check_status'' [n, ''ok''] (Num 1), SetTo ''health_check_status'' [n, ''error''] (Num 0),
            SetTo ''health_check_last_success_timestamp'' [n] (Num (unix_s t))]
      else [SetTo ''health_check_status'' [n, ''ok''] (Num 0), SetTo ''health_check_status'' [n, ''error''] (Num 1),
            Inc ''health_check_failures_total'' [n]])"

lemma Health_Returned:
  assumes "run api (next r) (tick api s) = ((Returned evs, m), s')"
  shows "\<exists>evs' s'' d t. run api (HealthCheckMetricsMiddleware n next r) s = ((Returned evs', m), s'') \<and>
    deliver evs' = deliver evs \<and>
    metric_calls evs' = metric_calls evs @ health_calls n (rw_statusCode (recorded evs)) d t"
  using assms by (auto simp: HealthCheckMetricsMiddleware_def Let_def prog_simps health_calls_def deliver_def)

end
