(* ===== verification/Routes.thy ===== *)
theory Routes
  imports Race Health Middleware
begin

text \<open>
  The routes of the three servers: \<open>internal/server/routes.go\<close> and the router set-up of
  \<open>server.go\<close>.  What the code registers with a chi router is a \<open>mux\<close>; how chi serves it is a
  parameter, with what chi documents as \<open>chi_serves\<close>.  So are chi's own middlewares \<open>RequestID\<close> and
  \<open>Recoverer\<close>.
\<close>

section \<open>What is registered\<close>

record 'm route =
  rt_Method :: string
  rt_Pattern :: string
  rt_Handler :: "'m handler"

record 'm mux =
  mux_middlewares :: "('m handler \<Rightarrow> 'm handler) list"
  mux_routes :: "'m route list"

definition chi_NewRouter :: "'m mux" where
  "chi_NewRouter = \<lparr>mux_middlewares = [], mux_routes = []\<rparr>"

definition chi_Use :: "('m handler \<Rightarrow> 'm handler) \<Rightarrow> 'm mux \<Rightarrow> 'm mux" where
  "chi_Use f mux = mux\<lparr>mux_middlewares := mux_middlewares mux @ [f]\<rparr>"

definition chi_Method :: "string \<Rightarrow> string \<Rightarrow> 'm handler \<Rightarrow> 'm mux \<Rightarrow> 'm mux" where
  "chi_Method meth pattern h mux = mux\<lparr>mux_routes := mux_routes mux @
     [\<lparr>rt_Method = meth, rt_Pattern = pattern, rt_Handler = h\<rparr>]\<rparr>"

section \<open>The probe and ping handlers\<close>

definition handlePing :: "unit handler" where
  "handlePing r = Ret (Returned (reply_json 200 (Inr (JObj [(''status'', json_string ''pong'')]))), ())"

text \<open>\<open>encoding/json\<close> writes the fields in the order of the struct and a map by its sorted keys.\<close>

definition timestamp_json :: "go_time \<Rightarrow> (json \<Rightarrow> json) \<Rightarrow> go_error + json" where
  "timestamp_json t k = (case time_MarshalText t of
     Inl e \<Rightarrow> Inl (Wrap ''json: error calling MarshalJSON for type time.Time'' e)
   | Inr s \<Rightarrow> Inr (k (JStr s)))"

definition startup_json :: "startup_response \<Rightarrow> go_error + json" where
  "startup_json r = timestamp_json (su_Timestamp r) (\<lambda>t. JObj
     [(''status'', json_string (status_text (su_Status r))), (''timestamp'', t),
      (''checks'', JObj (map (\<lambda>(n, st). (quote n, json_string (status_text st)))
         (sort_key fst (su_Checks r))))])"

definition liveness_json :: "liveness_response \<Rightarrow> go_error + json" where
  "liveness_json r = timestamp_json (lv_Timestamp r) (\<lambda>t. JObj
     [(''status'', json_string (status_text (lv_Status r))), (''timestamp'', t)])"

definition readiness_json :: "readiness_response \<Rightarrow> go_error + json" where
  "readiness_json r = timestamp_json (rd_Timestamp r) (\<lambda>t. JObj
     [(''status'', json_string (status_text (rd_Status r))), (''timestamp'', t),
      (''ready'', if rd_Ready r then JTrue else JFalse)])"

text \<open>\<open>order\<close>: as for \<open>CheckAll\<close>.\<close>

definition handleStartupProbe :: "manager \<Rightarrow> string list \<Rightarrow> manager handler" where
  "handleStartupProbe m order r = seq (GetStartupStatus m order) (\<lambda>(response, m').
     Ret (Returned (reply_json (if su_Status response = StatusOK then 200 else 503)
       (startup_json response)), m'))"

definition handleLivenessProbe :: "manager \<Rightarrow> manager handler" where
  "handleLivenessProbe m r = seq GetLivenessStatus (\<lambda>response.
     Ret (Returned (reply_json 200 (liveness_json response)), m))"

definition handleReadinessProbe :: "manager \<Rightarrow> manager handler" where
  "handleReadinessProbe m r = seq (GetReadinessStatus m) (\<lambda>(response, m').
     Ret (Returned (reply_json (if rd_Ready response then 200 else 503) (readiness_json response)), m'))"

section \<open>The routers\<close>

text \<open>The parameter \<open>project\<close> in braces.\<close>

definition project_param :: string where
  "project_param = [CHR 0x7B] @ ''project'' @ [CHR 0x7D]"

definition setupAPIRoutes :: "lock_manager \<Rightarrow> bool \<Rightarrow> unit mux \<Rightarrow> unit mux" where
  "setupAPIRoutes lockManager m mux =
     (let mux = chi_Method ''GET'' ''/ping'' handlePing mux;
          h = NewLockHandlers lockManager m;
          mux = chi_Method ''POST'' ''/lock'' (plain_handler (HandleLock h)) mux;
          mux = chi_Method ''POST'' ''/unlock'' (plain_handler (HandleUnlock h)) mux
      in chi_Method ''GET'' (''/lock/'' @ project_param) (plain_handler (HandleGetLock h)) mux)"

definition setupProbeRoutes :: "manager \<Rightarrow> string list \<Rightarrow> manager mux \<Rightarrow> manager mux" where
  "setupProbeRoutes m order mux =
     (let mux = chi_Method ''GET'' ''/healthz/startup''
            (HealthCheckMetricsMiddleware ''startup'' (handleStartupProbe m order)) mux;
          mux = chi_Method ''GET'' ''/healthz/live''
            (HealthCheckMetricsMiddleware ''liveness'' (handleLivenessProbe m)) mux
      in chi_Method ''GET'' ''/healthz/ready''
            (HealthCheckMetricsMiddleware ''readiness'' (handleReadinessProbe m)) mux)"

record chi_middleware =
  chi_RequestID :: "unit handler \<Rightarrow> unit handler"
  chi_Recoverer :: "unit handler \<Rightarrow> unit handler"

definition setupAPIRouter :: "chi_middleware \<Rightarrow> lock_manager \<Rightarrow> bool \<Rightarrow> unit mux" where
  "setupAPIRouter lib lockManager m =
     (let r = chi_NewRouter;
          r = chi_Use (chi_RequestID lib) r;
          r = chi_Use LoggingMiddleware r;
          r = chi_Use MetricsMiddleware r;
          r = chi_Use (chi_Recoverer lib) r
      in setupAPIRoutes lockManager m r)"

text \<open>\<open>Handle\<close> registers a handler for every method, written as \<open>*\<close>.\<close>

definition chi_Handle :: "string \<Rightarrow> 'm handler \<Rightarrow> 'm mux \<Rightarrow> 'm mux" where
  "chi_Handle pattern h mux = chi_Method ''*'' pattern h mux"

text \<open>\<open>promhttp\<close>: the library's handler for a registry.\<close>

definition setupMetricsRouter :: "(registered list \<Rightarrow> unit handler) \<Rightarrow> registered list \<Rightarrow> unit mux" where
  "setupMetricsRouter promhttp registry = chi_Handle ''/metrics'' (promhttp registry) chi_NewRouter"

definition setupProbeRouter :: "manager \<Rightarrow> string list \<Rightarrow> manager mux" where
  "setupProbeRouter m order = setupProbeRoutes m order chi_NewRouter"

section \<open>What chi documents\<close>

text \<open>
  A route matches a request of its method whose path is its pattern; a pattern that ends in the
  parameter \<open>project\<close> matches any last segment, which becomes the parameter's value.
\<close>

definition pattern_matches :: "string \<Rightarrow> request \<Rightarrow> bool" where
  "pattern_matches pattern r \<longleftrightarrow> pattern = rq_Path r \<or>
     (let n = length pattern - length project_param in
        drop n pattern = project_param \<and> take n (rq_Path r) = take n pattern \<and>
        rq_project r = drop n (rq_Path r) \<and> rq_project r \<noteq> [] \<and> CHR ''/'' \<notin> set (rq_project r))"

definition route_matches :: "request \<Rightarrow> 'm route \<Rightarrow> bool" where
  "route_matches r rt \<longleftrightarrow> rt_Method rt \<in> {rq_Method r, ''*''} \<and> pattern_matches (rt_Pattern rt) r"

text \<open>
  The request goes through the middlewares, the first one used outermost, to the handler of the
  first matching route.  No two routes of the service match the same request.
\<close>

definition chi_serves :: "('m mux \<Rightarrow> 'm handler) \<Rightarrow> bool" where
  "chi_serves chi \<longleftrightarrow> (\<forall>mux r rt. List.find (route_matches r) (mux_routes mux) = Some rt \<longrightarrow>
     chi mux r = foldr (\<lambda>f h. f h) (mux_middlewares mux) (rt_Handler rt) r)"

text \<open>
  \<open>RequestID\<close> only adds a value to the request's context; \<open>Recoverer\<close> does nothing to a handler
  that returns.
\<close>

definition chi_passes :: "'w olric \<Rightarrow> chi_middleware \<Rightarrow> bool" where
  "chi_passes api lib \<longleftrightarrow> (\<forall>h r s. run api (chi_RequestID lib h r) s = run api (h r) s) \<and>
     (\<forall>h r s evs s'. run api (h r) s = ((Returned evs, ()), s') \<longrightarrow>
        run api (chi_Recoverer lib h r) s = ((Returned evs, ()), s'))"


section \<open>A request through the API server\<close>

lemmas chi_defs = chi_NewRouter_def chi_Use_def chi_Method_def

text \<open>
  The lock request that an HTTP request is, if it is one.  A project that is not UTF-8 is left out:
  \<open>MetricsMiddleware\<close> makes a label of the path, on which the client library of Prometheus panics.
\<close>

definition api_route :: "request \<Rightarrow> api_call option" where
  "api_route r =
     (if rq_Method r = ''POST'' \<and> rq_Path r = ''/lock'' then Some (CallLock r)
      else if rq_Method r = ''POST'' \<and> rq_Path r = ''/unlock'' then Some (CallUnlock r)
      else if rq_Method r = ''GET'' \<and> rq_Path r = ''/lock/'' @ rq_project r \<and> rq_project r \<noteq> [] \<and>
        CHR ''/'' \<notin> set (rq_project r) \<and> valid_utf8 (rq_project r) then Some (CallGet r)
      else None)"

lemma api_mux:
  "mux_middlewares (setupAPIRouter lib lm m) =
     [chi_RequestID lib, LoggingMiddleware, MetricsMiddleware, chi_Recoverer lib]"
  by (simp add: setupAPIRouter_def setupAPIRoutes_def chi_defs Let_def)

lemma find_api_route:
  assumes "api_route r = Some c"
  obtains rt where "List.find (route_matches r) (mux_routes (setupAPIRouter lib lm m)) = Some rt"
    "rt_Handler rt r = seq (serve (NewLockHandlers lm m) c) (\<lambda>evs. Ret (Returned evs, ()))"
proof -
  have "\<exists>rt. List.find (route_matches r) (mux_routes (setupAPIRouter lib lm m)) = Some rt \<and>
    rt_Handler rt r = seq (serve (NewLockHandlers lm m) c) (\<lambda>evs. Ret (Returned evs, ()))"
    using assms
    by (auto simp: api_route_def setupAPIRouter_def setupAPIRoutes_def chi_defs Let_def route_matches_def
        pattern_matches_def project_param_def plain_handler_def split: if_splits)
  then show thesis using that by blast
qed

lemma serve_json_shape: "json_shape (fst (run api (serve h c) s))"
proof -
  have j: "json_shape (map HMetric ms @ reply_json c' j)" for ms c' j by (auto simp: json_shape_def)
  note shapes = invalid_reply_def lock_reply_def unlock_reply_def get_reply_def respondError_def
    respondLock_def respondJSON_def j
  show ?thesis
  proof (cases c)
    case (CallLock r)
    then show ?thesis
      by (cases rule: HandleLock_shape [of r api h s]) (auto simp: shapes split: prod.splits option.splits)
  next
    case (CallUnlock r)
    then show ?thesis
      by (cases rule: HandleUnlock_shape [of r api h s]) (auto simp: shapes split: option.splits)
  next
    case (CallGet r)
    then show ?thesis
      by (cases rule: HandleGetLock_shape [of r api h s]) (auto simp: shapes split: sum.splits)
  qed
qed

lemma serve_calls:
  "\<exists>op st. metric_calls (fst (run api (serve h c) s)) = counted h op st"
  using HandleLock_replies HandleUnlock_replies HandleGetLock_replies by (cases c) (simp; blast)+

text \<open>What \<open>MetricsMiddleware\<close> adds to a reply with one status.\<close>

lemma Metrics_Returned:
  assumes "run api (next r) (tick api s) = ((Returned evs, m), s')"
  shows "\<exists>evs'. run api (MetricsMiddleware next r) s = ((Returned evs', m), tick api s') \<and>
    deliver evs' = deliver evs \<and>
    filter (\<lambda>c. call_name c = ''http_requests_total'') (metric_calls evs') =
      filter (\<lambda>c. call_name c = ''http_requests_total'') (metric_calls evs) @
      [Inc ''http_requests_total'' [rq_Method r, getRoutePattern r, strconv_Itoa (rw_statusCode (recorded evs))]] \<and>
    in_flight (metric_calls evs') = in_flight (metric_calls evs) \<and>
    well_used (register ns) (metric_calls evs') = well_used (register ns) (metric_calls evs)"
  using assms by (auto simp: MetricsMiddleware_def Let_def prog_simps deliver_def)

lemma Logging_Returned:
  assumes "run api (next r) (tick api s) = ((Returned evs, m), s')"
  shows "run api (LoggingMiddleware next r) s = ((Returned evs, m), tick api s')"
  using assms by (simp add: LoggingMiddleware_def prog_simps)


text \<open>The metrics server hands \<open>/metrics\<close> to the handler of the registry it was given, whatever the method.\<close>

lemma metrics_endpoint:
  assumes "chi_serves chi" and "rq_Path r = ''/metrics''"
  shows "chi (setupMetricsRouter promhttp reg) r = promhttp reg r"
  using assms
  by (simp add: chi_serves_def setupMetricsRouter_def chi_Handle_def chi_NewRouter_def chi_Method_def
      route_matches_def pattern_matches_def)

text \<open>A router that does what chi documents, for the witnesses.\<close>

definition ref_chi :: "'m \<Rightarrow> 'm mux \<Rightarrow> 'm handler" where
  "ref_chi m mux r = (case List.find (route_matches r) (mux_routes mux) of
     Some rt \<Rightarrow> foldr (\<lambda>f h. f h) (mux_middlewares mux) (rt_Handler rt) r
   | None \<Rightarrow> Ret (Returned [HWriteHeader 404], m))"

definition ref_middleware :: chi_middleware where
  "ref_middleware = \<lparr>chi_RequestID = id, chi_Recoverer = id\<rparr>"

lemma ref_chi_serves: "chi_serves (ref_chi m)"
  by (simp add: chi_serves_def ref_chi_def)

lemma ref_middleware_passes: "chi_passes api ref_middleware"
  by (simp add: chi_passes_def ref_middleware_def)

lemma through_router:
  assumes "chi_serves chi" and "chi_passes api lib" and "api_route r = Some c"
    and "run api (serve (NewLockHandlers lm m) c) (tick api (tick api s)) = (evs, s')"
  shows "\<exists>evs'. run api (chi (setupAPIRouter lib lm m) r) s = ((Returned evs', ()), tick api (tick api s')) \<and>
    deliver evs' = deliver evs \<and>
    filter (\<lambda>c. call_name c = ''http_requests_total'') (metric_calls evs') =
      [Inc ''http_requests_total'' [rq_Method r, getRoutePattern r, strconv_Itoa (status_of evs)]] \<and>
    in_flight (metric_calls evs') = 0 \<and> well_used (register ns) (metric_calls evs')"
proof -
  obtain rt where rt: "List.find (route_matches r) (mux_routes (setupAPIRouter lib lm m)) = Some rt"
    "rt_Handler rt r = seq (serve (NewLockHandlers lm m) c) (\<lambda>evs. Ret (Returned evs, ()))"
    using assms(3) by (rule find_api_route)
  have chi: "chi (setupAPIRouter lib lm m) r =
      chi_RequestID lib (LoggingMiddleware (MetricsMiddleware (chi_Recoverer lib (rt_Handler rt)))) r"
    using assms(1) rt(1) by (auto simp: chi_serves_def api_mux)
  have "run api (rt_Handler rt r) (tick api (tick api s)) = ((Returned evs, ()), s')"
    using assms(4) by (simp add: rt(2) prog_simps)
  then have "run api (chi_Recoverer lib (rt_Handler rt) r) (tick api (tick api s)) = ((Returned evs, ()), s')"
    using assms(2) by (auto simp: chi_passes_def)
  from Metrics_Returned [of api "chi_Recoverer lib (rt_Handler rt)" r, OF this, of ns] obtain evs' where
    e: "run api (MetricsMiddleware (chi_Recoverer lib (rt_Handler rt)) r) (tick api s) =
        ((Returned evs', ()), tick api s')"
      "deliver evs' = deliver evs"
      "filter (\<lambda>c. call_name c = ''http_requests_total'') (metric_calls evs') =
        filter (\<lambda>c. call_name c = ''http_requests_total'') (metric_calls evs) @
        [Inc ''http_requests_total'' [rq_Method r, getRoutePattern r, strconv_Itoa (rw_statusCode (recorded evs))]]"
      "in_flight (metric_calls evs') = in_flight (metric_calls evs)"
      "well_used (register ns) (metric_calls evs') = well_used (register ns) (metric_calls evs)"
    by blast
  obtain op st where c: "metric_calls evs = counted (NewLockHandlers lm m) op st"
    using serve_calls [of api "NewLockHandlers lm m" c "tick api (tick api s)"] assms(4) by auto
  have "json_shape evs"
    using serve_json_shape [of api "NewLockHandlers lm m" c "tick api (tick api s)"] assms(4) by simp
  then have st: "rw_statusCode (recorded evs) = status_of evs"
    using recorded_json_shape [of evs] by (simp add: status_of_def)
  have "run api (chi (setupAPIRouter lib lm m) r) s = ((Returned evs', ()), tick api (tick api s'))"
    unfolding chi using assms(2) Logging_Returned [of api "MetricsMiddleware (chi_Recoverer lib (rt_Handler rt))" r, OF e(1)] by (simp add: chi_passes_def)
  with e(2-) c st show ?thesis by (auto simp: counted_def)
qed

text \<open>
  C17.  A lock request through the API server, with its router and all its middlewares, is the
  handler's own run between readings of the clock: the client gets the handler's reply, the request
  is counted once, under the status that the client got, the gauge of requests in flight is back
  where it was, and every call on a metric is of the metric's kind and has a value for each label.
\<close>

theorem api_request_served:
  assumes "chi_serves chi" and "chi_passes api lib" and "api_route r = Some c"
    and "run api (serve (NewLockHandlers lm m) c) (tick api (tick api s)) = (evs, s')"
  shows "\<exists>evs'. run api (chi (setupAPIRouter lib lm m) r) s = ((Returned evs', ()), tick api (tick api s')) \<and>
    deliver evs' = deliver evs \<and>
    filter (\<lambda>c. call_name c = ''http_requests_total'') (metric_calls evs') =
      [Inc ''http_requests_total'' [rq_Method r, getRoutePattern r, strconv_Itoa (status_of evs)]] \<and>
    in_flight (metric_calls evs') = 0 \<and> well_used (register ns) (metric_calls evs')"
  by (rule through_router [OF assms])

definition bad_request :: request where
  "bad_request = \<lparr>rq_Method = ''POST'', rq_Path = ''/unlock'', rq_ContentLength = 2, rq_Body = ''no'',
     rq_RoutePattern = None, rq_project = []\<rparr>"

lemma api_request_served_witness:
  "\<exists>evs' s'. run ref_api (ref_chi () (setupAPIRouter ref_middleware (olric_locks default_store) True) bad_request) ref_node =
      ((Returned evs', ()), s') \<and>
    filter (\<lambda>c. call_name c = ''http_requests_total'') (metric_calls evs') =
      [Inc ''http_requests_total'' [''POST'', ''/unlock'', ''400'']]"
proof -
  let ?lm = "olric_locks default_store"
  let ?c = "CallUnlock bad_request"
  have c: "api_route bad_request = Some ?c" by (simp add: api_route_def bad_request_def)
  obtain evs s' where r: "run ref_api (serve (NewLockHandlers ?lm True) ?c) (tick ref_api (tick ref_api ref_node)) =
      (evs, s')" by (meson surj_pair)
  have "unlock_target bad_request = None" by code_simp
  then have "status_of evs = 400"
    using HandleUnlock_replies [of ref_api "NewLockHandlers ?lm True" bad_request
        "tick ref_api (tick ref_api ref_node)"] r by simp
  moreover have "strconv_Itoa 400 = ''400''" by code_simp
  moreover have "getRoutePattern bad_request = ''/unlock''" "rq_Method bad_request = ''POST''"
    by (simp_all add: getRoutePattern_def bad_request_def)
  ultimately show ?thesis
    using api_request_served [OF ref_chi_serves ref_middleware_passes c r, of "()" "''x''"] by auto
qed

section \<open>The probes through their server\<close>

definition probe_request :: "string \<Rightarrow> request" where
  "probe_request name = \<lparr>rq_Method = ''GET'', rq_Path = ''/healthz/'' @ name, rq_ContentLength = 0,
     rq_Body = [], rq_RoutePattern = None, rq_project = []\<rparr>"

lemma probe_mux_middlewares [simp]: "mux_middlewares (setupProbeRouter m order) = []"
  by (simp add: setupProbeRouter_def setupProbeRoutes_def chi_defs Let_def)

lemma find_probe_route:
  "\<exists>rt. List.find (route_matches (probe_request ''startup'')) (mux_routes (setupProbeRouter m order)) = Some rt \<and>
     rt_Handler rt = HealthCheckMetricsMiddleware ''startup'' (handleStartupProbe m order)"
  "\<exists>rt. List.find (route_matches (probe_request ''live'')) (mux_routes (setupProbeRouter m order)) = Some rt \<and>
     rt_Handler rt = HealthCheckMetricsMiddleware ''liveness'' (handleLivenessProbe m)"
  "\<exists>rt. List.find (route_matches (probe_request ''ready'')) (mux_routes (setupProbeRouter m order)) = Some rt \<and>
     rt_Handler rt = HealthCheckMetricsMiddleware ''readiness'' (handleReadinessProbe m)"
  by (simp_all add: setupProbeRouter_def setupProbeRoutes_def chi_defs Let_def route_matches_def
      pattern_matches_def project_param_def probe_request_def)

lemma probe_run:
  assumes "chi_serves chi"
    and "\<exists>rt. List.find (route_matches r) (mux_routes (setupProbeRouter m order)) = Some rt \<and>
      rt_Handler rt = HealthCheckMetricsMiddleware n h"
    and "run api (h r) (tick api s) = ((Returned (reply_json code j), m'), s1)"
  shows "\<exists>evs s' d t. run api (chi (setupProbeRouter m order) r) s = ((Returned evs, m'), s') \<and>
    deliver evs = deliver (reply_json code j) \<and> metric_calls evs = health_calls n code d t"
proof -
  have "chi (setupProbeRouter m order) r = HealthCheckMetricsMiddleware n h r"
    using assms(1,2) by (auto simp: chi_serves_def)
  moreover have "rw_statusCode (recorded (reply_json code j)) = code"
    using recorded_reply_json [of "[]" code j] by simp
  ultimately show ?thesis using Health_Returned [of api h r, OF assms(3), of n] by simp
qed


lemma probe_fields_raw_ok:
  "raw_ok ''timestamp''" "raw_ok ''checks''" "raw_ok ''ready''"
  by (rule plain_raw_ok; simp add: plain_def)+

lemma checks_json_wf:
  "wf_members (map (\<lambda>(n, st). (quote n, json_string (status_text st))) cs)"
  "depth_members (map (\<lambda>(n, st). (quote n, json_string (status_text st))) cs) = 0"
  by (induction cs) (auto simp: quote_raw_ok json_string_def)

lemma probe_json_wf:
  "startup_json a = Inr j \<Longrightarrow> wf_json j \<and> depth j \<le> max_depth"
  "liveness_json b = Inr j \<Longrightarrow> wf_json j \<and> depth j \<le> max_depth"
  "readiness_json c = Inr j \<Longrightarrow> wf_json j \<and> depth j \<le> max_depth"
  using time_text_raw_ok checks_json_wf quote_raw_ok probe_fields_raw_ok
  by (auto simp: startup_json_def liveness_json_def readiness_json_def timestamp_json_def json_string_def
      max_depth_def split: sum.splits)

text \<open>What the client of a probe gets: a status, and a JSON object that its decoder reads back.\<close>

definition probe_reply :: "http_event list \<Rightarrow> int \<Rightarrow> go_error + json \<Rightarrow> bool" where
  "probe_reply evs code j \<longleftrightarrow> rs_code (deliver evs) = Some code \<and>
     (case j of Inl _ \<Rightarrow> rs_body (deliver evs) = [] | Inr v \<Rightarrow> decode_first (rs_body (deliver evs)) = Some v)"

lemma probe_reply_json:
  assumes "deliver evs = deliver (reply_json code j)" "\<And>v. j = Inr v \<Longrightarrow> wf_json v \<and> depth v \<le> max_depth"
  shows "probe_reply evs code j"
  using assms deliver_reply_json [of "[]" code j] reply_body_decodes
  by (auto simp: probe_reply_def split: sum.splits)

text \<open>
  C18.  The probes through their server.  Startup answers 200 exactly when the startup status is ok,
  readiness exactly when the service is ready, else 503; liveness always 200.  The body is the JSON
  of the status, which a client reads back, and the gauges of the check agree with the code.
\<close>

theorem probes_answer:
  assumes "chi_serves chi"
  shows "(case run api (GetStartupStatus m order) (tick api s) of ((resp, m'), _) \<Rightarrow>
      \<exists>evs s' d t. run api (chi (setupProbeRouter m order) (probe_request ''startup'')) s = ((Returned evs, m'), s') \<and>
        probe_reply evs (if su_Status resp = StatusOK then 200 else 503) (startup_json resp) \<and>
        metric_calls evs = health_calls ''startup'' (if su_Status resp = StatusOK then 200 else 503) d t) \<and>
    (case run api (GetReadinessStatus m) (tick api s) of ((resp, m'), _) \<Rightarrow>
      \<exists>evs s' d t. run api (chi (setupProbeRouter m order) (probe_request ''ready'')) s = ((Returned evs, m'), s') \<and>
        probe_reply evs (if rd_Ready resp then 200 else 503) (readiness_json resp) \<and>
        metric_calls evs = health_calls ''readiness'' (if rd_Ready resp then 200 else 503) d t) \<and>
    (\<exists>evs s' d t resp. run api (chi (setupProbeRouter m order) (probe_request ''live'')) s = ((Returned evs, m), s') \<and>
        probe_reply evs 200 (liveness_json resp) \<and> metric_calls evs = health_calls ''liveness'' 200 d t)"
proof (intro conjI)
  obtain resp m' s1 where r: "run api (GetStartupStatus m order) (tick api s) = ((resp, m'), s1)"
    by (metis surj_pair)
  then have "run api (handleStartupProbe m order (probe_request ''startup'')) (tick api s) = ((Returned
      (reply_json (if su_Status resp = StatusOK then 200 else 503) (startup_json resp)), m'), s1)"
    by (simp add: handleStartupProbe_def prog_simps)
  from probe_run [OF assms find_probe_route(1) this] probe_reply_json probe_json_wf(1) r
  show "case run api (GetStartupStatus m order) (tick api s) of ((resp, m'), _) \<Rightarrow>
      \<exists>evs s' d t. run api (chi (setupProbeRouter m order) (probe_request ''startup'')) s = ((Returned evs, m'), s') \<and>
        probe_reply evs (if su_Status resp = StatusOK then 200 else 503) (startup_json resp) \<and>
        metric_calls evs = health_calls ''startup'' (if su_Status resp = StatusOK then 200 else 503) d t"
    by (simp only: prod.case) blast
next
  obtain resp m' s1 where r: "run api (GetReadinessStatus m) (tick api s) = ((resp, m'), s1)"
    by (metis surj_pair)
  then have "run api (handleReadinessProbe m (probe_request ''ready'')) (tick api s) = ((Returned
      (reply_json (if rd_Ready resp then 200 else 503) (readiness_json resp)), m'), s1)"
    by (simp add: handleReadinessProbe_def prog_simps)
  from probe_run [OF assms find_probe_route(3) this] probe_reply_json probe_json_wf(3) r
  show "case run api (GetReadinessStatus m) (tick api s) of ((resp, m'), _) \<Rightarrow>
      \<exists>evs s' d t. run api (chi (setupProbeRouter m order) (probe_request ''ready'')) s = ((Returned evs, m'), s') \<and>
        probe_reply evs (if rd_Ready resp then 200 else 503) (readiness_json resp) \<and>
        metric_calls evs = health_calls ''readiness'' (if rd_Ready resp then 200 else 503) d t"
    by (simp only: prod.case) blast
next
  let ?resp = "\<lparr>lv_Status = StatusOK, lv_Timestamp = clock api (tick api s)\<rparr>"
  have "run api (handleLivenessProbe m (probe_request ''live'')) (tick api s) =
      ((Returned (reply_json 200 (liveness_json ?resp)), m), tick api (tick api s))"
    by (simp add: handleLivenessProbe_def GetLivenessStatus_def)
  from probe_run [OF assms find_probe_route(2) this] probe_reply_json probe_json_wf(2)
  show "\<exists>evs s' d t resp. run api (chi (setupProbeRouter m order) (probe_request ''live'')) s = ((Returned evs, m), s') \<and>
      probe_reply evs 200 (liveness_json resp) \<and> metric_calls evs = health_calls ''liveness'' 200 d t"
    by blast
qed

lemma probes_answer_witness:
  "\<exists>evs s' d t resp. run ref_api (ref_chi sample_manager (setupProbeRouter sample_manager []) (probe_request ''live'')) ref_node =
      ((Returned evs, sample_manager), s') \<and>
    probe_reply evs 200 (liveness_json resp) \<and> metric_calls evs = health_calls ''liveness'' 200 d t"
  using probes_answer [where api = ref_api and m = sample_manager and order = "[]" and s = ref_node,
    OF ref_chi_serves [of sample_manager]] by blast

end
