(* ===== verification/GoDuration.thy ===== *)
theory GoDuration
  imports GoTime
begin

text \<open>
  \<open>time.ParseDuration\<close>: a sign, then numbers with a unit, up to the limits of 64 bits.  The fraction
  is scaled exactly; Go scales it in floating point, which differs at most where a fraction has
  more digits than its unit has nanoseconds.
\<close>

definition duration_error :: "string \<Rightarrow> string \<Rightarrow> go_error" where
  "duration_error what s = New (''time: '' @ what @ ''invalid duration '' @ [CHR 0x22] @ s @ [CHR 0x22])"

text \<open>\<open>leadingInt\<close>: \<open>None\<close> is overflow.\<close>

fun leadingInt :: "nat \<Rightarrow> string \<Rightarrow> (nat \<times> string) option" where
  "leadingInt x [] = Some (x, [])"
| "leadingInt x (c # s) =
     (if \<not> is_digit c then Some (x, c # s)
      else if x > 2 ^ 63 div 10 then None
      else let y = x * 10 + digit_val c in if y > 2 ^ 63 then None else leadingInt y s)"

text \<open>\<open>leadingFraction\<close>: the digits, their scale, the rest; further digits are dropped on overflow.\<close>

fun leadingFraction :: "nat \<Rightarrow> nat \<Rightarrow> bool \<Rightarrow> string \<Rightarrow> nat \<times> nat \<times> string" where
  "leadingFraction x scale over [] = (x, scale, [])"
| "leadingFraction x scale over (c # s) =
     (if \<not> is_digit c then (x, scale, c # s)
      else if over \<or> x > (2 ^ 63 - 1) div 10 then leadingFraction x scale True s
      else let y = x * 10 + digit_val c in
        if y > 2 ^ 63 then leadingFraction x scale True s else leadingFraction y (scale * 10) False s)"

lemma leadingInt_length: "leadingInt x s = Some (v, r) \<Longrightarrow> length r \<le> length s"
  by (induction x s rule: leadingInt.induct) (auto simp: Let_def split: if_splits)

lemma leadingFraction_length: "leadingFraction x sc ov s = (f, sc', r) \<Longrightarrow> length r \<le> length s"
  by (induction x sc ov s rule: leadingFraction.induct) (auto simp: Let_def split: if_splits)

definition unitMap :: "string \<Rightarrow> nat option" where
  "unitMap = map_of [(''ns'', 1), (''us'', 1000), ([CHR 0xC2, CHR 0xB5, CHR ''s''], 1000),
     ([CHR 0xCE, CHR 0xBC, CHR ''s''], 1000), (''ms'', 1000000), (''s'', 1000000000),
     (''m'', 60 * 1000000000), (''h'', 3600 * 1000000000)]"

definition unit_char :: "char \<Rightarrow> bool" where
  "unit_char c \<longleftrightarrow> c \<noteq> CHR ''.'' \<and> \<not> is_digit c"

text \<open>One number with its unit: the nanoseconds and the rest of the text.\<close>

definition duration_fraction :: "string \<Rightarrow> nat \<times> nat \<times> bool \<times> string" where
  "duration_fraction s = (if s \<noteq> [] \<and> hd s = CHR ''.''
     then (case leadingFraction 0 1 False (tl s) of (f, scale, r) \<Rightarrow>
       (f, scale, length r \<noteq> length (tl s), r))
     else (0, 1, False, s))"

lemma duration_fraction_length: "duration_fraction s = (f, sc, post, r) \<Longrightarrow> length r \<le> length s"
  by (cases s) (auto simp: duration_fraction_def split: if_splits prod.splits dest!: leadingFraction_length)

definition duration_part :: "string \<Rightarrow> (nat \<times> string) option" where
  "duration_part s = (case leadingInt 0 s of
     None \<Rightarrow> None
   | Some (v, s1) \<Rightarrow>
       let pre = length s1 \<noteq> length s;
           (f, scale, post, s2) = duration_fraction s1;
           u = takeWhile unit_char s2; s3 = dropWhile unit_char s2
       in if \<not> pre \<and> \<not> post then None
          else if u = [] then None
          else (case unitMap u of
            None \<Rightarrow> None
          | Some unit \<Rightarrow>
              if v > 2 ^ 63 div unit then None
              else let w = v * unit + (if f > 0 then f * unit div scale else 0)
                in if w > 2 ^ 63 then None else Some (w, s3)))"

lemma duration_part_length:
  assumes "duration_part s = Some (w, s3)"
  shows "length s3 < length s"
proof -
  have d: "length (dropWhile unit_char s2) < length s2" if "takeWhile unit_char s2 \<noteq> []" for s2 :: string
  proof -
    have "length s2 = length (takeWhile unit_char s2) + length (dropWhile unit_char s2)"
      by (metis length_append takeWhile_dropWhile_id)
    with that show ?thesis by (cases "takeWhile unit_char s2") auto
  qed
  have i: "length (dropWhile unit_char s2) < length s"
    if "length s2 \<le> length s" "takeWhile unit_char s2 \<noteq> []" for s2
    using d [OF that(2)] that(1) by simp
  obtain v s1 where v: "leadingInt 0 s = Some (v, s1)"
    using assms by (auto simp: duration_part_def split: option.splits)
  obtain f scale post s2 where f: "duration_fraction s1 = (f, scale, post, s2)"
    by (cases "duration_fraction s1")
  with duration_fraction_length leadingInt_length [OF v] have l: "length s2 \<le> length s"
    by fastforce
  have "takeWhile unit_char s2 \<noteq> []" "s3 = dropWhile unit_char s2"
    using assms unfolding duration_part_def v f option.case Let_def prod.case
    by (auto split: if_splits option.splits simp del: takeWhile_eq_Nil_iff)
  with i [OF l] show ?thesis by simp
qed

function duration_parts :: "nat \<Rightarrow> string \<Rightarrow> nat option" where
  "duration_parts d s =
     (if s = [] then Some d
      else case duration_part s of
        None \<Rightarrow> None
      | Some (v, s') \<Rightarrow> if d + v > 2 ^ 63 then None else duration_parts (d + v) s')"
  by pat_completeness auto
termination
  by (relation "measure (length \<circ> snd)") (auto dest: duration_part_length)

declare duration_parts.simps [simp del]

definition time_ParseDuration :: "string \<Rightarrow> go_error + int" where
  "time_ParseDuration orig =
     (let neg = (orig \<noteq> [] \<and> hd orig = CHR ''-'');
          s = (if orig \<noteq> [] \<and> (hd orig = CHR ''-'' \<or> hd orig = CHR ''+'') then tl orig else orig)
      in if s = ''0'' then Inr 0
         else if s = [] then Inl (duration_error [] orig)
         else (case duration_parts 0 s of
           None \<Rightarrow> Inl (duration_error [] orig)
         | Some d \<Rightarrow> if neg then Inr (- int d)
             else if d > 2 ^ 63 - 1 then Inl (duration_error [] orig) else Inr (int d)))"

lemma parse_samples:
  "time_ParseDuration ''30s'' = Inr (30 * Second)" "time_ParseDuration ''5s'' = Inr (5 * Second)"
  "time_ParseDuration ''10s'' = Inr (10 * Second)" "time_ParseDuration ''1s'' = Inr Second"
  by (simp_all add: time_ParseDuration_def duration_parts.simps duration_part_def duration_fraction_def Let_def unitMap_def
      unit_char_def is_digit_def digit_val_def)

section \<open>What \<open>String\<close> prints is read back\<close>

abbreviation digits_from :: "nat \<Rightarrow> string \<Rightarrow> nat" where
  "digits_from \<equiv> foldl (\<lambda>a c. 10 * a + digit_val c)"

lemma digits_from_ge: "x * 10 ^ length ds \<le> digits_from x ds"
proof (induction ds arbitrary: x)
  case (Cons c ds)
  have "x * 10 ^ length (c # ds) \<le> (10 * x + digit_val c) * 10 ^ length ds"
    by (simp add: algebra_simps)
  also have "\<dots> \<le> digits_from (10 * x + digit_val c) ds" by (rule Cons)
  finally show ?case by simp
qed simp

lemma digits_from_mono: "x \<le> digits_from x ds"
proof -
  have "x \<le> x * 10 ^ length ds" by simp
  with digits_from_ge [of x ds] show ?thesis by linarith
qed

definition no_digit :: "string \<Rightarrow> bool" where
  "no_digit r \<longleftrightarrow> r = [] \<or> \<not> is_digit (hd r)"

lemma leadingInt_digits:
  assumes "list_all is_digit ds" "no_digit r" "digits_from x ds \<le> 2 ^ 63"
  shows "leadingInt x (ds @ r) = Some (digits_from x ds, r)"
  using assms(1,3)
proof (induction ds arbitrary: x)
  case Nil
  then show ?case using assms(2) by (cases r) (auto simp: no_digit_def)
next
  case (Cons c ds)
  have y: "10 * x + digit_val c \<le> 2 ^ 63"
    using digits_from_mono [of "10 * x + digit_val c" ds] Cons.prems by simp
  then have "x \<le> 2 ^ 63 div 10" by simp
  with y Cons show ?case by (simp add: Let_def mult.commute)
qed

lemma leadingFraction_digits:
  assumes "list_all is_digit ds" "no_digit r" "digits_from x ds < 2 ^ 63"
  shows "leadingFraction x sc False (ds @ r) = (digits_from x ds, sc * 10 ^ length ds, r)"
  using assms(1,3)
proof (induction ds arbitrary: x sc)
  case Nil
  then show ?case using assms(2) by (cases r) (auto simp: no_digit_def)
next
  case (Cons c ds)
  have y: "10 * x + digit_val c < 2 ^ 63"
    using digits_from_mono [of "10 * x + digit_val c" ds] Cons.prems by simp
  then have "x \<le> (2 ^ 63 - 1) div 10" by simp
  with y Cons show ?case by (simp add: Let_def mult.commute)
qed

lemma dec_nat_digits: "list_all is_digit (dec_nat n) \<and> digits_val (dec_nat n) = n \<and> dec_nat n \<noteq> []"
proof (induction n rule: dec_nat.induct)
  case (1 n)
  have b: "byte (char_of (48 + n mod 10 :: nat)) = 48 + n mod 10" by (rule byte_digit)
  have d: "is_digit (char_of (48 + n mod 10 :: nat)) \<and> digit_val (char_of (48 + n mod 10 :: nat)) = n mod 10"
    unfolding is_digit_def digit_val_def b by (simp add: less_Suc_eq_le [symmetric])
  show ?case
  proof (cases "n < 10")
    case True
    with d show ?thesis by (simp add: dec_nat.simps [of n] digits_val_def)
  next
    case False
    with 1 d show ?thesis by (subst (1 2 3) dec_nat.simps) (simp add: digits_val_snoc)
  qed
qed

text \<open>A printed number with its unit is one part.\<close>

definition unit_end :: "string \<Rightarrow> bool" where
  "unit_end r \<longleftrightarrow> r = [] \<or> \<not> unit_char (hd r)"

lemma unit_split:
  assumes "list_all unit_char u" "unit_end r"
  shows "takeWhile unit_char (u @ r) = u" "dropWhile unit_char (u @ r) = r"
  using assms by (induction u) (cases r; auto simp: unit_end_def)+

lemma unit_no_digit: "list_all unit_char u \<Longrightarrow> u \<noteq> [] \<Longrightarrow> no_digit (u @ r)"
  by (cases u) (auto simp: no_digit_def unit_char_def)

lemma duration_part_int:
  assumes "list_all unit_char u" "u \<noteq> []" "unitMap u = Some unit" "0 < unit" "v * unit \<le> 2 ^ 63" "unit_end r"
  shows "duration_part (dec_nat v @ u @ r) = Some (v * unit, r)"
proof -
  have le: "v \<le> 2 ^ 63 div unit" using assms(4,5) by (simp add: less_eq_div_iff_mult_less_eq)
  then have "v \<le> 2 ^ 63" by (meson div_le_dividend le_trans)
  then have l: "leadingInt 0 (dec_nat v @ u @ r) = Some (v, u @ r)"
    using leadingInt_digits [of "dec_nat v" "u @ r" 0] dec_nat_digits [of v]
      unit_no_digit [OF assms(1,2)] by (simp add: digits_val_def)
  have f: "duration_fraction (u @ r) = (0, 1, False, u @ r)"
    using assms(1,2) by (cases u) (auto simp: duration_fraction_def unit_char_def)
  have "length (u @ r) \<noteq> length (dec_nat v @ u @ r)" using dec_nat_digits [of v] by simp
  with le assms(2,3,5) show ?thesis
    unfolding duration_part_def l option.case f Let_def prod.case unit_split [OF assms(1,6)] by simp
qed

lemma duration_part_frac:
  assumes u: "list_all unit_char u" "u \<noteq> []" "unitMap u = Some (10 ^ prec)"
    and v: "v \<le> 2 ^ 63" "prec \<le> 9" and r: "unit_end r"
  shows "duration_part (fmt_frac prec v @ u @ r) = Some (v, r)"
proof (cases "v mod 10 ^ prec = 0")
  case True
  then have "v div 10 ^ prec * 10 ^ prec = v" by auto
  with duration_part_int [OF u _ _ r, of "v div 10 ^ prec"] v True show ?thesis
    by (simp add: fmt_frac_def Let_def)
next
  case False
  define f where "f = v mod 10 ^ prec"
  define ds where "ds = strip_zeros (pad prec f)"
  have f: "0 < f" "f < 10 ^ prec" using False by (simp_all add: f_def)
  have dig: "list_all is_digit ds" "ds \<noteq> []"
    unfolding ds_def using strip_zeros_digits strip_zeros_nonempty [OF f] by auto
  have split: "pad prec f = ds @ replicate (prec - length ds) CHR ''0''"
    using strip_zeros_split [of "pad prec f"] by (simp add: ds_def)
  then have len: "length ds \<le> prec" by (metis length_append length_pad le_add1)
  have val: "digits_val ds * 10 ^ (prec - length ds) = f"
    using digits_val_zeros [of ds "prec - length ds"] digits_val_pad [OF f(2)] unfolding split [symmetric] by simp
  have pw: "(10 :: nat) ^ prec = 10 ^ (prec - length ds) * 10 ^ length ds"
    using len by (simp flip: power_add)
  have scaled: "digits_val ds * 10 ^ prec div 10 ^ length ds = f"
    unfolding pw using val by (simp flip: mult.assoc)
  have pos: "0 < digits_val ds" using val f(1) by (cases "digits_val ds") auto
  have small: "digits_from 0 ds < 2 ^ 63"
  proof -
    have "digits_val ds \<le> f" using val by (metis le_add1 mult_le_mono2 mult.right_neutral one_le_power one_le_numeral)
    also have "f < 10 ^ 9" using f(2) v(2) by (meson less_le_trans one_le_numeral power_increasing)
    finally show ?thesis by (simp add: digits_val_def)
  qed
  define q where "q = v div 10 ^ prec"
  have vq: "q * 10 ^ prec + f = v" unfolding q_def f_def by (rule div_mult_mod_eq)
  have q: "q \<le> 2 ^ 63 div 10 ^ prec" using v(1) by (simp add: q_def div_le_mono)
  then have q63: "q \<le> 2 ^ 63" by (meson div_le_dividend le_trans)
  define rest where "rest = CHR ''.'' # ds @ u @ r"
  have nd: "no_digit rest" by (simp add: no_digit_def rest_def is_digit_def)
  have l: "leadingInt 0 (dec_nat q @ rest) = Some (q, rest)"
    using leadingInt_digits [OF _ nd, of "dec_nat q" 0] dec_nat_digits [of q] q63 by (simp add: digits_val_def)
  have lf: "leadingFraction 0 1 False (ds @ u @ r) = (digits_val ds, 10 ^ length ds, u @ r)"
    using leadingFraction_digits [OF dig(1) unit_no_digit [OF u(1,2)] small] by (simp add: digits_val_def)
  have fr: "duration_fraction rest = (digits_val ds, 10 ^ length ds, True, u @ r)"
    using dig(2) lf by (simp add: duration_fraction_def rest_def)
  have e: "fmt_frac prec v @ u @ r = dec_nat q @ rest"
    using False by (simp add: fmt_frac_def Let_def q_def f_def ds_def rest_def)
  show ?thesis
    using u(2,3) q pos scaled vq v(1)
    unfolding e duration_part_def l option.case fr Let_def prod.case unit_split [OF u(1) r] by simp
qed


lemma duration_parts_step:
  assumes "duration_part s = Some (v, s')" "d + v \<le> 2 ^ 63"
  shows "duration_parts d s = duration_parts (d + v) s'"
  using assms duration_part_length [OF assms(1)] by (subst duration_parts.simps) auto

lemma duration_parts_Nil [simp]: "duration_parts d [] = Some d"
  by (simp add: duration_parts.simps)

lemma number_head: "\<exists>c t. dec_nat n = c # t \<and> is_digit c" "\<exists>c t. fmt_frac p n = c # t \<and> is_digit c"
proof -
  show "\<exists>c t. dec_nat n = c # t \<and> is_digit c" for n using dec_nat_digits [of n] by (cases "dec_nat n") auto
  then show "\<exists>c t. fmt_frac p n = c # t \<and> is_digit c"
    by (metis (no_types, lifting) append_Cons fmt_frac_def)
qed

lemma unit_end_number:
  "unit_end []" "unit_end (dec_nat n @ r)" "unit_end (fmt_frac p n @ r)"
  using number_head(1) [of n] number_head(2) [of p n] by (auto simp: unit_end_def unit_char_def)

definition magnitude_text :: "nat \<Rightarrow> string" where
  "magnitude_text u = duration_String (int u)"

lemma unit_texts:
  "list_all unit_char ''ns'' \<and> unitMap ''ns'' = Some 1"
  "list_all unit_char [CHR 0xC2, CHR 0xB5, CHR ''s''] \<and> unitMap [CHR 0xC2, CHR 0xB5, CHR ''s''] = Some (10 ^ 3)"
  "list_all unit_char ''ms'' \<and> unitMap ''ms'' = Some (10 ^ 6)"
  "list_all unit_char ''s'' \<and> unitMap ''s'' = Some (10 ^ 9)"
  "list_all unit_char ''m'' \<and> unitMap ''m'' = Some (60 * 10 ^ 9)"
  "list_all unit_char ''h'' \<and> unitMap ''h'' = Some (3600 * 10 ^ 9)"
  by (simp_all add: unit_char_def is_digit_def unitMap_def)

lemma duration_parts_clock:
  assumes u: "1000000000 \<le> u" "u \<le> 2 ^ 63"
  shows "duration_parts 0 (magnitude_text u) = Some u"
proof -
  define s where "s = u div 1000000000"
  define h where "h = s div 3600"
  define m where "m = s div 60 mod 60"
  define w where "w = s mod 60 * 1000000000 + u mod 1000000000"
  have s: "s = h * 3600 + m * 60 + s mod 60"
  proof -
    have "s div 60 div 60 = h" unfolding h_def by (simp flip: div_mult2_eq)
    then have "s div 60 = h * 60 + m" unfolding m_def by (metis div_mult_mod_eq)
    moreover have "s = s div 60 * 60 + s mod 60" by simp
    ultimately show ?thesis by linarith
  qed
  have "u = s * 1000000000 + u mod 1000000000" unfolding s_def by simp
  then have sum: "h * (3600 * 10 ^ 9) + (m * (60 * 10 ^ 9) + w) = u"
    using s by (simp add: w_def algebra_simps)
  define sp where "sp = fmt_frac 9 w @ ''s''"
  have w: "duration_parts d sp = Some (d + w)" if "d + w \<le> 2 ^ 63" for d
    using duration_parts_step [OF duration_part_frac [of "''s''" 9 w "[]"] that] unit_texts(4) that
      unit_end_number(1) by (simp add: sp_def)
  define mp where "mp = (if 60 \<le> s then dec_nat m @ ''m'' else []) @ sp"
  have m: "duration_parts d mp = Some (d + m * (60 * 10 ^ 9) + w)" if "d + m * (60 * 10 ^ 9) + w \<le> 2 ^ 63" for d
  proof (cases "60 \<le> s")
    case True
    have "duration_part mp = Some (m * (60 * 10 ^ 9), sp)"
      using duration_part_int [of "''m''" "60 * 10 ^ 9" m sp] unit_texts(5) that unit_end_number(3) [of 9 w "''s''"] True
      by (simp add: mp_def sp_def)
    with duration_parts_step [OF this, of d] w [of "d + m * (60 * 10 ^ 9)"] that show ?thesis by simp
  next
    case False
    with w [of d] that show ?thesis by (simp add: mp_def m_def)
  qed
  have end_mp: "unit_end mp"
    using unit_end_number(2,3) by (simp add: mp_def sp_def)
  have whole: "magnitude_text u = (if 3600 \<le> s then dec_nat h @ ''h'' else []) @ mp"
    using u(1) by (simp add: magnitude_text_def duration_String_def Let_def mp_def sp_def h_def m_def w_def s_def
        nat_int)
  show ?thesis
  proof (cases "3600 \<le> s")
    case True
    have "duration_part (magnitude_text u) = Some (h * (3600 * 10 ^ 9), mp)"
      using duration_part_int [of "''h''" "3600 * 10 ^ 9" h mp] unit_texts(6) sum u(2) end_mp True
      by (simp add: whole)
    with duration_parts_step [OF this, of 0] m [of "h * (3600 * 10 ^ 9)"] sum u(2) show ?thesis by simp
  next
    case False
    with m [of 0] sum u(2) show ?thesis by (simp add: whole h_def)
  qed
qed

lemma duration_parts_magnitude:
  assumes "0 < u" "u \<le> 2 ^ 63"
  shows "duration_parts 0 (magnitude_text u) = Some u"
proof -
  have frac: "duration_parts 0 (fmt_frac p u @ t) = Some u"
    if "list_all unit_char t" "t \<noteq> []" "unitMap t = Some (10 ^ p)" "p \<le> 9" for p t
    using duration_parts_step [OF duration_part_frac [OF that(1,2,3) assms(2) that(4) unit_end_number(1)], of 0] assms(2)
    by simp
  have ns: "duration_parts 0 (dec_nat u @ ''ns'') = Some u"
    using duration_parts_step [OF duration_part_int [of "''ns''" 1 u "[]"], of 0] unit_texts(1) unit_end_number(1) assms
    by simp
  show ?thesis
  proof (cases "1000000000 \<le> u")
    case True
    then show ?thesis using duration_parts_clock assms(2) by blast
  next
    case False
    then show ?thesis
      using assms ns frac [of "[CHR 0xC2, CHR 0xB5, CHR ''s'']" 3] frac [of "''ms''" 6] unit_texts(2,3)
      by (simp add: magnitude_text_def duration_String_def Let_def)
  qed
qed

definition starts_number :: "string \<Rightarrow> bool" where
  "starts_number s \<longleftrightarrow> s \<noteq> [] \<and> is_digit (hd s) \<and> tl s \<noteq> []"

lemma starts_number_simps [simp]:
  "y \<noteq> [] \<Longrightarrow> starts_number (dec_nat n @ y)" "y \<noteq> [] \<Longrightarrow> starts_number (fmt_frac p n @ y)"
  "starts_number ''0s''"
  using number_head(1) [of n] number_head(2) [of p n] by (auto simp: starts_number_def is_digit_def)

lemma magnitude_head: "starts_number (magnitude_text u)"
  by (simp add: magnitude_text_def duration_String_def Let_def)

theorem ParseDuration_String:
  assumes "- (2 ^ 63) \<le> d" "d < 2 ^ 63"
  shows "time_ParseDuration (duration_String d) = Inr d"
proof (cases "d = 0")
  case True
  show ?thesis
    by (simp add: True duration_String_def time_ParseDuration_def duration_parts.simps duration_part_def
        duration_fraction_def Let_def unitMap_def unit_char_def is_digit_def digit_val_def)
next
  case False
  define u where "u = nat \<bar>d\<bar>"
  have u: "0 < u" "u \<le> 2 ^ 63" using assms False by (auto simp: u_def)
  have t: "duration_String d = (if d < 0 then ''-'' else []) @ magnitude_text u"
    using False by (simp add: magnitude_text_def duration_String_def u_def Let_def)
  obtain c r where c: "magnitude_text u = c # r" "is_digit c" "r \<noteq> []"
    using magnitude_head [of u] by (cases "magnitude_text u") (auto simp: starts_number_def)
  have "c \<noteq> CHR ''-''" "c \<noteq> CHR ''+''" using c(2) by (auto simp: is_digit_def)
  with c u assms duration_parts_magnitude [OF u] show ?thesis
    by (auto simp: time_ParseDuration_def t Let_def u_def)
qed

end
