(* ===== verification/Config.thy ===== *)
theory Config
  imports StoreConfig GoDuration
begin

text \<open>
  The service's configuration: \<open>internal/config/config.go\<close>.  What viper answers to a key is the
  parameter \<open>viper\<close>; \<open>SetDefaults\<close> is what \<open>Load\<close> tells it to answer when no flag, variable or
  file sets the key.  \<open>Load\<close> reads, parses and validates in the order of the code, and
  \<open>service_ok\<close> says what it accepts without following that order.
\<close>

record config =
  APIPort :: int
  APIHost :: string
  ProbePort :: int
  ProbeHost :: string
  MetricsPort :: int
  MetricsHost :: string
  TLSEnabled :: bool
  TLSCert :: string
  TLSKey :: string
  cfg_LogLevel :: string
  LogFormat :: string
  ShutdownTimeout :: int
  HealthCheckTimeout :: int
  HealthCheckCacheDuration :: int
  MetricsNamespace :: string
  Olric :: "olric_config option"

record viper =
  GetInt :: "string \<Rightarrow> int"
  GetString :: "string \<Rightarrow> string"
  GetBool :: "string \<Rightarrow> bool"
  GetStringSlice :: "string \<Rightarrow> string list"

section \<open>Defaults\<close>

datatype setting = SInt int | SString string | SBool bool | SStrings "string list"

definition SetDefaults :: "(string \<times> setting) list" where
  "SetDefaults = [
     (''api.port'', SInt 8080),
     (''api.host'', SString ''0.0.0.0''),
     (''probe.port'', SInt 8081),
     (''probe.host'', SString ''0.0.0.0''),
     (''metrics.port'', SInt 9090),
     (''metrics.host'', SString ''0.0.0.0''),
     (''tls.enabled'', SBool False),
     (''tls.cert'', SString []),
     (''tls.key'', SString []),
     (''log.level'', SString ''info''),
     (''log.format'', SString ''json''),
     (''shutdown.timeout'', SString ''30s''),
     (''health.check_timeout'', SString ''5s''),
     (''health.cache_duration'', SString ''10s''),
     (''olric.host'', SString DefaultBindAddr),
     (''olric.port'', SInt DefaultBindPort),
     (''olric.advertise_addr'', SString DefaultAdvertiseAddr),
     (''olric.advertise_port'', SInt DefaultAdvertisePort),
     (''olric.memberlist_bind_port'', SInt DefaultMemberlistBindPort),
     (''olric.join_addrs'', SStrings []),
     (''olric.replication_mode'', SString DefaultReplicationMode),
     (''olric.replication_factor'', SInt DefaultReplicationFactor),
     (''olric.partition_count'', SInt DefaultPartitionCount),
     (''olric.backup_count'', SInt DefaultBackupCount),
     (''olric.backup_mode'', SString DefaultBackupMode),
     (''olric.member_count_quorum'', SInt DefaultMemberCountQuorum),
     (''olric.join_retry_interval'', SString (duration_String DefaultJoinRetryInterval)),
     (''olric.max_join_attempts'', SInt DefaultMaxJoinAttempts),
     (''olric.log_level'', SString []),
     (''olric.keep_alive_period'', SString (duration_String DefaultKeepAlivePeriod)),
     (''olric.request_timeout'', SString (duration_String DefaultRequestTimeout)),
     (''olric.dmap_name'', SString DefaultDMapName)]"

fun answers :: "viper \<Rightarrow> string \<Rightarrow> setting \<Rightarrow> bool" where
  "answers v k (SInt n) = (GetInt v k = n)"
| "answers v k (SString s) = (GetString v k = s)"
| "answers v k (SBool b) = (GetBool v k = b)"
| "answers v k (SStrings l) = (GetStringSlice v k = l)"

text \<open>
  No flag, variable or file sets any key but those of \<open>ks\<close>: viper answers the others with the
  defaults.
\<close>

definition only_set :: "string list \<Rightarrow> viper \<Rightarrow> bool" where
  "only_set ks v \<longleftrightarrow> list_all (\<lambda>(k, d). k \<in> set ks \<or> answers v k d) SetDefaults"

section \<open>Validation\<close>

definition config_Validate :: "config \<Rightarrow> go_error option" where
  "config_Validate c =
     (if APIPort c < 1 \<or> APIPort c > 65535 then
        Some (New (''invalid API port: '' @ strconv_Itoa (APIPort c)))
      else if ProbePort c < 1 \<or> ProbePort c > 65535 then
        Some (New (''invalid probe port: '' @ strconv_Itoa (ProbePort c)))
      else if MetricsPort c < 1 \<or> MetricsPort c > 65535 then
        Some (New (''invalid metrics port: '' @ strconv_Itoa (MetricsPort c)))
      else if TLSEnabled c \<and> TLSCert c = [] then
        Some (New ''TLS enabled but no certificate path provided'')
      else if TLSEnabled c \<and> TLSKey c = [] then
        Some (New ''TLS enabled but no key path provided'')
      else if cfg_LogLevel c \<notin> set [''debug'', ''info'', ''warn'', ''error''] then
        Some (New (''invalid log level: '' @ cfg_LogLevel c @ '' (must be debug, info, warn, or error)''))
      else if LogFormat c \<notin> set [''json'', ''console''] then
        Some (New (''invalid log format: '' @ LogFormat c @ '' (must be json or console)''))
      else if ShutdownTimeout c < 0 then
        Some (New (''invalid shutdown timeout: '' @ duration_String (ShutdownTimeout c) @
          '' (must be positive)''))
      else if HealthCheckTimeout c \<le> 0 then
        Some (New (''invalid health check timeout: '' @ duration_String (HealthCheckTimeout c) @
          '' (must be positive)''))
      else if HealthCheckCacheDuration c < 0 then
        Some (New (''invalid health check cache duration: '' @
          duration_String (HealthCheckCacheDuration c) @
          '' (must be non-negative, zero disables caching)''))
      else if MetricsNamespace c = [] then Some (New ''metrics namespace cannot be empty'')
      else (case Olric c of
          None \<Rightarrow> None
        | Some oc \<Rightarrow> (case olric_Validate oc of
            Some err \<Rightarrow> Some (Wrap ''invalid olric configuration'' err)
          | None \<Rightarrow> None)))"

text \<open>What it accepts.\<close>

definition service_ok :: "config \<Rightarrow> bool" where
  "service_ok c \<longleftrightarrow>
     port_ok (APIPort c) \<and> port_ok (ProbePort c) \<and> port_ok (MetricsPort c) \<and>
     (TLSEnabled c \<longrightarrow> TLSCert c \<noteq> [] \<and> TLSKey c \<noteq> []) \<and>
     cfg_LogLevel c \<in> {''debug'', ''info'', ''warn'', ''error''} \<and>
     LogFormat c \<in> {''json'', ''console''} \<and>
     0 \<le> ShutdownTimeout c \<and> 0 < HealthCheckTimeout c \<and> 0 \<le> HealthCheckCacheDuration c \<and>
     MetricsNamespace c \<noteq> [] \<and> pred_option valid_config (Olric c)"

lemma config_Validate_None_iff: "config_Validate c = None \<longleftrightarrow> service_ok c"
proof -
  have o: "(case Olric c of None \<Rightarrow> None | Some oc \<Rightarrow> (case olric_Validate oc of
      Some err \<Rightarrow> Some (Wrap ''invalid olric configuration'' err) | None \<Rightarrow> None)) = None \<longleftrightarrow>
      pred_option valid_config (Olric c)"
    by (auto simp: Validate_None_iff [symmetric] split: option.splits)
  show ?thesis
    unfolding config_Validate_def check_None_iff passes_iff(1) o service_ok_def
      not_less not_le not_not list.set(1,2)
    by blast
qed

section \<open>Loading\<close>

definition olric_level :: "string \<Rightarrow> string \<Rightarrow> string" where
  "olric_level olricLogLevel logLevel =
     (if olricLogLevel = [] then
        (if logLevel = ''debug'' then ''DEBUG''
         else if logLevel = ''info'' then ''INFO''
         else if logLevel = ''warn'' then ''WARN''
         else if logLevel = ''error'' then ''ERROR''
         else ''WARN'')
      else olricLogLevel)"

text \<open>The parts of \<open>Load\<close> that cannot fail: the settings as they are read.\<close>

definition read_config :: "viper \<Rightarrow> config" where
  "read_config v = \<lparr>
     APIPort = GetInt v ''api.port'',
     APIHost = GetString v ''api.host'',
     ProbePort = GetInt v ''probe.port'',
     ProbeHost = GetString v ''probe.host'',
     MetricsPort = GetInt v ''metrics.port'',
     MetricsHost = GetString v ''metrics.host'',
     TLSEnabled = GetBool v ''tls.enabled'',
     TLSCert = GetString v ''tls.cert'',
     TLSKey = GetString v ''tls.key'',
     cfg_LogLevel = GetString v ''log.level'',
     LogFormat = GetString v ''log.format'',
     ShutdownTimeout = 0,
     HealthCheckTimeout = 0,
     HealthCheckCacheDuration = 0,
     MetricsNamespace = ''deployment_lock'',
     Olric = None\<rparr>"

definition read_olric :: "viper \<Rightarrow> olric_config" where
  "read_olric v = \<lparr>
     BindAddr = GetString v ''olric.host'',
     BindPort = GetInt v ''olric.port'',
     AdvertiseAddr = GetString v ''olric.advertise_addr'',
     AdvertisePort = GetInt v ''olric.advertise_port'',
     MemberlistBindPort = GetInt v ''olric.memberlist_bind_port'',
     JoinAddrs = GetStringSlice v ''olric.join_addrs'',
     ReplicationMode = GetString v ''olric.replication_mode'',
     ReplicationFactor = GetInt v ''olric.replication_factor'',
     PartitionCount = word_of_int (GetInt v ''olric.partition_count''),
     BackupCount = GetInt v ''olric.backup_count'',
     BackupMode = GetString v ''olric.backup_mode'',
     MemberCountQuorum = GetInt v ''olric.member_count_quorum'',
     JoinRetryInterval = 0,
     MaxJoinAttempts = GetInt v ''olric.max_join_attempts'',
     LogLevel = [],
     KeepAlivePeriod = 0,
     RequestTimeout = 0,
     DMapName = GetString v ''olric.dmap_name''\<rparr>"

text \<open>One duration: a text that does not parse ends the loading with its own message.\<close>

definition parsed :: "string \<Rightarrow> string \<Rightarrow> (int \<Rightarrow> go_error + 'a) \<Rightarrow> go_error + 'a" where
  "parsed what t k = (case time_ParseDuration t of
     Inl err \<Rightarrow> Inl (Wrap (''invalid '' @ what) err)
   | Inr d \<Rightarrow> k d)"

definition Load :: "viper \<Rightarrow> go_error + config" where
  "Load v =
     (let cfg = read_config v in
      parsed ''shutdown timeout'' (GetString v ''shutdown.timeout'') (\<lambda>timeout.
      parsed ''health check timeout'' (GetString v ''health.check_timeout'') (\<lambda>healthTimeout.
      parsed ''health check cache duration'' (GetString v ''health.cache_duration'') (\<lambda>cacheDuration.
      let olricCfg = (read_olric v)\<lparr>LogLevel :=
        olric_level (GetString v ''olric.log_level'') (cfg_LogLevel cfg)\<rparr> in
      parsed ''olric join retry interval'' (GetString v ''olric.join_retry_interval'') (\<lambda>joinRetryInterval.
      parsed ''olric keep alive period'' (GetString v ''olric.keep_alive_period'') (\<lambda>keepAlivePeriod.
      parsed ''olric request timeout'' (GetString v ''olric.request_timeout'') (\<lambda>requestTimeout.
      let cfg = cfg\<lparr>ShutdownTimeout := timeout, HealthCheckTimeout := healthTimeout,
        HealthCheckCacheDuration := cacheDuration, Olric := Some (olricCfg\<lparr>
          JoinRetryInterval := joinRetryInterval, KeepAlivePeriod := keepAlivePeriod,
          RequestTimeout := requestTimeout\<rparr>)\<rparr>
      in case config_Validate cfg of
           Some err \<Rightarrow> Inl err
         | None \<Rightarrow> Inr cfg)))))))"


section \<open>What loading promises\<close>

lemma parsed_Inr:
  "parsed what t k = Inr c \<longleftrightarrow> (\<exists>d. time_ParseDuration t = Inr d \<and> k d = Inr c)"
  by (auto simp: parsed_def split: sum.splits)

lemma default_durations:
  "time_ParseDuration (duration_String DefaultJoinRetryInterval) = Inr DefaultJoinRetryInterval"
  "time_ParseDuration (duration_String DefaultKeepAlivePeriod) = Inr DefaultKeepAlivePeriod"
  "time_ParseDuration (duration_String DefaultRequestTimeout) = Inr DefaultRequestTimeout"
  by (simp_all add: ParseDuration_String default_defs)

text \<open>The configuration that a viper stands for, setting by setting.\<close>

definition reads_olric :: "viper \<Rightarrow> string \<Rightarrow> olric_config \<Rightarrow> bool" where
  "reads_olric v level oc \<longleftrightarrow>
     BindAddr oc = GetString v ''olric.host'' \<and> BindPort oc = GetInt v ''olric.port'' \<and>
     AdvertiseAddr oc = GetString v ''olric.advertise_addr'' \<and>
     AdvertisePort oc = GetInt v ''olric.advertise_port'' \<and>
     MemberlistBindPort oc = GetInt v ''olric.memberlist_bind_port'' \<and>
     JoinAddrs oc = GetStringSlice v ''olric.join_addrs'' \<and>
     ReplicationMode oc = GetString v ''olric.replication_mode'' \<and>
     ReplicationFactor oc = GetInt v ''olric.replication_factor'' \<and>
     PartitionCount oc = word_of_int (GetInt v ''olric.partition_count'') \<and>
     BackupCount oc = GetInt v ''olric.backup_count'' \<and> BackupMode oc = GetString v ''olric.backup_mode'' \<and>
     MemberCountQuorum oc = GetInt v ''olric.member_count_quorum'' \<and>
     time_ParseDuration (GetString v ''olric.join_retry_interval'') = Inr (JoinRetryInterval oc) \<and>
     MaxJoinAttempts oc = GetInt v ''olric.max_join_attempts'' \<and>
     LogLevel oc = olric_level (GetString v ''olric.log_level'') level \<and>
     time_ParseDuration (GetString v ''olric.keep_alive_period'') = Inr (KeepAlivePeriod oc) \<and>
     time_ParseDuration (GetString v ''olric.request_timeout'') = Inr (RequestTimeout oc) \<and>
     DMapName oc = GetString v ''olric.dmap_name''"

definition reads :: "viper \<Rightarrow> config \<Rightarrow> bool" where
  "reads v c \<longleftrightarrow>
     APIPort c = GetInt v ''api.port'' \<and> APIHost c = GetString v ''api.host'' \<and>
     ProbePort c = GetInt v ''probe.port'' \<and> ProbeHost c = GetString v ''probe.host'' \<and>
     MetricsPort c = GetInt v ''metrics.port'' \<and> MetricsHost c = GetString v ''metrics.host'' \<and>
     TLSEnabled c = GetBool v ''tls.enabled'' \<and> TLSCert c = GetString v ''tls.cert'' \<and>
     TLSKey c = GetString v ''tls.key'' \<and>
     cfg_LogLevel c = GetString v ''log.level'' \<and> LogFormat c = GetString v ''log.format'' \<and>
     MetricsNamespace c = ''deployment_lock'' \<and>
     time_ParseDuration (GetString v ''shutdown.timeout'') = Inr (ShutdownTimeout c) \<and>
     time_ParseDuration (GetString v ''health.check_timeout'') = Inr (HealthCheckTimeout c) \<and>
     time_ParseDuration (GetString v ''health.cache_duration'') = Inr (HealthCheckCacheDuration c) \<and>
     (\<exists>oc. Olric c = Some oc \<and> reads_olric v (cfg_LogLevel c) oc)"

lemma Load_Inr:
  assumes "Load v = Inr c"
  shows "reads v c \<and> service_ok c"
proof -
  obtain t1 t2 t3 t4 t5 t6 where d: "time_ParseDuration (GetString v ''shutdown.timeout'') = Inr t1"
    "time_ParseDuration (GetString v ''health.check_timeout'') = Inr t2"
    "time_ParseDuration (GetString v ''health.cache_duration'') = Inr t3"
    "time_ParseDuration (GetString v ''olric.join_retry_interval'') = Inr t4"
    "time_ParseDuration (GetString v ''olric.keep_alive_period'') = Inr t5"
    "time_ParseDuration (GetString v ''olric.request_timeout'') = Inr t6"
    and c: "(read_config v)\<lparr>ShutdownTimeout := t1, HealthCheckTimeout := t2,
        HealthCheckCacheDuration := t3, Olric := Some ((read_olric v)\<lparr>LogLevel :=
          olric_level (GetString v ''olric.log_level'') (cfg_LogLevel (read_config v)),
          JoinRetryInterval := t4, KeepAlivePeriod := t5, RequestTimeout := t6\<rparr>)\<rparr> = c"
      "config_Validate c = None"
    using assms unfolding Load_def Let_def parsed_Inr by (auto split: option.splits)
  then show ?thesis
    by (auto simp: config_Validate_None_iff reads_def reads_olric_def read_config_def read_olric_def)
qed

lemma reads_unique:
  assumes "reads v c" "reads v c'"
  shows "c = c'"
proof -
  obtain oc oc' where o: "Olric c = Some oc" "Olric c' = Some oc'" using assms by (auto simp: reads_def)
  have "oc = oc'"
    using assms o by (intro olric_config.equality) (auto simp: reads_def reads_olric_def)
  with assms o show ?thesis by (intro config.equality) (auto simp: reads_def)
qed

lemma Load_reads:
  assumes "reads v c"
  shows "Load v = (case config_Validate c of Some err \<Rightarrow> Inl err | None \<Rightarrow> Inr c)"
proof -
  obtain oc where oc: "Olric c = Some oc" "reads_olric v (cfg_LogLevel c) oc"
    using assms by (auto simp: reads_def)
  have d: "time_ParseDuration (GetString v ''shutdown.timeout'') = Inr (ShutdownTimeout c)"
    "time_ParseDuration (GetString v ''health.check_timeout'') = Inr (HealthCheckTimeout c)"
    "time_ParseDuration (GetString v ''health.cache_duration'') = Inr (HealthCheckCacheDuration c)"
    "time_ParseDuration (GetString v ''olric.join_retry_interval'') = Inr (JoinRetryInterval oc)"
    "time_ParseDuration (GetString v ''olric.keep_alive_period'') = Inr (KeepAlivePeriod oc)"
    "time_ParseDuration (GetString v ''olric.request_timeout'') = Inr (RequestTimeout oc)"
    using assms oc(2) by (simp_all add: reads_def reads_olric_def)
  have "Load v = (let cfg = (read_config v)\<lparr>ShutdownTimeout := ShutdownTimeout c,
      HealthCheckTimeout := HealthCheckTimeout c, HealthCheckCacheDuration := HealthCheckCacheDuration c,
      Olric := Some ((read_olric v)\<lparr>LogLevel :=
          olric_level (GetString v ''olric.log_level'') (cfg_LogLevel (read_config v)),
        JoinRetryInterval := JoinRetryInterval oc, KeepAlivePeriod := KeepAlivePeriod oc,
        RequestTimeout := RequestTimeout oc\<rparr>)\<rparr>
      in case config_Validate cfg of Some err \<Rightarrow> Inl err | None \<Rightarrow> Inr cfg)"
    unfolding Load_def Let_def parsed_def d sum.case by simp
  also have "(read_config v)\<lparr>ShutdownTimeout := ShutdownTimeout c,
      HealthCheckTimeout := HealthCheckTimeout c, HealthCheckCacheDuration := HealthCheckCacheDuration c,
      Olric := Some ((read_olric v)\<lparr>LogLevel :=
          olric_level (GetString v ''olric.log_level'') (cfg_LogLevel (read_config v)),
        JoinRetryInterval := JoinRetryInterval oc, KeepAlivePeriod := KeepAlivePeriod oc,
        RequestTimeout := RequestTimeout oc\<rparr>)\<rparr> = c"
    by (rule reads_unique [OF _ assms])
      (use assms oc in \<open>auto simp: reads_def reads_olric_def read_config_def read_olric_def\<close>)
  finally show ?thesis by simp
qed

lemma Load_ok: "reads v c \<Longrightarrow> service_ok c \<Longrightarrow> Load v = Inr c"
  by (simp add: Load_reads config_Validate_None_iff [symmetric])

text \<open>
  C26.  Loading is exact.  \<open>Load\<close> returns a configuration exactly when it is the one that the settings
  stand for, every duration among them parses, and it satisfies \<open>service_ok\<close>.
\<close>

theorem Load_exact: "(Load v = Inr c) = (reads v c \<and> service_ok c)"
  using Load_Inr Load_ok by blast


definition default_service :: config where
  "default_service = \<lparr>APIPort = 8080, APIHost = ''0.0.0.0'', ProbePort = 8081, ProbeHost = ''0.0.0.0'',
     MetricsPort = 9090, MetricsHost = ''0.0.0.0'', TLSEnabled = False, TLSCert = [], TLSKey = [],
     cfg_LogLevel = ''info'', LogFormat = ''json'', ShutdownTimeout = 30 * Second,
     HealthCheckTimeout = 5 * Second, HealthCheckCacheDuration = 10 * Second,
     MetricsNamespace = ''deployment_lock'',
     Olric = Some (NewDefaultOlricConfig\<lparr>LogLevel := ''INFO''\<rparr>)\<rparr>"

lemma default_service_ok: "service_ok default_service"
proof -
  have "olric_Validate (NewDefaultOlricConfig\<lparr>LogLevel := ''INFO''\<rparr>) = None" by code_simp
  then show ?thesis
    by (simp add: service_ok_def default_service_def port_ok_def Validate_None_iff)
qed

text \<open>A viper whose settings are those of a list.\<close>

definition viper_of :: "(string \<times> setting) list \<Rightarrow> viper" where
  "viper_of d = \<lparr>
     GetInt = (\<lambda>k. case map_of d k of Some (SInt n) \<Rightarrow> n | _ \<Rightarrow> 0),
     GetString = (\<lambda>k. case map_of d k of Some (SString s) \<Rightarrow> s | _ \<Rightarrow> []),
     GetBool = (\<lambda>k. case map_of d k of Some (SBool b) \<Rightarrow> b | _ \<Rightarrow> False),
     GetStringSlice = (\<lambda>k. case map_of d k of Some (SStrings l) \<Rightarrow> l | _ \<Rightarrow> [])\<rparr>"

definition default_viper :: viper where
  "default_viper = viper_of SetDefaults"

lemma viper_of_answers:
  assumes "distinct (map fst d)" "(k, s) \<in> set d"
  shows "answers (viper_of d) k s"
  using map_of_is_SomeI [OF assms] by (cases s) (simp_all add: viper_of_def)

lemma default_keys_distinct: "distinct (map fst SetDefaults)"
  by (simp add: SetDefaults_def)

lemma default_viper_set: "only_set [] default_viper"
  using viper_of_answers [OF default_keys_distinct]
  by (auto simp: only_set_def default_viper_def list_all_iff)

text \<open>The same, with addresses to join.\<close>

definition joining_viper :: "string list \<Rightarrow> viper" where
  "joining_viper js = default_viper\<lparr>GetStringSlice := (\<lambda>_. js)\<rparr>"

lemma joining_viper_set: "only_set [''olric.join_addrs''] (joining_viper js)"
  using default_viper_set by (simp add: only_set_def SetDefaults_def joining_viper_def)

lemma only_set_reads:
  assumes "only_set [''olric.join_addrs''] v"
  shows "reads v (default_service\<lparr>Olric := Some (NewDefaultOlricConfig\<lparr>LogLevel := ''INFO'',
    JoinAddrs := GetStringSlice v ''olric.join_addrs''\<rparr>)\<rparr>)"
  using assms default_durations parse_samples
  by (simp add: only_set_def SetDefaults_def reads_def reads_olric_def default_service_def
      NewDefaultOlricConfig_def olric_level_def)

lemma unset_loads:
  assumes "only_set [] v"
  shows "Load v = Inr default_service"
proof -
  have "only_set [''olric.join_addrs''] v" "GetStringSlice v ''olric.join_addrs'' = []"
    using assms by (auto simp: only_set_def SetDefaults_def)
  with only_set_reads [of v] have "reads v default_service"
    by (simp add: default_service_def NewDefaultOlricConfig_def)
  with default_service_ok show ?thesis by (simp add: Load_ok)
qed

lemmas default_viper_loads = unset_loads [OF default_viper_set]

text \<open>
  C27.  Where nothing is set the service loads, validates and is a single node: the ports 8080, 8081
  and 9090, no TLS, and Olric's own default configuration with its log level raised to \<open>INFO\<close>.
\<close>

theorem defaults_load:
  assumes "only_set [] v"
  shows "Load v = Inr default_service \<and> pred_option IsSingleNode (Olric default_service)"
proof -
  have "Load v = Inr default_service" using assms by (rule unset_loads)
  then show ?thesis by (simp add: default_service_def NewDefaultOlricConfig_def IsSingleNode_def)
qed

lemma defaults_load_witness: "Load default_viper = Inr default_service"
  using defaults_load [OF default_viper_set] by simp

text \<open>
  C28.  Joining a cluster with the defaults is refused: whatever the addresses, with the replication
  factor left at its default the configuration does not load, and the error names the factor.
\<close>

theorem joining_needs_replication:
  assumes "only_set [''olric.join_addrs''] v" and "GetStringSlice v ''olric.join_addrs'' \<noteq> []"
  shows "Load v = Inl (Wrap ''invalid olric configuration'' (New
    ''replication factor should be at least 2 in multi-node mode (current: 1)''))"
proof -
  define oc where "oc = NewDefaultOlricConfig\<lparr>LogLevel := ''INFO'',
    JoinAddrs := GetStringSlice v ''olric.join_addrs''\<rparr>"
  have r: "reads v (default_service\<lparr>Olric := Some oc\<rparr>)"
    using only_set_reads [OF assms(1)] by (simp add: oc_def)
  have b: "net_ParseIP DefaultBindAddr" by code_simp
  have one: "strconv_Itoa 1 = ''1''" by code_simp
  have "olric_Validate oc = Some (New ''replication factor should be at least 2 in multi-node mode (current: 1)'')"
    using assms(2) b one by (simp add: olric_Validate_def oc_def NewDefaultOlricConfig_def default_defs)
  then have "config_Validate (default_service\<lparr>Olric := Some oc\<rparr>) =
      Some (Wrap ''invalid olric configuration'' (New
        ''replication factor should be at least 2 in multi-node mode (current: 1)''))"
    by (simp add: config_Validate_def default_service_def)
  with Load_reads [OF r] show ?thesis by simp
qed

lemma joining_needs_replication_witness: "\<exists>e. Load (joining_viper [''node-1:3320'']) = Inl e"
proof -
  have "GetStringSlice (joining_viper [''node-1:3320'']) ''olric.join_addrs'' \<noteq> []"
    by (simp add: joining_viper_def)
  from joining_needs_replication [OF joining_viper_set this] show ?thesis by blast
qed

text \<open>
  C29.  A duration flag arrives as it was given.  The command line's flags print their value with
  \<open>Duration.String\<close>, which \<open>Load\<close> parses again: whatever the duration, the loaded configuration has
  exactly that one.
\<close>

theorem duration_flags_arrive:
  assumes "- (2 ^ 63) \<le> d" and "d < 2 ^ 63" and "Load v = Inr c"
  shows "(GetString v ''shutdown.timeout'' = duration_String d \<longrightarrow> ShutdownTimeout c = d) \<and>
    (GetString v ''health.check_timeout'' = duration_String d \<longrightarrow> HealthCheckTimeout c = d) \<and>
    (GetString v ''health.cache_duration'' = duration_String d \<longrightarrow> HealthCheckCacheDuration c = d) \<and>
    (\<exists>oc. Olric c = Some oc \<and>
      (GetString v ''olric.join_retry_interval'' = duration_String d \<longrightarrow> JoinRetryInterval oc = d) \<and>
      (GetString v ''olric.keep_alive_period'' = duration_String d \<longrightarrow> KeepAlivePeriod oc = d) \<and>
      (GetString v ''olric.request_timeout'' = duration_String d \<longrightarrow> RequestTimeout oc = d))"
  using Load_Inr [OF assms(3)] ParseDuration_String [OF assms(1,2)]
  by (auto simp: reads_def reads_olric_def)

lemma duration_flags_arrive_witness:
  "\<exists>c. Load default_viper = Inr c \<and> (\<exists>oc. Olric c = Some oc \<and> RequestTimeout oc = DefaultRequestTimeout)"
proof -
  have l: "Load default_viper = Inr default_service" by (rule default_viper_loads)
  have s: "GetString default_viper ''olric.request_timeout'' = duration_String DefaultRequestTimeout"
    using default_viper_set by (simp add: only_set_def SetDefaults_def)
  have "- (2 ^ 63) \<le> DefaultRequestTimeout" "DefaultRequestTimeout < 2 ^ 63"
    by (simp_all add: default_defs)
  from duration_flags_arrive [OF this l] l s show ?thesis by blast
qed

end
