(* ===== verification/StoreHealth.thy ===== *)
theory StoreHealth
  imports Health StorageContract
begin

text \<open>
  The store's health checks: \<open>internal/store/health.go\<close>.  Each is a program over the interface
  \<open>Store\<close> that a manager can register as an \<open>OtherChecker\<close>.  In the cluster and storage checks the
  timestamp and the duration are taken before the work, as the code has it.
\<close>

record connection_checker =
  cn_store :: store

definition NewConnectionHealthChecker :: "store \<Rightarrow> connection_checker" where
  "NewConnectionHealthChecker st = \<lparr>cn_store = st\<rparr>"

definition connection_name :: string where "connection_name = ''olric-connection''"

definition connection_Check :: "connection_checker \<Rightarrow> check_result prog" where
  "connection_Check c = Now (\<lambda>start. seq (st_Ping (cn_store c)) (\<lambda>err. Now (\<lambda>timestamp. Now (\<lambda>now.
     let result = \<lparr>cr_Name = connection_name, cr_Status = StatusOK, cr_Message = [],
       cr_Timestamp = timestamp, cr_Duration = time_Sub now start\<rparr>
     in Ret (case err of
          Some e \<Rightarrow> result\<lparr>cr_Status := StatusError,
            cr_Message := ''Olric connection failed: '' @ Error e\<rparr>
        | None \<Rightarrow> result\<lparr>cr_Status := StatusOK, cr_Message := ''Olric connection healthy''\<rparr>)))))"

record cluster_checker =
  cl_store :: store
  cl_quorum :: int
  cl_singleNode :: bool

definition NewClusterHealthChecker :: "store \<Rightarrow> int \<Rightarrow> bool \<Rightarrow> cluster_checker" where
  "NewClusterHealthChecker st quorum singleNode =
     \<lparr>cl_store = st, cl_quorum = quorum, cl_singleNode = singleNode\<rparr>"

definition cluster_name :: string where "cluster_name = ''olric-cluster''"

definition cluster_Check :: "cluster_checker \<Rightarrow> check_result prog" where
  "cluster_Check c = Now (\<lambda>start. Now (\<lambda>timestamp. Now (\<lambda>now.
     let result = \<lparr>cr_Name = cluster_name, cr_Status = StatusOK, cr_Message = [],
       cr_Timestamp = timestamp, cr_Duration = time_Sub now start\<rparr>
     in if cl_singleNode c
        then Ret (result\<lparr>cr_Status := StatusOK, cr_Message := ''Running in single-node mode''\<rparr>)
        else seq (st_Stats (cl_store c)) (\<lambda>r. Ret (case r of
          Inl e \<Rightarrow> result\<lparr>cr_Status := StatusError,
            cr_Message := ''Failed to get cluster stats: '' @ Error e\<rparr>
        | Inr stats \<Rightarrow>
            if ClusterMembers stats < cl_quorum c
            then result\<lparr>cr_Status := StatusNotReady,
              cr_Message := ''Cluster has '' @ strconv_Itoa (ClusterMembers stats) @
                '' members, quorum requires '' @ strconv_Itoa (cl_quorum c)\<rparr>
            else result\<lparr>cr_Status := StatusOK,
              cr_Message := ''Cluster healthy with '' @ strconv_Itoa (ClusterMembers stats) @
                '' members (quorum: '' @ strconv_Itoa (cl_quorum c) @ '')''\<rparr>)))))"

text \<open>\<open>UnixNano\<close> is an \<open>int64\<close>.\<close>

definition UnixNano :: "go_time \<Rightarrow> int" where
  "UnixNano t = sint (word_of_int (unix_ns t) :: 64 word)"

definition test_key :: "go_time \<Rightarrow> string" where
  "test_key t = ''health-check-'' @ strconv_Itoa (UnixNano t)"

definition test_value :: go_value where "test_value = GStr ''healthy''"

fun value_text :: "go_value \<Rightarrow> string" where
  "value_text (GStr s) = s"
| "value_text (GOther t) = t"

record storage_checker =
  sg_store :: store

definition NewStorageHealthChecker :: "store \<Rightarrow> storage_checker" where
  "NewStorageHealthChecker st = \<lparr>sg_store = st\<rparr>"

definition storage_name :: string where "storage_name = ''olric-storage''"

definition test_ttl :: int where "test_ttl = 5 * Second"

definition storage_test :: "store \<Rightarrow> check_result \<Rightarrow> string \<Rightarrow> check_result prog" where
  "storage_test st result testKey =
     seq (st_Put st testKey test_value test_ttl) (\<lambda>err. case err of
       Some e \<Rightarrow> Ret (result\<lparr>cr_Status := StatusError,
         cr_Message := ''Failed to write test key: '' @ Error e\<rparr>)
     | None \<Rightarrow> seq (st_Get st testKey) (\<lambda>r. case r of
         Inl e \<Rightarrow> seq (st_Delete st testKey) (\<lambda>_. Ret (result\<lparr>cr_Status := StatusError,
           cr_Message := ''Failed to read test key: '' @ Error e\<rparr>))
       | Inr value \<Rightarrow>
           if value \<noteq> test_value
           then seq (st_Delete st testKey) (\<lambda>_. Ret (result\<lparr>cr_Status := StatusError,
             cr_Message := ''Test key value mismatch: got '' @ value_text value @
               '', want '' @ value_text test_value\<rparr>))
           else seq (st_Delete st testKey) (\<lambda>_. Ret (result\<lparr>cr_Status := StatusOK,
             cr_Message := ''Storage read/write operations working''\<rparr>))))"

definition storage_Check :: "storage_checker \<Rightarrow> check_result prog" where
  "storage_Check c = Now (\<lambda>start. Now (\<lambda>timestamp. Now (\<lambda>now. Now (\<lambda>t.
     storage_test (sg_store c) \<lparr>cr_Name = storage_name, cr_Status = StatusOK, cr_Message = [],
       cr_Timestamp = timestamp, cr_Duration = time_Sub now start\<rparr> (test_key t)))))"

section \<open>The checks are checkers\<close>

interpretation connection: named_check api connection_name "connection_Check c" for api c
  by unfold_locales (simp add: connection_Check_def Let_def prog_simps split: prod.splits option.splits)

interpretation cluster: named_check api cluster_name "cluster_Check c" for api c
  by unfold_locales (simp add: cluster_Check_def Let_def prog_simps split: prod.splits sum.splits)

lemma storage_test_name: "cr_Name (fst (run api (storage_test st result k) s)) = cr_Name result"
  by (simp add: storage_test_def prog_simps split: prod.splits sum.splits option.splits)

interpretation storage: named_check api storage_name "storage_Check c" for api c
  by unfold_locales (simp add: storage_Check_def storage_test_name)

lemmas store_checkers_named = connection.named_check_axioms cluster.named_check_axioms storage.named_check_axioms

section \<open>The checks against the contract of the store\<close>

context kv_store
begin

lemma tick_keeps: "inv s \<Longrightarrow> inv (tick api s) \<and> content (tick api s) = content s"
  using Now_frame [of s "clock api s" "tick api s"] by simp

lemma storage_Check_test:
  assumes "inv s"
  obtains t result s' where "run api (storage_Check (NewStorageHealthChecker st)) s = run api (storage_test st result (test_key t)) s'"
    "inv s'" "content s' = content s"
proof (rule that)
  let ?s3 = "tick api (tick api (tick api s))"
  show "run api (storage_Check (NewStorageHealthChecker st)) s = run api (storage_test st
      \<lparr>cr_Name = storage_name, cr_Status = StatusOK, cr_Message = [],
       cr_Timestamp = clock api (tick api s),
       cr_Duration = time_Sub (clock api (tick api (tick api s))) (clock api s)\<rparr>
      (test_key (clock api ?s3))) (tick api ?s3)"
    by (simp add: storage_Check_def NewStorageHealthChecker_def)
  show "inv (tick api ?s3)" "content (tick api ?s3) = content s"
    using assms tick_keeps by metis+
qed

text \<open>Whatever happens, a storage check changes one key, the one it made from the clock.\<close>

lemma storage_test_frame:
  assumes "inv s" and "run api (storage_test st result key) s = (r, s')" and "k \<noteq> key"
  shows "content s' k = content s k"
proof -
  obtain p s1 where p: "run api (st_Put st key test_value test_ttl) s = (p, s1)" by (meson surj_pair)
  obtain g s2 where g: "run api (st_Get st key) s1 = (g, s2)" by (meson surj_pair)
  obtain d s3 where d: "run api (st_Delete st key) s2 = (d, s3)" by (meson surj_pair)
  note i1 = Put_inv [OF assms(1) p]
  have i2: "inv s2" "content s2 = content s1" using Get_frame [OF i1 g] by auto
  have "s' = s1 \<or> s' = s3"
    using assms(2) by (auto simp: storage_test_def prog_simps p g d split: option.splits sum.splits if_splits)
  with Put_other [OF assms(1) p assms(3)] Delete_other [OF i2(1) d assms(3)] i2(2) show ?thesis by auto
qed

lemma storage_Check_frame:
  assumes "inv s" and "run api (storage_Check (NewStorageHealthChecker st)) s = (r, s')"
  shows "\<exists>t. \<forall>k. k \<noteq> test_key t \<longrightarrow> content s' k = content s k"
proof -
  obtain t result s1 where "run api (storage_Check (NewStorageHealthChecker st)) s = run api (storage_test st result (test_key t)) s1"
    "inv s1" "content s1 = content s" using storage_Check_test [OF assms(1)] by metis
  with storage_test_frame assms(2) show ?thesis by metis
qed

end

context kv_live
begin

lemma storage_test_live:
  assumes "inv s"
  shows "\<exists>r s'. run api (storage_test st result key) s = (r, s') \<and> cr_Status r = StatusOK \<and> inv s' \<and>
    content s' = (content s)(key := None)"
proof -
  obtain s1 where p: "run api (st_Put st key test_value test_ttl) s = (None, s1)" using Put_live assms by blast
  have i1: "inv s1" "content s1 = (content s)(key \<mapsto> GStr ''healthy'')"
    using Put_inv [OF assms p] Put_ok [OF assms p] by (auto simp: test_value_def)
  obtain s2 where g: "run api (st_Get st key) s1 = (Inr test_value, s2)"
    using Get_live [OF i1(1), of key] i1(2) by (auto simp: test_value_def)
  have i2: "inv s2" "content s2 = content s1" using Get_frame [OF i1(1) g] by auto
  obtain s3 where d: "run api (st_Delete st key) s2 = (None, s3)" using Delete_live i2(1) by blast
  have "run api (storage_test st result key) s = (result\<lparr>cr_Status := StatusOK,
      cr_Message := ''Storage read/write operations working''\<rparr>, s3)"
    by (simp add: storage_test_def prog_simps p g d)
  moreover have "inv s3" "content s3 = (content s)(key := None)"
    using Delete_inv [OF i2(1) d] Delete_ok [OF i2(1) d] i2(2) i1(2) by auto
  ultimately show ?thesis by simp
qed

lemma storage_Check_live:
  assumes "inv s"
  shows "\<exists>r s' t. run api (storage_Check (NewStorageHealthChecker st)) s = (r, s') \<and> cr_Status r = StatusOK \<and> inv s' \<and>
    content s' = (content s)(test_key t := None)"
proof -
  obtain t result s1 where "run api (storage_Check (NewStorageHealthChecker st)) s = run api (storage_test st result (test_key t)) s1"
    "inv s1" "content s1 = content s" using storage_Check_test [OF assms] by metis
  with storage_test_live [of s1 result "test_key t"] show ?thesis by metis
qed

end

section \<open>The checks over Olric\<close>

context olric_node
begin

lemma kv_here: "kv_store api (as_Store os) (ready os) (store_content view os)"
  by (rule kv.kv_store_axioms)

end

context olric_node_live
begin

lemma kv_live_here: "kv_live api (as_Store os) (ready os) (store_content view os)"
  by (rule kvl.kv_live_axioms)

end

text \<open>
  The storage check works on the map of the locks.  Whatever Olric answers, it changes the
  slot of one key at most, \<open>health-check-<nanoseconds>\<close>; every project of another name keeps its slot.
\<close>

theorem storage_check_one_key:
  assumes "olric_dmap api view" and "ready os s" and "run api (storage_Check (NewStorageHealthChecker (as_Store os))) s = (r, s')"
  shows "\<exists>t. keeps_others (locks view os s) (locks view os s') (test_key t)"
proof -
  have "olric_node api view" using assms(1) by (rule olric_node.intro)
  from kv_store.storage_Check_frame [OF olric_node.kv_here [OF this] assms(2,3)] show ?thesis
    unfolding keeps_others_def locks_def table_def by metis
qed

lemma storage_check_one_key_witness:
  "\<exists>r s' t. run ref_api (storage_Check (NewStorageHealthChecker (as_Store default_store))) ready_node = (r, s') \<and>
     keeps_others (locks ref_data default_store ready_node) (locks ref_data default_store s') (test_key t)"
proof -
  obtain r s' where r: "run ref_api (storage_Check (NewStorageHealthChecker (as_Store default_store))) ready_node = (r, s')"
    by (meson surj_pair)
  from storage_check_one_key [OF ref.olric_dmap_axioms ready_ready_node r] r show ?thesis by blast
qed

text \<open>
  C37.  While Olric does not fail the storage check answers ok and cleans up: the key it used is
  free afterwards, and nothing else has changed.
\<close>

theorem storage_check_cleans_up:
  assumes "olric_live api view" and "ready os s"
  shows "\<exists>r s' t. run api (storage_Check (NewStorageHealthChecker (as_Store os))) s = (r, s') \<and> cr_Status r = StatusOK \<and>
    ready os s' \<and> locks view os s' = (locks view os s)(test_key t := Free)"
proof -
  have "olric_node_live api view"
    using assms(1) by (simp add: olric_node_live_def olric_node_def olric_live_def)
  from kv_live.storage_Check_live [OF olric_node_live.kv_live_here [OF this] assms(2)] show ?thesis
    by (fastforce simp: locks_def table_upd)
qed

lemma storage_check_cleans_up_witness:
  "\<exists>r s' t. run ref_api (storage_Check (NewStorageHealthChecker (as_Store default_store))) ready_node = (r, s') \<and>
     cr_Status r = StatusOK \<and> locks ref_data default_store s' (test_key t) = Free"
proof -
  obtain r t and s' :: "ref_world node" where r:
    "run ref_api (storage_Check (NewStorageHealthChecker (as_Store default_store))) ready_node = (r, s')"
    "cr_Status r = StatusOK"
    "locks ref_data default_store s' = (locks ref_data default_store ready_node)(test_key t := Free)"
    using storage_check_cleans_up [OF ref.olric_live_axioms ready_ready_node] by blast
  then have "locks ref_data default_store s' (test_key t) = Free" by simp
  with r show ?thesis by blast
qed

definition ping_status :: "bool \<Rightarrow> go_error + member list \<Rightarrow> status" where
  "ping_status client r = (case r of Inl _ \<Rightarrow> StatusError | Inr _ \<Rightarrow> if client then StatusOK else StatusError)"

definition members_status :: "int \<Rightarrow> go_error + member list \<Rightarrow> status" where
  "members_status quorum r = (case r of
     Inl _ \<Rightarrow> StatusError
   | Inr ms \<Rightarrow> if int (length ms) < quorum then StatusNotReady else StatusOK)"

text \<open>
  C38.  The connection check is ok when there is a client and Olric lists its members, and an error
  otherwise; the cluster check of a node that is not alone is an error when Olric does not list them,
  not-ready below the quorum, and ok otherwise.  A single node is always ok.
\<close>

theorem connection_and_cluster_checks:
  "cr_Status (fst (run api (connection_Check (NewConnectionHealthChecker (as_Store os))) s)) =
     ping_status (store_client os) (fst (api_Members api (ext (tick api s)))) \<and>
   cr_Status (fst (run api (cluster_Check (NewClusterHealthChecker (as_Store os) quorum single)) s)) =
     (if single then StatusOK
      else members_status quorum (fst (api_Members api (ext (tick api (tick api (tick api s)))))))"
proof -
  have "cr_Status (fst (run api (cluster_Check (NewClusterHealthChecker (as_Store os) quorum single)) s)) =
      (if single then StatusOK
       else members_status quorum (fst (api_Members api (ext (tick api (tick api (tick api s)))))))"
    by (auto simp: cluster_Check_def NewClusterHealthChecker_def as_Store_def olric_Stats_def prog_simps
        Let_def members_status_def call_def [of "api_Members api"] call_def [of "api_Stats api m" for m]
        split: prod.splits sum.splits list.splits)
  then show ?thesis
    by (auto simp: connection_Check_def NewConnectionHealthChecker_def as_Store_def ping_status_def
        olric_Ping_def prog_simps Let_def call_def [of "api_Members api"] split: prod.splits sum.splits)
qed

end
