(* ===== verification/Startup.thy ===== *)
theory Startup
  imports StoreContract
begin

text \<open>
  Start-up of the store: what a successful \<open>NewOlricStore\<close> has established, that waiting for the
  cluster ends, what reaches Olric of a valid configuration, and the operations that are not part
  of the store's contract (\<open>Exists\<close>, \<open>Ping\<close>, \<open>Stats\<close>, \<open>Close\<close>).
\<close>

section \<open>Waiting for the cluster\<close>

text \<open>How many members one call to \<open>Members\<close> counts; a failed call counts none.\<close>

definition members_seen :: "'w olric \<Rightarrow> 'w node \<Rightarrow> int" where
  "members_seen api s = (case fst (api_Members api (ext s)) of Inl _ \<Rightarrow> 0 | Inr ms \<Rightarrow> int (length ms))"

text \<open>One round of the loop.\<close>

lemma wait_loop_tick:
  obtains (quorum) "fst (run api (wait_loop os n (Tick # evs)) s) = Some None"
      "MemberCountQuorum (store_config os) \<le> members_seen api s"
      "dmap (snd (run api (wait_loop os n (Tick # evs)) s)) = dmap s"
  | (give_up) m where "fst (run api (wait_loop os n (Tick # evs)) s) = Some (Some (New (''max join attempts ('' @ m)))"
      "MaxJoinAttempts (store_config os) \<le> n + 1"
      "dmap (snd (run api (wait_loop os n (Tick # evs)) s)) = dmap s"
  | (again) s' where "run api (wait_loop os n (Tick # evs)) s = run api (wait_loop os (n + 1) evs) s'"
      "\<not> MaxJoinAttempts (store_config os) \<le> n + 1" "dmap s' = dmap s"
proof -
  obtain r w where r: "api_Members api (ext s) = (r, w)" by (meson surj_pair)
  show thesis
  proof (cases "MemberCountQuorum (store_config os) \<le> members_seen api s")
    case True
    with r show thesis by (intro quorum) (auto simp: Let_def call_def members_seen_def)
  next
    case False
    show thesis
    proof (cases "MaxJoinAttempts (store_config os) \<le> n + 1")
      case True
      with False r show thesis by (intro give_up) (auto simp: Let_def call_def members_seen_def)
    next
      case more: False
      with False r show thesis
        by (intro again [of "s\<lparr>ext := w\<rparr>"]) (auto simp: Let_def call_def members_seen_def)
    qed
  qed
qed

text \<open>The node after \<open>k\<close> rounds, and the error of giving up.\<close>

fun polled :: "'w olric \<Rightarrow> nat \<Rightarrow> 'w node \<Rightarrow> 'w node" where
  "polled api 0 s = s"
| "polled api (Suc k) s = polled api k (s\<lparr>ext := snd (api_Members api (ext s))\<rparr>)"

definition gave_up :: "olric_config \<Rightarrow> int \<Rightarrow> go_error" where
  "gave_up cfg seen = New (''max join attempts ('' @ strconv_Itoa (MaxJoinAttempts cfg) @ '') reached, only '' @
     strconv_Itoa seen @ ''/'' @ strconv_Itoa (MemberCountQuorum cfg) @ '' members present'')"

text \<open>How the loop ends, with \<open>K\<close> attempts left.\<close>

definition ends_after ::
    "'w olric \<Rightarrow> olric_config \<Rightarrow> nat \<Rightarrow> wait_event list \<Rightarrow> 'w node \<Rightarrow> go_error option \<Rightarrow> bool" where
  "ends_after api cfg K evs s r \<longleftrightarrow> (\<exists>k < K. (\<forall>i < k. evs ! i = Tick \<and> members_seen api (polled api i s) < MemberCountQuorum cfg) \<and>
     (case evs ! k of
        CtxDone e \<Rightarrow> r = Some e
      | Tick \<Rightarrow> if MemberCountQuorum cfg \<le> members_seen api (polled api k s) then r = None
          else Suc k = K \<and> r = Some (gave_up cfg (members_seen api (polled api k s)))))"

lemma ends_after_first:
  assumes "case ev of
        CtxDone e \<Rightarrow> r = Some e
      | Tick \<Rightarrow> if MemberCountQuorum cfg \<le> members_seen api s then r = None
          else K = 1 \<and> r = Some (gave_up cfg (members_seen api s))" and "0 < K"
  shows "ends_after api cfg K (ev # evs) s r"
  unfolding ends_after_def using assms by (intro exI [of _ 0]) (auto split: wait_event.splits if_splits)

lemma ends_after_later:
  assumes "ends_after api cfg K evs (s\<lparr>ext := snd (api_Members api (ext s))\<rparr>) r"
    and "members_seen api s < MemberCountQuorum cfg"
  shows "ends_after api cfg (Suc K) (Tick # evs) s r"
proof -
  let ?s = "s\<lparr>ext := snd (api_Members api (ext s))\<rparr>"
  obtain k where k: "k < K" "\<forall>i < k. evs ! i = Tick \<and> members_seen api (polled api i ?s) < MemberCountQuorum cfg"
    "case evs ! k of
        CtxDone e \<Rightarrow> r = Some e
      | Tick \<Rightarrow> if MemberCountQuorum cfg \<le> members_seen api (polled api k ?s) then r = None
          else Suc k = K \<and> r = Some (gave_up cfg (members_seen api (polled api k ?s)))"
    using assms(1) by (auto simp: ends_after_def)
  have "(Tick # evs) ! i = Tick \<and> members_seen api (polled api i s) < MemberCountQuorum cfg" if "i < Suc k" for i
    using that k(2) assms(2) by (cases i) auto
  with k(1,3) show ?thesis
    unfolding ends_after_def by (intro exI [of _ "Suc k"]) (auto split: wait_event.splits if_splits)
qed

lemma wait_loop_exact:
  assumes "n < MaxJoinAttempts (store_config os)" "nat (MaxJoinAttempts (store_config os) - n) \<le> length evs"
  shows "\<exists>r. fst (run api (wait_loop os n evs) s) = Some r \<and>
    ends_after api (store_config os) (nat (MaxJoinAttempts (store_config os) - n)) evs s r"
  using assms
proof (induction evs arbitrary: n s)
  case (Cons ev evs)
  let ?c = "store_config os"
  let ?K = "nat (MaxJoinAttempts ?c - n)"
  obtain x w where x: "api_Members api (ext s) = (x, w)" by (meson surj_pair)
  show ?case
  proof (cases ev)
    case (CtxDone e)
    then show ?thesis using Cons.prems by (auto intro!: ends_after_first)
  next
    case Tick
    show ?thesis
    proof (cases "MemberCountQuorum ?c \<le> members_seen api s")
      case True
      with x Tick have "fst (run api (wait_loop os n (ev # evs)) s) = Some None"
        by (auto simp: Let_def call_def members_seen_def)
      moreover have "ends_after api ?c ?K (ev # evs) s None"
        using True Tick Cons.prems by (intro ends_after_first) auto
      ultimately show ?thesis by blast
    next
      case few: False
      show ?thesis
      proof (cases "MaxJoinAttempts ?c \<le> n + 1")
        case True
        with few x Tick have "fst (run api (wait_loop os n (ev # evs)) s) =
            Some (Some (gave_up ?c (members_seen api s)))"
          by (auto simp: Let_def call_def members_seen_def gave_up_def)
        moreover have "ends_after api ?c ?K (ev # evs) s (Some (gave_up ?c (members_seen api s)))"
          using few True Tick Cons.prems by (intro ends_after_first) auto
        ultimately show ?thesis by blast
      next
        case False
        with few x Tick have step: "fst (run api (wait_loop os n (ev # evs)) s) =
            fst (run api (wait_loop os (n + 1) evs) (s\<lparr>ext := w\<rparr>))"
          by (auto simp: Let_def call_def members_seen_def)
        have "n + 1 < MaxJoinAttempts ?c" "nat (MaxJoinAttempts ?c - (n + 1)) \<le> length evs"
          using False Cons.prems by auto
        from Cons.IH [OF this, of "s\<lparr>ext := w\<rparr>"] obtain r where
          r: "fst (run api (wait_loop os (n + 1) evs) (s\<lparr>ext := w\<rparr>)) = Some r"
            "ends_after api ?c (nat (MaxJoinAttempts ?c - (n + 1))) evs (s\<lparr>ext := w\<rparr>) r" by blast
        have "?K = Suc (nat (MaxJoinAttempts ?c - (n + 1)))" using False by simp
        with ends_after_later [of api ?c _ evs s r] r(2) x few Tick
        have "ends_after api ?c ?K (ev # evs) s r" by simp
        with step r(1) show ?thesis by auto
      qed
    qed
  qed
qed simp

lemma wait_loop_ready:
  "fst (run api (wait_loop os n evs) s) = Some None \<Longrightarrow>
     \<exists>s0. MemberCountQuorum (store_config os) \<le> members_seen api s0"
proof (induction evs arbitrary: n s)
  case (Cons ev evs)
  show ?case
  proof (cases ev)
    case Tick
    then show ?thesis
    proof (cases rule: wait_loop_tick [of api os n evs s])
      case quorum
      then show ?thesis by blast
    next
      case (again s')
      with Cons Tick show ?thesis by auto
    qed (use Cons Tick in auto)
  qed (use Cons in auto)
qed simp

lemma wait_loop_dmap: "dmap (snd (run api (wait_loop os n evs) s)) = dmap s"
proof (induction evs arbitrary: n s)
  case (Cons ev evs)
  show ?case
  proof (cases ev)
    case Tick
    then show ?thesis
    proof (cases rule: wait_loop_tick [of api os n evs s])
      case (again s')
      with Cons Tick show ?thesis by metis
    qed auto
  qed simp
qed simp

section \<open>A started store\<close>

lemma getDMap_ready:
  assumes "run api (getDMap os) s = (Inr d, s')" "dmap s = None"
  shows "ready os s'"
  using assms by (auto simp: getDMap_def ready_def call_def split: option.splits prod.splits)

lemma started_store:
  assumes r: "run api (NewOlricStore su cfg) s = (Some (Inr os), s')" and d: "dmap s = None"
  shows "valid_config cfg \<and> os = \<lparr>store_config = cfg, store_db = True, store_client = True\<rparr> \<and> ready os s' \<and>
    su_start su = None \<and> (IsSingleNode cfg \<or> (\<exists>s0. MemberCountQuorum cfg \<le> members_seen api s0))"
proof -
  define os0 where "os0 = \<lparr>store_config = cfg, store_db = True, store_client = True\<rparr>"
  have v: "olric_Validate cfg = None" using r by (auto simp: NewOlricStore_def split: option.splits)
  then obtain c where c: "createOlricConfig (su_config su) (su_memberlist su) cfg = Inr c" "su_new su c = None"
    "su_start su = None"
    using r by (auto simp: NewOlricStore_def split: option.splits sum.splits)
  obtain w s1 where w: "run api (waitForCluster os0 (su_wait su)) s = (w, s1)" by (meson surj_pair)
  have d1: "dmap s1 = None"
    using w d wait_loop_dmap [of api os0 0 "su_wait su" s]
    by (auto simp: waitForCluster_def split: if_splits)
  note run = r [unfolded NewOlricStore_def v option.case c sum.case Let_def os0_def [symmetric]]
  from run w have w': "w = Some None"
    by (auto simp: prog_simps call_def split: option.splits prod.splits)
  obtain m w2 where m: "api_Members api (ext s1) = (m, w2)" by (meson surj_pair)
  obtain g s2 where g: "run api (getDMap os0) (s1\<lparr>ext := w2\<rparr>) = (g, s2)" by (meson surj_pair)
  from run w w' m g have "os = os0" "s' = s2" "\<exists>dm. g = Inr dm"
    by (auto simp: prog_simps call_def split: sum.splits)
  with getDMap_ready [of api os0 "s1\<lparr>ext := w2\<rparr>" _ s2] g d1 have "ready os s'" by auto
  moreover have "IsSingleNode cfg \<or> (\<exists>s0. MemberCountQuorum cfg \<le> members_seen api s0)"
    using w w' wait_loop_ready [of api os0 0 "su_wait su" s]
    by (auto simp: waitForCluster_def os0_def split: if_splits)
  ultimately show ?thesis
    using v c(3) \<open>os = os0\<close> by (simp add: Validate_None_iff os0_def)
qed

text \<open>
  C30.  A store that \<open>NewOlricStore\<close> returns has a valid configuration, its map opened under the
  configured name (so no later operation opens it again), an Olric whose \<open>Start\<close> has not returned, and,
  unless it is a single node, a cluster that has been seen with its quorum of members.
\<close>

theorem NewOlricStore_started:
  assumes "run api (NewOlricStore su cfg) s = (Some (Inr os), s')" and "dmap s = None"
  shows "valid_config cfg \<and> os = \<lparr>store_config = cfg, store_db = True, store_client = True\<rparr> \<and> ready os s' \<and>
    su_start su = None \<and> (IsSingleNode cfg \<or> (\<exists>s0. MemberCountQuorum cfg \<le> members_seen api s0))"
  by (rule started_store [OF assms])

definition sample_startup :: startup where
  "sample_startup = \<lparr>
     su_config = \<lparr>lib_BindAddr = [], lib_BindPort = 0, lib_KeepAlivePeriod = 0, lib_PartitionCount = 0,
       lib_ReplicaCount = 0, lib_ReadQuorum = 0, lib_WriteQuorum = 0, lib_MemberCountQuorum = 0,
       lib_LogLevel = [], lib_JoinRetryInterval = 0, lib_MaxJoinAttempts = 0, lib_BootstrapTimeout = 0,
       lib_Memberlist = None, lib_SyncReplication = False, lib_Peers = []\<rparr>,
     su_memberlist = Inr \<lparr>mc_BindAddr = [], mc_BindPort = 7946, mc_AdvertiseAddr = [], mc_AdvertisePort = 0\<rparr>,
     su_new = (\<lambda>_. None), su_start = None, su_wait = []\<rparr>"

lemma default_config_valid: "olric_Validate NewDefaultOlricConfig = None"
  by code_simp

lemma NewOlricStore_started_witness:
  "\<exists>s'. run ref_api (NewOlricStore sample_startup NewDefaultOlricConfig) ref_node = (Some (Inr default_store), s') \<and>
     valid_config NewDefaultOlricConfig \<and> ready default_store s'"
proof -
  have single: "IsSingleNode NewDefaultOlricConfig" by (simp add: IsSingleNode_def NewDefaultOlricConfig_def)
  have "fst (run ref_api (NewOlricStore sample_startup NewDefaultOlricConfig) ref_node) = Some (Inr default_store)"
    unfolding NewOlricStore_def default_config_valid createOlricConfig_def Let_def waitForCluster_def
    using single
    by (simp add: sample_startup_def prog_simps getDMap_def call_def ref_api_def ref_node_def default_store_def)
  then obtain s' where r: "run ref_api (NewOlricStore sample_startup NewDefaultOlricConfig) ref_node =
      (Some (Inr default_store), s')" by (metis prod.collapse)
  from NewOlricStore_started [OF r] r show ?thesis by (simp add: ref_node_def)
qed

section \<open>Termination and what reaches Olric\<close>

text \<open>
  C31.  Waiting for the cluster ends, after at most \<open>MaxJoinAttempts\<close> rounds of the \<open>select\<close>, and
  \<open>ends_after\<close> says exactly how: at the first round in which the context is done, with the
  context's error; or at the first that sees the quorum, with nil; or, if none of the \<open>MaxJoinAttempts\<close>
  rounds is such, at the very last of them, with the error that names what this round saw.
\<close>

theorem waitForCluster_ends:
  assumes "1 \<le> MaxJoinAttempts (store_config os)" and "nat (MaxJoinAttempts (store_config os)) \<le> length evs"
  shows "\<exists>r. fst (run api (waitForCluster os evs) s) = Some r \<and>
    (if IsSingleNode (store_config os) then r = None
     else ends_after api (store_config os) (nat (MaxJoinAttempts (store_config os))) evs s r)"
proof (cases "IsSingleNode (store_config os)")
  case False
  with wait_loop_exact [of 0 os evs api s] assms show ?thesis by (simp add: waitForCluster_def)
qed (simp add: waitForCluster_def)

definition lonely_store :: olric_store where
  "lonely_store = \<lparr>store_config = NewDefaultOlricConfig\<lparr>MaxJoinAttempts := 2, MemberCountQuorum := 3, JoinAddrs := [''n'']\<rparr>,
     store_db = True, store_client = True\<rparr>"

lemma waitForCluster_ends_witness:
  "\<exists>e. fst (run ref_api (waitForCluster lonely_store [Tick, Tick]) ref_node) = Some (Some (gave_up (store_config lonely_store) e))"
proof -
  have c: "MaxJoinAttempts (store_config lonely_store) = 2" "MemberCountQuorum (store_config lonely_store) = 3"
    "\<not> IsSingleNode (store_config lonely_store)"
    by (simp_all add: lonely_store_def IsSingleNode_def)
  have few: "members_seen ref_api s < 3" for s by (simp add: members_seen_def ref_api_def)
  have "nat (MaxJoinAttempts (store_config lonely_store)) \<le> length [Tick, Tick]" by (simp add: c)
  from waitForCluster_ends [of lonely_store, OF _ this, of ref_api ref_node] obtain r where
    r: "fst (run ref_api (waitForCluster lonely_store [Tick, Tick]) ref_node) = Some r"
      "ends_after ref_api (store_config lonely_store) 2 [Tick, Tick] ref_node r"
    by (auto simp: c)
  then have "\<exists>e. r = Some (gave_up (store_config lonely_store) e)"
    using few by (fastforce simp: ends_after_def c less_Suc_eq numeral_2_eq_2 not_le split: if_splits)
  with r show ?thesis by auto
qed

text \<open>
  C32.  What a valid configuration becomes for Olric.  The addresses, the replication settings and
  the quorum are handed over; the quorum of members is cut to 32 bits, and arrives as it is exactly
  when it is below \<open>2^31\<close>.  Validation does not bound it.
\<close>

theorem createOlricConfig_faithful:
  assumes "valid_config cfg"
  shows "\<exists>c. createOlricConfig c0 (Inr mc) cfg = Inr c \<and>
    lib_BindAddr c = BindAddr cfg \<and> lib_ReplicaCount c = ReplicationFactor cfg \<and>
    lib_WriteQuorum c = MemberCountQuorum cfg \<and> lib_PartitionCount c = PartitionCount cfg \<and>
    lib_SyncReplication c = (ReplicationMode cfg = ''sync'') \<and>
    lib_Peers c = (if IsSingleNode cfg then lib_Peers c0 else JoinAddrs cfg) \<and>
    (sint (lib_MemberCountQuorum c) = MemberCountQuorum cfg) = (MemberCountQuorum cfg < 2 ^ 31)"
proof -
  have q: "1 \<le> MemberCountQuorum cfg" using assms by (simp add: valid_config_defs)
  have "(sint (word_of_int (MemberCountQuorum cfg) :: 32 word) = MemberCountQuorum cfg) =
      (MemberCountQuorum cfg < 2 ^ 31)"
  proof
    assume "MemberCountQuorum cfg < 2 ^ 31"
    with q show "sint (word_of_int (MemberCountQuorum cfg) :: 32 word) = MemberCountQuorum cfg"
      by (simp add: sint_sbintrunc' signed_take_bit_int_eq_self)
  next
    assume h: "sint (word_of_int (MemberCountQuorum cfg) :: 32 word) = MemberCountQuorum cfg"
    show "MemberCountQuorum cfg < 2 ^ 31"
      using sint_lt [of "word_of_int (MemberCountQuorum cfg) :: 32 word"] unfolding h by simp
  qed
  then show ?thesis by (auto simp: createOlricConfig_def Let_def IsSingleNode_def)
qed

lemma createOlricConfig_faithful_witness:
  "\<exists>c. createOlricConfig (su_config sample_startup)
      (Inr \<lparr>mc_BindAddr = [], mc_BindPort = 7946, mc_AdvertiseAddr = [], mc_AdvertisePort = 0\<rparr>)
      NewDefaultOlricConfig = Inr c \<and> sint (lib_MemberCountQuorum c) = 1"
  using createOlricConfig_faithful [of NewDefaultOlricConfig "su_config sample_startup"
      "\<lparr>mc_BindAddr = [], mc_BindPort = 7946, mc_AdvertiseAddr = [], mc_AdvertisePort = 0\<rparr>"]
    default_config_valid by (auto simp: Validate_None_iff NewDefaultOlricConfig_def default_defs)

text \<open>
  Validation is exact: \<open>Validate\<close> returns no error exactly for the configurations that satisfy
  \<open>valid_config\<close>, a specification that does not follow the order of the checks.
\<close>

theorem Validate_exact: "(olric_Validate c = None) = valid_config c"
  by (rule Validate_None_iff)

section \<open>The other operations\<close>

lemma run_Exists:
  assumes "ready os s"
  shows "run api (olric_Exists os k) s =
    (case api_Get api (DMapName (store_config os)) k (ext s) of (r, w) \<Rightarrow>
      (case r of Inl e \<Rightarrow> if isKeyNotFoundError (Some e) then Inr False else Inl e | Inr _ \<Rightarrow> Inr True,
       s\<lparr>ext := w\<rparr>))"
  using assms by (simp add: olric_Exists_def prog_simps call_def split: prod.splits)

context olric_node
begin

lemma Exists_sound:
  assumes "ready os s" "run api (olric_Exists os k) s = (Inr b, s')"
  shows "b = (content s k \<noteq> None) \<and> content s' = content s"
  using assms get_view get_present get_missing not_found_text
  by (auto simp: run_Exists store_content_def split: prod.splits sum.splits if_splits; blast)

end

text \<open>
  An answer of \<open>Exists\<close> is right, and asking changes nothing.
\<close>

lemma Exists_right:
  assumes "olric_dmap api view" and "ready os s" and "run api (olric_Exists os k) s = (Inr b, s')"
  shows "b = (store_content view os s k \<noteq> None) \<and> store_content view os s' = store_content view os s"
  by (rule olric_node.Exists_sound [OF olric_node.intro [OF assms(1)] assms(2,3)])

lemma Exists_right_witness:
  "run ref_api (olric_Exists default_store ''api'') ready_node = (Inr False, ready_node) \<and>
   store_content ref_data default_store ready_node ''api'' = None"
proof -
  have g: "api_Get ref_api d ''api'' (ext ready_node) = (Inl (New ''key not found''), ext ready_node)" for d
    by (simp add: ref_api_def ready_node_def ref_node_def)
  have r: "run ref_api (olric_Exists default_store ''api'') ready_node = (Inr False, ready_node)"
    by (simp add: run_Exists [OF ready_ready_node] g isKeyNotFoundError_def)
  from Exists_right [OF ref.olric_dmap_axioms ready_ready_node r] r show ?thesis by simp
qed

text \<open>\<open>Ping\<close> and \<open>Stats\<close> are one call to \<open>Members\<close>; \<open>Close\<close> is one call to \<open>Shutdown\<close>.\<close>

lemma Ping_None_iff:
  "fst (run api (olric_Ping os) s) = None \<longleftrightarrow>
     store_client os \<and> (\<exists>ms. fst (api_Members api (ext s)) = Inr ms)"
  by (auto simp: olric_Ping_def call_def split: prod.splits sum.splits)

lemma Stats_members:
  "(case fst (run api (olric_Stats os) s) of
      Inl e \<Rightarrow> \<exists>e'. fst (api_Members api (ext s)) = Inl e'
    | Inr st \<Rightarrow> \<exists>ms. fst (api_Members api (ext s)) = Inr ms \<and> ClusterMembers st = int (length ms) \<and>
        TotalKeys st = 0 \<and> MemoryUsage st = 0)"
  by (auto simp: olric_Stats_def call_def Let_def split: prod.splits sum.splits list.splits)

end
