(* ===== verification/StoreMetrics.thy ===== *)
theory StoreMetrics
  imports Metrics OlricStore
begin

text \<open>
  Olric's metrics and their collector: \<open>internal/store/metrics.go\<close>.  \<open>collect\<close> is a program whose
  result is its calls on the metrics.  The collector is a state of goroutines and of the two channels
  they are steered by; \<open>collector_step\<close> is what one action makes of it, if it can happen.
\<close>

definition olric_metrics :: "string \<Rightarrow> metric_desc list" where
  "olric_metrics ns = [
     desc Gauge ns ''olric_cluster_members'' ''Number of cluster members'' [] NoBuckets,
     desc Gauge ns ''olric_cluster_partitions'' ''Number of partitions in the cluster'' [] NoBuckets,
     desc Gauge ns ''olric_cluster_backups'' ''Number of backup replicas'' [] NoBuckets,
     desc Gauge ns ''olric_cluster_coordinator'' ''1 if this node is coordinator, 0 otherwise'' [] NoBuckets,
     desc Gauge ns ''olric_storage_keys_total'' ''Total number of keys stored'' [] NoBuckets,
     desc Gauge ns ''olric_storage_memory_bytes'' ''Memory usage in bytes'' [] NoBuckets,
     desc Gauge ns ''olric_storage_allocated_memory_bytes'' ''Allocated memory in bytes'' [] NoBuckets,
     desc CounterVec ns ''olric_operations_total'' ''Total number of Olric operations''
       [''operation'', ''status''] NoBuckets,
     desc HistogramVec ns ''olric_operation_duration_seconds'' ''Olric operation duration in seconds''
       [''operation''] (Buckets [1, 5, 10, 25, 50, 100, 250, 500, 1000]),
     desc CounterVec ns ''olric_operation_errors_total'' ''Total number of Olric operation errors''
       [''operation'', ''error_type''] NoBuckets,
     desc Gauge ns ''olric_replication_lag_seconds'' ''Replication lag in seconds'' [] NoBuckets,
     desc CounterVec ns ''olric_backup_operations_total'' ''Total number of backup operations''
       [''status''] NoBuckets]"

text \<open>The registry after \<open>NewOlricMetrics\<close> has added its own.\<close>

definition NewOlricMetrics :: "string \<Rightarrow> registered list \<Rightarrow> registered list" where
  "NewOlricMetrics namespace registry = registry @ map Metric (olric_metrics namespace)"

definition RecordOperation :: "string \<Rightarrow> string \<Rightarrow> int \<Rightarrow> metric_call list" where
  "RecordOperation operation status duration =
     [Inc ''olric_operations_total'' [operation, status],
      Observe ''olric_operation_duration_seconds'' [operation] (Secs duration)]"

definition RecordError :: "string \<Rightarrow> string \<Rightarrow> metric_call list" where
  "RecordError operation errorType = [Inc ''olric_operation_errors_total'' [operation, errorType]]"

definition RecordBackupOperation :: "string \<Rightarrow> metric_call list" where
  "RecordBackupOperation status = [Inc ''olric_backup_operations_total'' [status]]"

section \<open>The collector\<close>

text \<open>The type assertion to \<open>*OlricStore\<close> succeeds for the only store there is.\<close>

definition collect :: "olric_store \<Rightarrow> metric_call list prog" where
  "collect os = seq (st_Stats (as_Store os)) (\<lambda>r. case r of
     Inl e \<Rightarrow> Ret []
   | Inr stats \<Rightarrow>
       let cluster = [SetTo ''olric_cluster_members'' [] (Num (ClusterMembers stats)),
             SetTo ''olric_cluster_partitions'' [] (Num (stats_PartitionCount stats)),
             SetTo ''olric_cluster_backups'' [] (Num (stats_BackupCount stats))];
           storage = [SetTo ''olric_storage_keys_total'' [] (Num (TotalKeys stats)),
             SetTo ''olric_storage_memory_bytes'' [] (Num (MemoryUsage stats))]
       in if \<not> store_client os then Ret (cluster @ storage)
          else ClientMembers (\<lambda>m. Ret (cluster @
            (case m of
               Inl _ \<Rightarrow> []
             | Inr members \<Rightarrow>
                 if list_ex member_Coordinator members
                 then [SetTo ''olric_cluster_coordinator'' [] (Num 1)] else []) @
            storage)))"

text \<open>
  The goroutines that \<open>Start\<close> has begun and that have not collected yet, those in their \<open>select\<close>, and
  whether the two channels are closed.  A close of a closed channel is a panic, which ends the process.
\<close>

record collector =
  co_starting :: nat
  co_looping :: nat
  co_stopChan :: bool
  co_doneChan :: bool
  co_panicked :: bool

definition NewOlricMetricsCollector :: collector where
  "NewOlricMetricsCollector = \<lparr>co_starting = 0, co_looping = 0, co_stopChan = False, co_doneChan = False,
     co_panicked = False\<rparr>"

definition collector_Start :: "collector \<Rightarrow> collector" where
  "collector_Start c = c\<lparr>co_starting := Suc (co_starting c)\<rparr>"

text \<open>
  What can happen: a call of \<open>Start\<close>, the first line of a call of \<open>Stop\<close>, the first collection of a
  goroutine, a collection at a tick, and the end of a goroutine that has seen the stop, whose deferred
  call closes \<open>doneChan\<close>.  Neither call is guarded.
\<close>

datatype collector_action = CallStart | FirstRound | CollectTick | StopSeen | CallStop

definition collector_step :: "collector_action \<Rightarrow> collector \<Rightarrow> collector option" where
  "collector_step a c = (if co_panicked c then None else case a of
     CallStart \<Rightarrow> Some (collector_Start c)
   | FirstRound \<Rightarrow>
       if co_starting c = 0 then None
       else Some (c\<lparr>co_starting := co_starting c - 1, co_looping := Suc (co_looping c)\<rparr>)
   | CollectTick \<Rightarrow> if co_looping c = 0 then None else Some c
   | StopSeen \<Rightarrow>
       if co_looping c = 0 \<or> \<not> co_stopChan c then None
       else if co_doneChan c then Some (c\<lparr>co_looping := co_looping c - 1, co_panicked := True\<rparr>)
       else Some (c\<lparr>co_looping := co_looping c - 1, co_doneChan := True\<rparr>)
   | CallStop \<Rightarrow> if co_stopChan c then Some (c\<lparr>co_panicked := True\<rparr>) else Some (c\<lparr>co_stopChan := True\<rparr>))"

fun collector_run :: "collector_action list \<Rightarrow> collector \<Rightarrow> collector option" where
  "collector_run [] c = Some c"
| "collector_run (a # as) c = (case collector_step a c of None \<Rightarrow> None | Some c' \<Rightarrow> collector_run as c')"

text \<open>
  A whole call of \<open>Stop\<close>: \<open>close(stopChan)\<close> panics the second time; the receive waits for the end of
  a goroutine, for ever if there is none.
\<close>

datatype stop_outcome = Stopped | Blocked | CloseOfClosed

definition Stop :: "collector \<Rightarrow> stop_outcome \<times> collector" where
  "Stop c = (if co_stopChan c then (CloseOfClosed, c\<lparr>co_panicked := True\<rparr>)
     else let c = c\<lparr>co_stopChan := True\<rparr> in
       if co_doneChan c then (Stopped, c)
       else if 0 < co_looping c then (Stopped, c\<lparr>co_looping := co_looping c - 1, co_doneChan := True\<rparr>)
       else if 0 < co_starting c then (Stopped, c\<lparr>co_starting := co_starting c - 1, co_doneChan := True\<rparr>)
       else (Blocked, c))"

text \<open>It is what its first line and then the goroutine do.\<close>

lemma Stop_by_steps:
  assumes "\<not> co_panicked c" "\<not> co_doneChan c"
  shows "collector_run (CallStop # (if co_stopChan c then [] else if 0 < co_looping c then [StopSeen]
      else if 0 < co_starting c then [FirstRound, StopSeen] else [])) c = Some (snd (Stop c))"
  using assms by (auto simp: collector_step_def Stop_def Let_def)

lemma collector_run_append:
  "collector_run (as @ bs) c = (case collector_run as c of None \<Rightarrow> None | Some c' \<Rightarrow> collector_run bs c')"
  by (induction as arbitrary: c) (auto split: option.splits)

text \<open>The state as the actions so far account for it.\<close>

definition accounts :: "collector_action list \<Rightarrow> collector \<Rightarrow> bool" where
  "accounts as c \<longleftrightarrow>
     co_panicked c = (2 \<le> count_list as CallStop \<or> 2 \<le> count_list as StopSeen) \<and>
     co_starting c + co_looping c + count_list as StopSeen = count_list as CallStart \<and>
     co_stopChan c = (0 < count_list as CallStop) \<and> co_doneChan c = (0 < count_list as StopSeen) \<and>
     (0 < count_list as StopSeen \<longrightarrow> 0 < count_list as CallStop)"

lemma accounts_step:
  assumes "accounts as c" "collector_step a c = Some c'"
  shows "accounts (as @ [a]) c'"
  using assms
  by (cases a) (auto simp: accounts_def collector_step_def collector_Start_def split: if_splits)

lemma run_accounts: "collector_run as NewOlricMetricsCollector = Some c \<Longrightarrow> accounts as c"
proof (induction as arbitrary: c rule: rev_induct)
  case Nil
  then show ?case by (auto simp: accounts_def NewOlricMetricsCollector_def)
next
  case (snoc a as)
  then show ?case by (auto simp: collector_run_append accounts_step split: option.splits)
qed

text \<open>With one call of \<open>Start\<close> the end of the goroutine is the end of collecting.\<close>

lemma no_round_after_end:
  assumes "collector_run (as @ StopSeen # bs) NewOlricMetricsCollector = Some c"
    and "count_list (as @ StopSeen # bs) CallStart \<le> 1"
  shows "FirstRound \<notin> set bs \<and> CollectTick \<notin> set bs"
proof -
  have "a \<noteq> FirstRound \<and> a \<noteq> CollectTick" if bs: "bs = cs @ a # ds" for a cs ds
  proof -
    have whole: "as @ StopSeen # bs = (as @ StopSeen # cs) @ a # ds" by (simp add: bs)
    from assms(1) obtain d d' where d: "collector_run (as @ StopSeen # cs) NewOlricMetricsCollector = Some d"
      "collector_step a d = Some d'"
      unfolding whole collector_run_append by (auto split: option.splits)
    from run_accounts [OF d(1)] assms(2) have "co_starting d = 0 \<and> co_looping d = 0"
      by (auto simp: accounts_def bs)
    with d(2) show ?thesis by (cases a) (auto simp: collector_step_def split: if_splits)
  qed
  then show ?thesis by (metis split_list)
qed

lemma olric_calls_ok [simp]:
  "call_ok (map Metric (olric_metrics ns)) (SetTo ''olric_cluster_members'' [] v)"
  "call_ok (map Metric (olric_metrics ns)) (SetTo ''olric_cluster_partitions'' [] v)"
  "call_ok (map Metric (olric_metrics ns)) (SetTo ''olric_cluster_backups'' [] v)"
  "call_ok (map Metric (olric_metrics ns)) (SetTo ''olric_cluster_coordinator'' [] v)"
  "call_ok (map Metric (olric_metrics ns)) (SetTo ''olric_storage_keys_total'' [] v)"
  "call_ok (map Metric (olric_metrics ns)) (SetTo ''olric_storage_memory_bytes'' [] v)"
  "call_ok (map Metric (olric_metrics ns)) (Inc ''olric_operations_total'' [a, b])"
  "call_ok (map Metric (olric_metrics ns)) (Observe ''olric_operation_duration_seconds'' [a] v)"
  "call_ok (map Metric (olric_metrics ns)) (Inc ''olric_operation_errors_total'' [a, b])"
  "call_ok (map Metric (olric_metrics ns)) (Inc ''olric_backup_operations_total'' [a])"
  by (simp_all add: call_ok_def olric_metrics_def desc_def)

lemma call_ok_NewOlricMetrics:
  "call_ok (register ns) c \<or> call_ok (map Metric (olric_metrics ns)) c \<Longrightarrow>
     call_ok (NewOlricMetrics ns (register ns)) c"
  unfolding NewOlricMetrics_def using call_ok_append by blast

lemma own_append [simp]: "own_metrics (as @ bs) = own_metrics as @ own_metrics bs"
  and own_Metric [simp]: "own_metrics (map Metric ds) = ds"
  and own_library [simp]: "own_metrics [GoCollector, ProcessCollector] = []"
  by (simp_all add: own_metrics_def comp_def)

lemma NewOlricMetrics_registrable: "registrable (NewOlricMetrics ns (register ns))"
  unfolding registrable_def NewOlricMetrics_def register_def own_append own_Metric own_library
  by (simp add: app_metrics_def http_metrics_def health_metrics_def lock_metrics_def olric_metrics_def desc_def)

text \<open>
  One registry takes the metrics of the service, those of Olric and the library's two collectors,
  under the namespace that \<open>Load\<close> sets.
\<close>

lemma registers:
  assumes "library_ok lib"
  shows "register_all lib (NewOlricMetrics ''deployment_lock'' (register ''deployment_lock'')) [] =
    Some (NewOlricMetrics ''deployment_lock'' (register ''deployment_lock''))"
proof -
  let ?ns = "''deployment_lock''"
  let ?own = "app_metrics ?ns @ http_metrics ?ns @ health_metrics ?ns @ lock_metrics ?ns"
  let ?rs = "map Metric ?own @ [GoCollector, ProcessCollector] @ map Metric (olric_metrics ?ns)"
  have rs: "NewOlricMetrics ?ns (register ?ns) = ?rs" by (simp add: NewOlricMetrics_def register_def)
  have ok: "list_all desc_ok (?own @ olric_metrics ?ns)" by code_simp
  have names: "distinct (map fq_name (?own @ olric_metrics ?ns))" by code_simp
  have "list_all (\<lambda>d. prefix ''deployment'' (fq_name d)) (?own @ olric_metrics ?ns)" by code_simp
  then have own: "apart lib (Metric d) GoCollector" "apart lib (Metric d) ProcessCollector"
    "apart lib GoCollector (Metric d)" "apart lib ProcessCollector (Metric d)"
    if "d \<in> set (?own @ olric_metrics ?ns)" for d
    using that assms by (auto simp: apart_def library_ok_def list_all_iff) (force simp: prefix_def)+
  have lib: "apart lib GoCollector ProcessCollector"
    using assms by (force simp: apart_def library_ok_def list_all_iff prefix_def)
  have "sorted_wrt (apart lib) (map Metric (?own @ olric_metrics ?ns))" by (rule apart_metrics [OF names])
  then have "sorted_wrt (apart lib) ?rs"
    using own lib by (auto simp: sorted_wrt_append)
  moreover have "\<forall>r \<in> set ?rs. list_all desc_ok (describe lib r)"
    using ok assms by (auto simp: list_all_iff library_ok_def)
  ultimately show ?thesis unfolding rs by (intro register_all_Some [of _ _ "[]", simplified]) auto
qed

lemma collect_accepted: "accepted (map Metric (olric_metrics ns)) (fst (run api (collect os) s))"
  by (auto simp: accepted_def collect_def as_Store_def prog_simps Let_def split: sum.splits prod.splits)

text \<open>
  Collecting sets the gauge of the coordinator to 1 if any member of the cluster is one, this
  node or another, and never sets it to anything else, so that it does not go back to 0.
\<close>

theorem coordinator_gauge:
  "filter (\<lambda>c. call_name c = ''olric_cluster_coordinator'') (fst (run api (collect os) s)) =
     (case run api (olric_Stats os) s of
        (Inl _, _) \<Rightarrow> []
      | (Inr _, s1) \<Rightarrow>
          (case fst (api_Members api (ext s1)) of
             Inl _ \<Rightarrow> []
           | Inr ms \<Rightarrow> if store_client os \<and> list_ex member_Coordinator ms
               then [SetTo ''olric_cluster_coordinator'' [] (Num 1)] else []))"
proof -
  obtain r s1 where r: "run api (olric_Stats os) s = (r, s1)" by (meson surj_pair)
  obtain mr w where mr: "api_Members api (ext s1) = (mr, w)" by (meson surj_pair)
  show ?thesis
    by (cases r; cases mr)
      (simp_all add: collect_def as_Store_def prog_simps Let_def call_def r mr)
qed

text \<open>
  C40.  The collector's life, whatever calls \<open>Start\<close> and \<open>Stop\<close> when.  It panics exactly when \<open>Stop\<close> is
  called twice or a second goroutine ends, which takes a second \<open>Start\<close>.  A goroutine ends only when
  told to; with one \<open>Start\<close> nothing is collected after that.  And a \<open>Stop\<close> that waits for a goroutine
  can return: at most two steps of a goroutine away \<open>doneChan\<close> is closed.
\<close>

theorem collector_life:
  assumes "collector_run as NewOlricMetricsCollector = Some c"
  shows "co_panicked c = (2 \<le> count_list as CallStop \<or> 2 \<le> count_list as StopSeen) \<and>
    count_list as StopSeen \<le> count_list as CallStart \<and> (StopSeen \<in> set as \<longrightarrow> CallStop \<in> set as) \<and>
    (\<forall>bs cs. as = bs @ StopSeen # cs \<and> count_list as CallStart \<le> 1 \<longrightarrow> FirstRound \<notin> set cs \<and> CollectTick \<notin> set cs) \<and>
    (CallStart \<in> set as \<and> CallStop \<in> set as \<and> \<not> co_panicked c \<longrightarrow>
      (\<exists>bs c'. set bs \<subseteq> {FirstRound, StopSeen} \<and> length bs \<le> 2 \<and>
        collector_run (as @ bs) NewOlricMetricsCollector = Some c' \<and> co_doneChan c'))"
proof -
  have acc: "accounts as c" by (rule run_accounts [OF assms])
  have mem: "0 < count_list as a \<longleftrightarrow> a \<in> set as" for a using count_list_0_iff [of as a] by auto
  have progress: "\<exists>bs c'. set bs \<subseteq> {FirstRound, StopSeen} \<and> length bs \<le> 2 \<and> collector_run bs c = Some c' \<and> co_doneChan c'"
    if "CallStart \<in> set as" "CallStop \<in> set as" "\<not> co_panicked c"
  proof (cases "co_doneChan c")
    case True
    then show ?thesis by (intro exI [of _ "[]"]) simp
  next
    case False
    let ?bs = "if 0 < co_looping c then [StopSeen] else [FirstRound, StopSeen]"
    have "0 < co_starting c + co_looping c" "co_stopChan c"
      using acc that False by (auto simp: accounts_def mem [symmetric])
    with that(3) False have "\<exists>c'. collector_run ?bs c = Some c' \<and> co_doneChan c'"
      by (auto simp: collector_step_def)
    then show ?thesis by (intro exI [of _ ?bs]) auto
  qed
  have "FirstRound \<notin> set cs \<and> CollectTick \<notin> set cs" if "as = bs @ StopSeen # cs" "count_list as CallStart \<le> 1" for bs cs
    using no_round_after_end [of bs cs c] that assms by blast
  moreover have "collector_run (as @ bs) NewOlricMetricsCollector = collector_run bs c" for bs
    by (simp add: collector_run_append assms)
  moreover have "count_list as StopSeen \<le> count_list as CallStart" "StopSeen \<in> set as \<longrightarrow> CallStop \<in> set as"
    "co_panicked c = (2 \<le> count_list as CallStop \<or> 2 \<le> count_list as StopSeen)"
    using acc by (auto simp: accounts_def mem)
  ultimately show ?thesis using progress by auto
qed

lemma collector_life_witness:
  "\<exists>c. collector_run [CallStart, FirstRound, CallStart, CallStop, FirstRound, StopSeen, CollectTick, StopSeen]
     NewOlricMetricsCollector = Some c \<and> co_panicked c"
proof -
  let ?as = "[CallStart, FirstRound, CallStart, CallStop, FirstRound, StopSeen, CollectTick, StopSeen]"
  obtain c where c: "collector_run ?as NewOlricMetricsCollector = Some c"
    by (simp add: collector_step_def NewOlricMetricsCollector_def collector_Start_def)
  from collector_life [OF c] have "co_panicked c" by simp
  with c show ?thesis by blast
qed

end
