(* ===== verification/Server.thy ===== *)
theory Server
  imports Routes Config StoreHealth Startup StoreMetrics
begin

text \<open>
  The service: \<open>internal/server/server.go\<close>.  \<open>NewServer\<close>, \<open>server_Start\<close> and \<open>server_Shutdown\<close> are
  the three stages of its life.  What the listeners of \<open>net/http\<close> answer, and the order in which
  goroutines get there, are arguments.  The steps of a life, with probes in between, are the
  relation \<open>life_step\<close>.
\<close>

section \<open>Construction\<close>

record http_server =
  hs_Addr :: string
  hs_ReadTimeout :: int
  hs_WriteTimeout :: int
  hs_IdleTimeout :: int
  hs_MinVersion :: "string option"

record server =
  srv_cfg :: config
  srv_startTime :: go_time
  srv_metrics :: metrics
  srv_health :: manager
  srv_store :: olric_store
  srv_storeMetrics :: "registered list"
  srv_collector :: collector
  srv_lockManager :: lock_manager
  srv_apiServer :: http_server
  srv_probeServer :: http_server
  srv_metricsServer :: http_server
  srv_shutdownChan :: bool

definition host_port :: "string \<Rightarrow> int \<Rightarrow> string" where
  "host_port host port = host @ '':'' @ strconv_Itoa port"

text \<open>The three servers; the routers they serve are \<open>setupAPIRouter\<close>, \<open>setupProbeRouter\<close> and Prometheus'.\<close>

definition setupServers :: "config \<Rightarrow> http_server \<times> http_server \<times> http_server" where
  "setupServers cfg =
     (\<lparr>hs_Addr = host_port (APIHost cfg) (APIPort cfg), hs_ReadTimeout = 15 * Second,
        hs_WriteTimeout = 15 * Second, hs_IdleTimeout = 60 * Second,
        hs_MinVersion = (if TLSEnabled cfg then Some ''VersionTLS13'' else None)\<rparr>,
      \<lparr>hs_Addr = host_port (ProbeHost cfg) (ProbePort cfg), hs_ReadTimeout = 5 * Second,
        hs_WriteTimeout = 5 * Second, hs_IdleTimeout = 30 * Second, hs_MinVersion = None\<rparr>,
      \<lparr>hs_Addr = host_port (MetricsHost cfg) (MetricsPort cfg), hs_ReadTimeout = 5 * Second,
        hs_WriteTimeout = 10 * Second, hs_IdleTimeout = 30 * Second, hs_MinVersion = None\<rparr>)"

text \<open>
  The outcomes of \<open>New\<close>: a server with the calls made on its metrics, an error, still waiting for the
  cluster, or the panic of a configuration without Olric's part, which \<open>Load\<close> never returns.
\<close>

datatype boot = Booted server "metric_call list" | Failed go_error | Waiting | NilPointer

text \<open>The health checks of the package and those of the store, in the order of registration.\<close>

definition base_manager :: "config \<Rightarrow> manager" where
  "base_manager cfg = RegisterChecker (RegisterChecker
     (NewManager (HealthCheckCacheDuration cfg) (HealthCheckTimeout cfg)) (ServerChecker 0)) (ReadinessChecker 0)"

definition register_store_checks :: "olric_config \<Rightarrow> store \<Rightarrow> manager \<Rightarrow> manager" where
  "register_store_checks oc st m =
     (let m = RegisterChecker m (OtherChecker connection_name (connection_Check (NewConnectionHealthChecker st)));
          m = RegisterChecker m (OtherChecker cluster_name (cluster_Check
                (NewClusterHealthChecker st (MemberCountQuorum oc) (IsSingleNode oc))))
      in RegisterChecker m (OtherChecker storage_name (storage_Check (NewStorageHealthChecker st))))"

definition NewServer ::
    "startup \<Rightarrow> string \<Rightarrow> config \<Rightarrow> (string \<Rightarrow> string option) \<Rightarrow> boot prog" where
  "NewServer su goVersion cfg buildInfo = Now (\<lambda>startTime.
     seq (NewMetrics (MetricsNamespace cfg) buildInfo goVersion) (\<lambda>(metrics, calls).
       let manager = base_manager cfg in
       (case Olric cfg of
          None \<Rightarrow> Ret NilPointer
        | Some oc \<Rightarrow> seq (NewOlricStore su oc) (\<lambda>res. Ret (case res of
            None \<Rightarrow> Waiting
          | Some (Inl err) \<Rightarrow> Failed (Wrap ''failed to initialize olric store'' err)
          | Some (Inr os) \<Rightarrow>
              let st = as_Store os;
                  (api, probe, ms) = setupServers cfg
              in Booted \<lparr>
                srv_cfg = cfg,
                srv_startTime = startTime,
                srv_metrics = metrics,
                srv_health = register_store_checks oc st manager,
                srv_store = os,
                srv_storeMetrics = NewOlricMetrics (MetricsNamespace cfg) (mt_registry metrics),
                srv_collector = collector_Start NewOlricMetricsCollector,
                srv_lockManager = NewOlricLockManager st,
                srv_apiServer = api,
                srv_probeServer = probe,
                srv_metricsServer = ms,
                srv_shutdownChan = False\<rparr> calls)))))"

section \<open>Start\<close>

datatype which = API | Probe | MetricsEndpoint | OlricStore

fun listener_name :: "which \<Rightarrow> string" where
  "listener_name API = ''API server''"
| "listener_name Probe = ''probe server''"
| "listener_name MetricsEndpoint = ''metrics server''"
| "listener_name OlricStore = ''olric store''"

definition ErrServerClosed :: go_error where
  "ErrServerClosed = Sentinel ''http: Server closed''"

text \<open>How the API server is told to listen.\<close>

datatype listen_call = ListenAndServe | ListenAndServeTLS string string

definition api_listen :: "server \<Rightarrow> listen_call" where
  "api_listen s = (if TLSEnabled (srv_cfg s) then ListenAndServeTLS (TLSCert (srv_cfg s)) (TLSKey (srv_cfg s))
     else ListenAndServe)"

text \<open>
  \<open>returned\<close>: the listeners that have returned within the first 100 milliseconds, with what they
  returned, in the order in which they reach the channel.
\<close>

definition start_errors :: "(which \<times> go_error option) list \<Rightarrow> go_error list" where
  "start_errors returned = concat (map (\<lambda>(w, r). case r of
     Some err \<Rightarrow> if err \<noteq> ErrServerClosed then [Wrap (listener_name w @ '' error'') err] else []
   | None \<Rightarrow> []) returned)"

definition server_Start :: "(which \<times> go_error option) list \<Rightarrow> server \<Rightarrow> go_error option \<times> server" where
  "server_Start returned s = (case start_errors returned of
     err # _ \<Rightarrow> (Some err, s)
   | [] \<Rightarrow> (None, s\<lparr>srv_health := SetServersRunning (srv_health s) True\<rparr>))"

text \<open>\<open>updateMetrics\<close>, started by a successful \<open>Start\<close>: the events of its \<open>select\<close>, and its calls.\<close>

datatype runtime_event = TickerC runtime_stats | ShutdownChan

fun updateMetrics :: "runtime_event list \<Rightarrow> metric_call list" where
  "updateMetrics [] = []"
| "updateMetrics (TickerC rt # evs) =
     AddTo ''app_uptime_seconds'' [] (Num 1) # UpdateRuntimeMetrics rt @ updateMetrics evs"
| "updateMetrics (ShutdownChan # evs) = []"

section \<open>Shutdown\<close>

text \<open>What closing the parts comes to, and the order in which the three goroutines finish.\<close>

record shutdown_env =
  sd_api :: "go_error option"
  sd_metrics :: "go_error option"
  sd_probe :: "go_error option"
  sd_order :: "which list"

datatype shutdown_outcome = Done "go_error option" | Hangs | CloseOfClosedChannel

definition shutdown_error :: "which \<Rightarrow> go_error option \<Rightarrow> go_error list" where
  "shutdown_error w r = (case r of
     None \<Rightarrow> [] | Some err \<Rightarrow> [Wrap (listener_name w @ '' shutdown error'') err])"

fun part_result :: "shutdown_env \<Rightarrow> go_error option \<Rightarrow> which \<Rightarrow> go_error option" where
  "part_result env closed API = sd_api env"
| "part_result env closed MetricsEndpoint = sd_metrics env"
| "part_result env closed Probe = sd_probe env"
| "part_result env closed OlricStore = closed"

text \<open>What is sent on \<open>errChan\<close>: the three in their order, then the probe server, which is last.\<close>

definition sent_errors :: "shutdown_env \<Rightarrow> go_error option \<Rightarrow> go_error list" where
  "sent_errors env closed =
     concat (map (\<lambda>w. shutdown_error w (part_result env closed w)) (sd_order env)) @
     shutdown_error Probe (sd_probe env)"

definition server_Shutdown :: "shutdown_env \<Rightarrow> server \<Rightarrow> (shutdown_outcome \<times> server) prog" where
  "server_Shutdown env s =
     (let s1 = s\<lparr>srv_health := SetShuttingDown (srv_health s) True\<rparr> in
      if srv_shutdownChan s1 then Ret (CloseOfClosedChannel, s1)
      else let s2 = s1\<lparr>srv_shutdownChan := True\<rparr>;
               (stop, collector) = Stop (srv_collector s2);
               s3 = s2\<lparr>srv_collector := collector\<rparr>
        in case stop of
             CloseOfClosed \<Rightarrow> Ret (CloseOfClosedChannel, s3)
           | Blocked \<Rightarrow> Ret (Hangs, s3)
           | Stopped \<Rightarrow> seq (olric_Close (srv_store s3)) (\<lambda>closed.
               Ret (Done (case sent_errors env closed of [] \<Rightarrow> None | err # _ \<Rightarrow> Some err), s3)))"

section \<open>Waiting for the listeners\<close>

text \<open>
  One round of \<open>WaitForServers\<close> reads the clock and dials the three addresses in turn; \<open>dial\<close> says
  what \<open>net.DialTimeout\<close> comes to in each round, for a network, an address and a time limit.
  \<open>fuel\<close> bounds the rounds.
\<close>

type_synonym dialer = "string \<Rightarrow> string \<Rightarrow> int \<Rightarrow> go_error option"

definition checkServer :: "dialer \<Rightarrow> string \<Rightarrow> bool" where
  "checkServer dial addr = (case dial ''tcp'' addr (100 * Millisecond) of Some err \<Rightarrow> False | None \<Rightarrow> True)"

definition all_listening :: "server \<Rightarrow> dialer \<Rightarrow> bool" where
  "all_listening s dial \<longleftrightarrow> checkServer dial (hs_Addr (srv_apiServer s)) \<and>
     checkServer dial (hs_Addr (srv_probeServer s)) \<and> checkServer dial (hs_Addr (srv_metricsServer s))"

fun wait_rounds :: "(nat \<Rightarrow> dialer) \<Rightarrow> server \<Rightarrow> int \<Rightarrow> go_time \<Rightarrow> nat \<Rightarrow> nat \<Rightarrow> go_error option option prog" where
  "wait_rounds dial s timeout deadline 0 n = Ret None"
| "wait_rounds dial s timeout deadline (Suc fuel) n = Now (\<lambda>now.
     if \<not> time_Before now deadline
     then Ret (Some (Some (New (''servers did not become ready within '' @ duration_String timeout))))
     else if all_listening s (dial n) then Ret (Some None)
     else wait_rounds dial s timeout deadline fuel (Suc n))"

definition WaitForServers :: "(nat \<Rightarrow> dialer) \<Rightarrow> nat \<Rightarrow> server \<Rightarrow> int \<Rightarrow> go_error option option prog" where
  "WaitForServers dial fuel s timeout =
     Now (\<lambda>now. wait_rounds dial s timeout (time_Add now timeout) fuel 0)"


section \<open>A booted server\<close>

lemma NewServer_Booted:
  assumes "run api (NewServer su v cfg info) n = (Booted s cs, n')"
  obtains oc os n1 where "Olric cfg = Some oc" "dmap n1 = dmap n" "run api (NewOlricStore su oc) n1 = (Some (Inr os), n')"
    "srv_cfg s = cfg" "srv_store s = os" "srv_lockManager s = NewOlricLockManager (as_Store os)"
    "srv_health s = register_store_checks oc (as_Store os) (base_manager cfg)"
    "(srv_apiServer s, srv_probeServer s, srv_metricsServer s) = setupServers cfg"
    "srv_collector s = collector_Start NewOlricMetricsCollector" "\<not> srv_shutdownChan s"
    "mt_registry (srv_metrics s) = register (MetricsNamespace cfg)"
    "srv_storeMetrics s = NewOlricMetrics (MetricsNamespace cfg) (register (MetricsNamespace cfg))"
    "well_used (register (MetricsNamespace cfg)) cs"
proof -
  let ?n1 = "tick api (tick api n)"
  have reg: "well_used (register (MetricsNamespace cfg)) (snd (fst (run api (NewMetrics (MetricsNamespace cfg) info v) (tick api n))))"
    "mt_registry (fst (fst (run api (NewMetrics (MetricsNamespace cfg) info v) (tick api n)))) = register (MetricsNamespace cfg)"
    by (simp_all add: NewMetrics_def)
  have step: "run api (NewMetrics (MetricsNamespace cfg) info v) (tick api n) =
      (fst (run api (NewMetrics (MetricsNamespace cfg) info v) (tick api n)), ?n1)"
    by (simp add: NewMetrics_def)
  obtain mt ms where mt: "run api (NewMetrics (MetricsNamespace cfg) info v) (tick api n) = ((mt, ms), ?n1)"
    using step by (metis surj_pair)
  obtain oc where oc: "Olric cfg = Some oc"
    using assms mt by (cases "Olric cfg") (auto simp: NewServer_def prog_simps Let_def)
  obtain res n2 where res: "run api (NewOlricStore su oc) ?n1 = (res, n2)" by (meson surj_pair)
  note b = assms [unfolded NewServer_def Let_def, simplified prog_simps oc mt res, simplified]
  obtain os where os: "res = Some (Inr os)" "n2 = n'"
    using b oc mt res by (auto simp: prog_simps split: option.splits sum.splits prod.splits)
  show thesis
  proof (rule that [OF oc _ _ ])
    show "dmap ?n1 = dmap n" by (simp add: tick_def)
    show "run api (NewOlricStore su oc) ?n1 = (Some (Inr os), n')" using res os by simp
  qed (use b os oc mt res reg in \<open>auto simp: prog_simps split: prod.splits\<close>)
qed

lemma booted_checks:
  "map fst (mg_checkers (register_store_checks oc st (base_manager cfg))) =
     [''servers'', ''readiness'', ''olric-connection'', ''olric-cluster'', ''olric-storage'']"
  "map (checker_Name \<circ> snd) (mg_checkers (register_store_checks oc st (base_manager cfg))) =
     [''servers'', ''readiness'', ''olric-connection'', ''olric-cluster'', ''olric-storage'']"
  by (simp_all add: register_store_checks_def base_manager_def RegisterChecker_def NewManager_def Let_def
      connection_name_def cluster_name_def storage_name_def)


lemma booted_cache: "mg_cache (register_store_checks oc st (base_manager cfg)) = (\<lambda>_. None)"
  by (simp add: register_store_checks_def base_manager_def RegisterChecker_def NewManager_def Let_def)

section \<open>The life of a server\<close>

datatype phase = Fresh | Running | Draining

instantiation phase :: linorder
begin

fun phase_number :: "phase \<Rightarrow> nat" where
  "phase_number Fresh = 0"
| "phase_number Running = 1"
| "phase_number Draining = 2"

definition less_eq_phase :: "phase \<Rightarrow> phase \<Rightarrow> bool" where
  "less_eq_phase a b \<longleftrightarrow> phase_number a \<le> phase_number b"

definition less_phase :: "phase \<Rightarrow> phase \<Rightarrow> bool" where
  "less_phase a b \<longleftrightarrow> phase_number a < phase_number b"

instance
proof
  fix a b :: phase
  show "a \<le> b \<Longrightarrow> b \<le> a \<Longrightarrow> a = b"
    by (cases a; cases b) (simp_all add: less_eq_phase_def)
qed (auto simp: less_eq_phase_def less_phase_def)

end

text \<open>
  A server between the end of \<open>New\<close> and its end: its phase, the results of health checks that have
  been made and not been cached yet, each by a goroutine of its own, the server, and the node of the
  store.  A probe is, for each check that it does not find in the cache, the check and later the caching
  of its result, with anything in between.  \<open>Start\<close> and \<open>Shutdown\<close> may come at any time and in any
  order: the code guards neither, except that a second \<open>Shutdown\<close> panics, which ends the process.  The
  phase says whether \<open>Start\<close> has succeeded and \<open>Shutdown\<close> has been called.
\<close>

inductive life_step :: "'w olric \<Rightarrow> phase \<times> (string \<times> check_result) list \<times> server \<times> 'w node \<Rightarrow>
    phase \<times> (string \<times> check_result) list \<times> server \<times> 'w node \<Rightarrow> bool" for api where
  Checks: "map_of (mg_checkers (srv_health s)) name = Some c \<Longrightarrow> run api (checker_Check (srv_health s) c) n = (r, n') \<Longrightarrow>
    life_step api (ph, fl, s, n) (ph, (name, r) # fl, s, n')"
| Caches: "(name, r) \<in> set fl \<Longrightarrow> run api (cacheResult (srv_health s) name r) n = (m, n') \<Longrightarrow>
    life_step api (ph, fl, s, n) (ph, remove1 (name, r) fl, s\<lparr>srv_health := m\<rparr>, n')"
| Started: "server_Start returned s = (None, s') \<Longrightarrow> life_step api (ph, fl, s, n) (max ph Running, fl, s', n)"
| Drain: "run api (server_Shutdown env s) n = ((out, s'), n') \<Longrightarrow> out \<noteq> CloseOfClosedChannel \<Longrightarrow>
    life_step api (ph, fl, s, n) (Draining, fl, s', n')"
| Collect: "collector_step a (srv_collector s) = Some c \<Longrightarrow> a \<in> {FirstRound, CollectTick, StopSeen} \<Longrightarrow>
    life_step api (ph, fl, s, n) (ph, fl, s\<lparr>srv_collector := c\<rparr>, n)"
| Requests: "life_step api (ph, fl, s, n) (ph, fl, s, n')"

inductive_cases life_stepE: "life_step api (ph, fl, s, n) st'"

text \<open>What every step keeps, every life keeps.\<close>

lemma life_induct:
  assumes "(life_step api)\<^sup>*\<^sup>* (ph0, fl0, s0, n0) (ph, fl, s, n)" and "P ph0 fl0 s0"
    and "\<And>ph fl s n ph' fl' s' n'. life_step api (ph, fl, s, n) (ph', fl', s', n') \<Longrightarrow> P ph fl s \<Longrightarrow> P ph' fl' s'"
  shows "P ph fl s"
  using assms(1)
proof (induction "(ph, fl, s, n)" arbitrary: ph fl s n rule: rtranclp_induct)
  case base
  then show ?case using assms(2) by simp
next
  case (step y)
  then show ?case using assms(3) by (metis prod_cases4)
qed

text \<open>A check of the manager, as a probe runs it, is such a sequence of steps.\<close>

lemma runCheck_life:
  assumes "map_of (mg_checkers (srv_health s)) (checker_Name c) = Some c"
    and "run api (runCheck (srv_health s) c) n = ((r, m), n')"
  shows "(life_step api)\<^sup>*\<^sup>* (ph, fl, s, n) (ph, fl, s\<lparr>srv_health := m\<rparr>, n')"
proof -
  have fresh: "(life_step api)\<^sup>*\<^sup>* (ph, fl, s, n1) (ph, fl, s\<lparr>srv_health := m\<rparr>, n')"
    if "run_fresh api (srv_health s) c n1 = ((r, m), n')" for n1
  proof -
    from that obtain n2 where n2: "run api (checker_Check (srv_health s) c) n1 = (r, n2)"
      "run api (cacheResult (srv_health s) (checker_Name c) r) n2 = (m, n')"
      by (auto simp: run_fresh_def cacheResult_def split: prod.splits)
    have "life_step api (ph, fl, s, n1) (ph, (checker_Name c, r) # fl, s, n2)"
      by (rule life_step.Checks [OF assms(1) n2(1)])
    moreover have "life_step api (ph, (checker_Name c, r) # fl, s, n2) (ph, fl, s\<lparr>srv_health := m\<rparr>, n')"
      using life_step.Caches [where fl = "(checker_Name c, r) # fl", OF _ n2(2)] by simp
    ultimately show ?thesis by (meson converse_rtranclp_into_rtranclp r_into_rtranclp)
  qed
  have look: "(life_step api)\<^sup>*\<^sup>* (ph, fl, s, n) (ph, fl, s, tick api n)" by (blast intro: life_step.Requests)
  show ?thesis
  proof (cases "mg_cache (srv_health s) (checker_Name c) = None")
    case True
    with assms(2) show ?thesis by (intro fresh) (simp add: run_runCheck)
  next
    case False
    show ?thesis
    proof (cases "cache_hit (srv_health s) (checker_Name c) (clock api n)")
      case None
      with False assms(2) have "run_fresh api (srv_health s) c (tick api n) = ((r, m), n')" by (auto simp: run_runCheck)
      with fresh look show ?thesis by (meson rtranclp_trans)
    next
      case (Some r')
      with False assms(2) look show ?thesis by (auto simp: run_runCheck)
    qed
  qed
qed

text \<open>What holds of the health manager in each phase.\<close>

definition cached_status :: "manager \<Rightarrow> string \<Rightarrow> status \<Rightarrow> bool" where
  "cached_status m name st \<longleftrightarrow> (\<forall>e. mg_cache m name = Some e \<longrightarrow> cr_Status (cc_result e) = st)"

definition manager_ok :: "phase \<Rightarrow> manager \<Rightarrow> bool" where
  "manager_ok ph m \<longleftrightarrow>
     mg_serverChecker m = Some 0 \<and> mg_readinessChecker m = Some 0 \<and>
     map_of (mg_checkers m) ''servers'' = Some (ServerChecker 0) \<and>
     map_of (mg_checkers m) ''readiness'' = Some (ReadinessChecker 0) \<and>
     list_all (\<lambda>(n, c). checker_Name c = n) (mg_checkers m) \<and>
     (ph = Fresh \<longrightarrow> \<not> sc_serversRunning (server_objs m 0) \<and> \<not> rc_serversRunning (readiness_objs m 0)) \<and>
     (ph = Running \<longrightarrow> rc_serversRunning (readiness_objs m 0)) \<and>
     rc_shuttingDown (readiness_objs m 0) = (ph = Draining) \<and>
     (ph = Fresh \<longrightarrow> cached_status m ''servers'' StatusStarting \<and> cached_status m ''readiness'' StatusNotReady)"

text \<open>A result that a check has come to while the servers do not run.\<close>

definition flight_ok :: "phase \<Rightarrow> (string \<times> check_result) list \<Rightarrow> bool" where
  "flight_ok ph fl \<longleftrightarrow> (ph = Fresh \<longrightarrow> (\<forall>r. ((''servers'', r) \<in> set fl \<longrightarrow> cr_Status r = StatusStarting) \<and>
     ((''readiness'', r) \<in> set fl \<longrightarrow> cr_Status r = StatusNotReady)))"

definition life_ok :: "phase \<Rightarrow> server \<Rightarrow> bool" where
  "life_ok ph s \<longleftrightarrow> manager_ok ph (srv_health s) \<and> \<not> co_panicked (srv_collector s) \<and>
     co_starting (srv_collector s) + co_looping (srv_collector s) + (if co_doneChan (srv_collector s) then 1 else 0) = 1 \<and>
     srv_shutdownChan s = (ph = Draining) \<and> co_stopChan (srv_collector s) = (ph = Draining) \<and>
     (co_doneChan (srv_collector s) \<longrightarrow> ph = Draining)"

lemma named_checker:
  assumes "manager_ok ph m" "map_of (mg_checkers m) n = Some c"
  shows "checker_Name c = n" "n = ''servers'' \<Longrightarrow> c = ServerChecker 0" "n = ''readiness'' \<Longrightarrow> c = ReadinessChecker 0"
  using assms map_of_SomeD [OF assms(2)] by (auto simp: manager_ok_def list_all_iff)

text \<open>A check of the package, cached or not, while the servers do not run.\<close>

lemma fresh_results:
  assumes "manager_ok Fresh m"
  shows "cr_Status (fst (fst (run api (runCheck m (ServerChecker 0)) s))) = StatusStarting"
    and "cr_Status (fst (fst (run api (runCheck m (ReadinessChecker 0)) s))) = StatusNotReady"
proof -
  have sv: "cr_Status (fst (fst (run_fresh api m (ServerChecker 0) s0))) = StatusStarting" for s0
    using run_server_Check [of api "server_objs m 0" s0] assms by (auto simp: run_fresh_def manager_ok_def)
  have rd: "cr_Status (fst (fst (run_fresh api m (ReadinessChecker 0) s0))) = StatusNotReady" for s0
    using run_readiness_Check [of api "readiness_objs m 0" s0] assms
    by (auto simp: run_fresh_def manager_ok_def readiness_verdict_def)
  show "cr_Status (fst (fst (run api (runCheck m (ServerChecker 0)) s))) = StatusStarting"
    using assms sv by (auto simp: run_runCheck cache_hit_def manager_ok_def cached_status_def split: option.splits)
  show "cr_Status (fst (fst (run api (runCheck m (ReadinessChecker 0)) s))) = StatusNotReady"
    using assms rd by (auto simp: run_runCheck cache_hit_def manager_ok_def cached_status_def split: option.splits)
qed

lemma runCheck_ok:
  assumes "manager_ok ph m" "run api (runCheck m c) s = ((r, m'), s')"
    and "checker_Name c = ''servers'' \<longrightarrow> c = ServerChecker 0" "checker_Name c = ''readiness'' \<longrightarrow> c = ReadinessChecker 0"
  shows "manager_ok ph m'"
proof -
  note f = runCheck_frame [OF assms(2)]
  have same: "same_setup m m'" using f by blast
  have "cached_status m' n st" if "cached_status m n st" "checker_Name c = n \<longrightarrow> cr_Status r = st" for n st
    using f that by (cases "checker_Name c = n") (auto simp: cached_status_def)
  moreover have "ph = Fresh \<longrightarrow> (checker_Name c = ''servers'' \<longrightarrow> cr_Status r = StatusStarting) \<and>
      (checker_Name c = ''readiness'' \<longrightarrow> cr_Status r = StatusNotReady)"
    using fresh_results [of m api s] assms by auto
  ultimately show ?thesis
    using assms(1) unfolding manager_ok_def same_setup_fields [OF same] by auto
qed

lemma CheckAll_ok:
  assumes "manager_ok ph m" "run api (CheckAll m order) s = ((rs, m'), s')"
  shows "manager_ok ph m' \<and> (ph = Fresh \<longrightarrow> ''servers'' \<in> set order \<longrightarrow> (\<exists>r \<in> set rs. cr_Status r = StatusStarting))"
  using assms
proof (induction m order arbitrary: rs s m' s' rule: CheckAll.induct)
  case (2 m name order)
  show ?case
  proof (cases "map_of (mg_checkers m) name")
    case None
    then have "name \<noteq> ''servers''" using 2(3) by (auto simp: manager_ok_def)
    with None 2 show ?thesis by auto
  next
    case (Some c)
    obtain r m1 s1 where r: "run api (runCheck m c) s = ((r, m1), s1)" by (metis surj_pair)
    obtain rs1 m2 s2 where rs: "run api (CheckAll m1 order) s1 = ((rs1, m2), s2)" by (metis surj_pair)
    note nc = named_checker [OF 2(3) Some]
    have m1: "manager_ok ph m1" using runCheck_ok [OF 2(3) r] nc by auto
    from 2(2) [OF Some m1 rs] have "manager_ok ph m2 \<and>
        (ph = Fresh \<longrightarrow> ''servers'' \<in> set order \<longrightarrow> (\<exists>r \<in> set rs1. cr_Status r = StatusStarting))" .
    moreover have "rs = r # rs1" "m' = m2" using 2(4) Some r rs by (simp_all add: prog_simps)
    moreover have "ph = Fresh \<longrightarrow> name = ''servers'' \<longrightarrow> cr_Status r = StatusStarting"
      using fresh_results(1) [of m api s] 2(3) nc(2) r by auto
    ultimately show ?thesis by auto
  qed
qed simp


lemma Readiness_ok:
  assumes "manager_ok ph m" "run api (GetReadinessStatus m) s = ((resp, m'), s')"
  shows "manager_ok ph m'"
proof -
  have "mg_readinessChecker m = Some 0" using assms(1) by (simp add: manager_ok_def)
  moreover obtain r m1 s1 where r: "run api (runCheck m (ReadinessChecker 0)) s = ((r, m1), s1)" by (metis surj_pair)
  ultimately have "m' = m1" using assms(2) by (simp add: GetReadinessStatus_def prog_simps)
  with runCheck_ok [OF assms(1) r] show ?thesis by simp
qed

lemma Startup_ok:
  assumes "manager_ok ph m" "run api (GetStartupStatus m order) s = ((resp, m'), s')"
  shows "manager_ok ph m' \<and> (ph = Fresh \<longrightarrow> ''servers'' \<in> set order \<longrightarrow> su_Status resp \<noteq> StatusOK)"
proof -
  obtain rs m1 s1 where c: "run api (CheckAll m order) s = ((rs, m1), s1)" by (metis surj_pair)
  with assms(2) have "m' = m1" "su_Status resp = startup_verdict (map cr_Status rs)"
    by (auto simp: run_GetStartupStatus)
  with CheckAll_ok [OF assms(1) c] startup_verdict_OK [of "map cr_Status rs"] show ?thesis by auto
qed

lemma Start_ok:
  assumes "life_ok ph s" "server_Start returned s = (None, s')"
  shows "life_ok (max ph Running) s'"
  using assms
  by (cases ph) (auto simp: server_Start_def life_ok_def manager_ok_def SetServersRunning_def server_SetRunning_def
      readiness_SetRunning_def max_def less_eq_phase_def split: list.splits)

text \<open>The first \<open>Shutdown\<close> comes to an end, whenever it is called.\<close>

lemma Shutdown_first:
  assumes "life_ok ph s" "ph \<noteq> Draining"
  shows "\<exists>c. snd (Stop (srv_collector s)) = c \<and> co_stopChan c \<and> co_doneChan c \<and> \<not> co_panicked c \<and>
    co_starting c + co_looping c = 0 \<and>
    run api (server_Shutdown env s) n = (case run api (olric_Close (srv_store s)) n of (closed, n') \<Rightarrow>
    ((Done (case sent_errors env closed of [] \<Rightarrow> None | err # _ \<Rightarrow> Some err),
      s\<lparr>srv_health := SetShuttingDown (srv_health s) True, srv_shutdownChan := True, srv_collector := c\<rparr>), n'))"
proof -
  let ?c = "srv_collector s"
  have c: "\<not> co_stopChan ?c" "\<not> co_doneChan ?c" "\<not> co_panicked ?c" "co_starting ?c + co_looping ?c = 1" "\<not> srv_shutdownChan s"
    using assms by (auto simp: life_ok_def)
  then have s: "fst (Stop ?c) = Stopped" "co_stopChan (snd (Stop ?c))" "co_doneChan (snd (Stop ?c))"
    "\<not> co_panicked (snd (Stop ?c))" "co_starting (snd (Stop ?c)) + co_looping (snd (Stop ?c)) = 0"
    by (auto simp: Stop_def Let_def)
  then obtain c' where c': "Stop ?c = (Stopped, c')" by (metis prod.collapse)
  with s c(5) show ?thesis by (simp add: server_Shutdown_def Let_def prog_simps split: prod.splits)
qed

lemma Shutdown_ok:
  assumes "life_ok ph s" "run api (server_Shutdown env s) n = ((out, s'), n')" "out \<noteq> CloseOfClosedChannel"
  shows "life_ok Draining s'"
proof -
  have ph: "ph \<noteq> Draining"
    using assms by (auto simp: server_Shutdown_def Let_def life_ok_def)
  obtain c closed where "co_stopChan c" "co_doneChan c" "\<not> co_panicked c" "co_starting c + co_looping c = 0"
    "s' = s\<lparr>srv_health := SetShuttingDown (srv_health s) True, srv_shutdownChan := True, srv_collector := c\<rparr>"
    using Shutdown_first [OF assms(1) ph, of api env n] assms(2) by (auto split: prod.splits)
  with assms(1) show ?thesis
    by (auto simp: life_ok_def manager_ok_def SetShuttingDown_def readiness_SetShuttingDown_def)
qed

lemma Collect_ok:
  assumes "life_ok ph s" "collector_step a (srv_collector s) = Some c" "a \<in> {FirstRound, CollectTick, StopSeen}"
  shows "life_ok ph (s\<lparr>srv_collector := c\<rparr>)"
  using assms by (auto simp: life_ok_def collector_step_def split: if_splits)

text \<open>A check of the package, and the caching of a result.\<close>

lemma Checks_ok:
  assumes "manager_ok ph m" "flight_ok ph fl" "map_of (mg_checkers m) name = Some c" "run api (checker_Check m c) n = (r, n')"
  shows "flight_ok ph ((name, r) # fl)"
proof -
  have "cr_Status r = StatusStarting" if "ph = Fresh" "name = ''servers''"
    using named_checker(2) [OF assms(1,3) that(2)] that(1) assms(1,4) run_server_Check [of api "server_objs m 0" n]
    by (auto simp: manager_ok_def)
  moreover have "cr_Status r = StatusNotReady" if "ph = Fresh" "name = ''readiness''"
    using named_checker(3) [OF assms(1,3) that(2)] that(1) assms(1,4) run_readiness_Check [of api "readiness_objs m 0" n]
    by (auto simp: manager_ok_def readiness_verdict_def)
  ultimately show ?thesis using assms(2) by (auto simp: flight_ok_def)
qed

lemma Caches_ok:
  assumes "manager_ok ph m" "flight_ok ph fl" "(name, r) \<in> set fl" "run api (cacheResult m name r) n = (m', n')"
  shows "manager_ok ph m'" "flight_ok ph (remove1 (name, r) fl)"
proof -
  have m': "m' = m\<lparr>mg_cache := (mg_cache m)(name \<mapsto>
      \<lparr>cc_result = r, cc_expiresAt = time_Add (clock api n) (mg_cacheDuration m)\<rparr>)\<rparr>"
    using assms(4) by (simp add: cacheResult_def)
  have "ph = Fresh \<longrightarrow> cached_status m' ''servers'' StatusStarting \<and> cached_status m' ''readiness'' StatusNotReady"
    using assms(1-3) by (auto simp: m' manager_ok_def flight_ok_def cached_status_def)
  with assms(1) show "manager_ok ph m'" by (simp add: m' manager_ok_def)
  show "flight_ok ph (remove1 (name, r) fl)"
    using assms(2) set_remove1_subset [of "(name, r)" fl] by (fastforce simp: flight_ok_def)
qed

lemma life_step_ok:
  assumes "life_step api (ph, fl, s, n) (ph', fl', s', n')" "life_ok ph s \<and> flight_ok ph fl"
  shows "life_ok ph' s' \<and> flight_ok ph' fl'"
proof -
  have ok: "life_ok ph s" "flight_ok ph fl" "manager_ok ph (srv_health s)"
    using assms(2) by (simp_all add: life_ok_def)
  have h: "life_ok ph (s\<lparr>srv_health := m\<rparr>)" if "manager_ok ph m" for m
    using that ok(1) by (simp add: life_ok_def)
  from assms(1) show ?thesis
  proof (rule life_stepE)
    fix name c r n2 assume "(ph', fl', s', n') = (ph, (name, r) # fl, s, n2)" "map_of (mg_checkers (srv_health s)) name = Some c"
      "run api (checker_Check (srv_health s) c) n = (r, n2)"
    with Checks_ok [OF ok(3,2)] ok(1) show ?thesis by auto
  next
    fix name r m n2 assume "(ph', fl', s', n') = (ph, remove1 (name, r) fl, s\<lparr>srv_health := m\<rparr>, n2)" "(name, r) \<in> set fl"
      "run api (cacheResult (srv_health s) name r) n = (m, n2)"
    with Caches_ok [OF ok(3,2) this(2,3)] h show ?thesis by auto
  next
    fix returned s2 assume "(ph', fl', s', n') = (max ph Running, fl, s2, n)" "server_Start returned s = (None, s2)"
    moreover have "max ph Running \<noteq> Fresh" by (cases ph) (simp_all add: max_def less_eq_phase_def)
    ultimately show ?thesis using Start_ok [OF ok(1)] by (simp add: flight_ok_def)
  next
    fix env out s2 n2 assume "(ph', fl', s', n') = (Draining, fl, s2, n2)"
      "run api (server_Shutdown env s) n = ((out, s2), n2)" "out \<noteq> CloseOfClosedChannel"
    then show ?thesis using Shutdown_ok [OF ok(1)] by (auto simp: flight_ok_def)
  qed (use ok Collect_ok [OF ok(1)] in auto)
qed

lemma life_ok_booted:
  assumes "run api (NewServer su v cfg info) n = (Booted s cs, n')"
  shows "life_ok Fresh s"
proof -
  obtain oc where h: "srv_health s = register_store_checks oc (as_Store (srv_store s)) (base_manager cfg)"
    "srv_collector s = collector_Start NewOlricMetricsCollector" "\<not> srv_shutdownChan s"
    using NewServer_Booted [OF assms] by metis
  show ?thesis
    unfolding life_ok_def h(1,2)
    using h(3) by (simp add: manager_ok_def register_store_checks_def base_manager_def RegisterChecker_def
        NewManager_def Let_def connection_name_def cluster_name_def storage_name_def NewServerChecker_def
        NewReadinessChecker_def cached_status_def NewOlricMetricsCollector_def collector_Start_def)
qed

lemma life_invariant:
  assumes "(life_step api)\<^sup>*\<^sup>* (ph0, fl0, s0, n0) (ph, fl, s, n)" "life_ok ph0 s0" "flight_ok ph0 fl0"
  shows "life_ok ph s \<and> flight_ok ph fl"
  by (rule life_induct [OF assms(1), where P = "\<lambda>ph fl s. life_ok ph s \<and> flight_ok ph fl"])
    (use assms(2,3) in simp, erule (1) life_step_ok)

lemma flight_ok_Nil [simp]: "flight_ok ph []"
  by (simp add: flight_ok_def)

lemma booted_life:
  assumes "run api (NewServer su v cfg info) n0 = (Booted s0 cs, n1)"
    and "(life_step api)\<^sup>*\<^sup>* (Fresh, [], s0, n1) (ph, fl, s, n)"
  shows "life_ok ph s"
  using life_invariant [OF assms(2) life_ok_booted [OF assms(1)]] by simp

lemma readiness_by_phase:
  assumes ok: "manager_ok ph m"
  shows "(ph = Fresh \<longrightarrow> \<not> rd_Ready (fst (fst (run api (GetReadinessStatus m) n)))) \<and>
    (cache_hit m ''readiness'' (clock api n) = None \<longrightarrow>
      rd_Ready (fst (fst (run api (GetReadinessStatus m) n))) = (ph = Running))"
proof -
  have a: "mg_readinessChecker m = Some 0" using ok by (simp add: manager_ok_def)
  obtain resp m' n' where r: "run api (GetReadinessStatus m) n = ((resp, m'), n')"
      "rd_Ready resp = (rd_Status resp = StatusOK)"
      "rd_Status resp = (case cache_hit m ''readiness'' (clock api n) of
        Some r \<Rightarrow> cr_Status r | None \<Rightarrow> readiness_verdict (readiness_objs m 0))"
    using run_GetReadinessStatus [OF a, of api n] by blast
  have v: "(readiness_verdict (readiness_objs m 0) = StatusOK) = (ph = Running)"
    using ok by (cases ph) (auto simp: manager_ok_def readiness_verdict_def)
  have "ph = Fresh \<longrightarrow> cr_Status e = StatusNotReady" if "cache_hit m ''readiness'' (clock api n) = Some e" for e
    using ok that by (auto simp: manager_ok_def cached_status_def cache_hit_def split: option.splits if_splits)
  with r v show ?thesis by (cases "cache_hit m ''readiness'' (clock api n)") auto
qed

text \<open>
  C19.  The life of a service.  Whatever checks, requests, collections and calls of \<open>Start\<close> and
  \<open>Shutdown\<close> have happened since \<open>New\<close>: before \<open>Start\<close> has succeeded neither probe is positive; a
  readiness probe that is not answered from the cache is positive exactly between \<open>Start\<close> and
  \<open>Shutdown\<close>.
\<close>

theorem service_life:
  assumes "run api (NewServer su v cfg info) n0 = (Booted s0 cs, n1)"
    and "(life_step api)\<^sup>*\<^sup>* (Fresh, [], s0, n1) (ph, fl, s, n)"
  shows "(ph = Fresh \<longrightarrow> \<not> rd_Ready (fst (fst (run api (GetReadinessStatus (srv_health s)) n))) \<and>
      (''servers'' \<in> set order \<longrightarrow> su_Status (fst (fst (run api (GetStartupStatus (srv_health s) order) n))) \<noteq> StatusOK)) \<and>
    (cache_hit (srv_health s) ''readiness'' (clock api n) = None \<longrightarrow>
      rd_Ready (fst (fst (run api (GetReadinessStatus (srv_health s)) n))) = (ph = Running))"
proof -
  have ok: "manager_ok ph (srv_health s)" using booted_life [OF assms] by (simp add: life_ok_def)
  have "ph = Fresh \<longrightarrow> ''servers'' \<in> set order \<longrightarrow>
      su_Status (fst (fst (run api (GetStartupStatus (srv_health s) order) n))) \<noteq> StatusOK"
    using Startup_ok [OF ok] by (metis prod.collapse)
  with readiness_by_phase [OF ok] show ?thesis by blast
qed

definition sample_config :: config where
  "sample_config = default_service\<lparr>Olric := Some NewDefaultOlricConfig\<rparr>"

lemma sample_store_starts:
  assumes "dmap s = None" "olric_Validate oc = None" "IsSingleNode oc"
  shows "fst (run ref_api (NewOlricStore sample_startup oc) s) =
    Some (Inr \<lparr>store_config = oc, store_db = True, store_client = True\<rparr>)"
  unfolding NewOlricStore_def assms(2) createOlricConfig_def Let_def waitForCluster_def
  using assms(1,3) by (simp add: sample_startup_def prog_simps getDMap_def call_def ref_api_def)

lemma sample_boots:
  assumes "dmap s0 = None" "Olric cfg = Some oc" "valid_config oc" "IsSingleNode oc"
  obtains s cs n where "run ref_api (NewServer sample_startup v cfg info) s0 = (Booted s cs, n)"
    "srv_store s = \<lparr>store_config = oc, store_db = True, store_client = True\<rparr>" "mg_cache (srv_health s) = (\<lambda>_. None)"
proof -
  let ?n = "tick ref_api (tick ref_api s0)"
  have "dmap ?n = None" "olric_Validate oc = None"
    using assms(1,3) by (simp_all add: tick_def Validate_None_iff)
  from sample_store_starts [OF this assms(4)] obtain n where
    n: "run ref_api (NewOlricStore sample_startup oc) ?n =
      (Some (Inr \<lparr>store_config = oc, store_db = True, store_client = True\<rparr>), n)"
    by (metis prod.collapse)
  obtain a p m where servers: "setupServers cfg = (a, p, m)" by (metis surj_pair)
  obtain s cs where s: "run ref_api (NewServer sample_startup v cfg info) s0 = (Booted s cs, n)"
      "srv_store s = \<lparr>store_config = oc, store_db = True, store_client = True\<rparr>"
    by (simp add: NewServer_def prog_simps NewMetrics_def n Let_def assms(2) servers)
  obtain oc' where "srv_health s = register_store_checks oc' (as_Store (srv_store s)) (base_manager cfg)"
    using NewServer_Booted [OF s(1)] by metis
  then have "mg_cache (srv_health s) = (\<lambda>_. None)" by (simp add: booted_cache)
  with s show thesis using that by blast
qed

lemma sample_boot:
  obtains s cs n where "run ref_api (NewServer sample_startup ''go1.24'' sample_config (\<lambda>_. None)) ref_node = (Booted s cs, n)"
    "srv_store s = default_store" "mg_cache (srv_health s) = (\<lambda>_. None)"
proof -
  have "dmap ref_node = None" "Olric sample_config = Some NewDefaultOlricConfig" "valid_config NewDefaultOlricConfig"
    "IsSingleNode NewDefaultOlricConfig"
    using default_config_valid
    by (simp_all add: ref_node_def sample_config_def Validate_None_iff IsSingleNode_def NewDefaultOlricConfig_def)
  then show thesis
    by (rule sample_boots [of ref_node]) (auto simp: default_store_def intro: that)
qed

lemma started_life:
  assumes "server_Start returned s = (None, s')"
  shows "(life_step api)\<^sup>*\<^sup>* (Fresh, fl, s, n) (Running, fl, s', n)"
  using life_step.Started [OF assms, of api Fresh fl n] by (auto simp: max_def less_eq_phase_def)

lemma service_life_witness:
  "\<exists>s cs n s'. run ref_api (NewServer sample_startup ''go1.24'' sample_config (\<lambda>_. None)) ref_node = (Booted s cs, n) \<and>
     \<not> rd_Ready (fst (fst (run ref_api (GetReadinessStatus (srv_health s)) n))) \<and>
     server_Start [] s = (None, s') \<and> rd_Ready (fst (fst (run ref_api (GetReadinessStatus (srv_health s')) n)))"
proof -
  obtain s cs n where s: "run ref_api (NewServer sample_startup ''go1.24'' sample_config (\<lambda>_. None)) ref_node = (Booted s cs, n)"
    "mg_cache (srv_health s) = (\<lambda>_. None)" by (rule sample_boot)
  define s' where "s' = snd (server_Start [] s)"
  have st: "server_Start [] s = (None, s')" "mg_cache (srv_health s') = (\<lambda>_. None)"
    using s(2) by (auto simp: s'_def server_Start_def start_errors_def SetServersRunning_def Let_def split: option.splits)
  have "(life_step ref_api)\<^sup>*\<^sup>* (Fresh, [], s, n) (Running, [], s', n)" by (rule started_life [OF st(1)])
  from service_life [OF s(1) this, of "[]"] service_life [OF s(1) rtranclp.rtrancl_refl, of "[]"] s st show ?thesis
    by (auto simp: cache_hit_def)
qed

definition check_names :: "string list" where
  "check_names = [''servers'', ''readiness'', ''olric-connection'', ''olric-cluster'', ''olric-storage'']"

definition named_ok :: "'w olric \<Rightarrow> server \<Rightarrow> bool" where
  "named_ok api s \<longleftrightarrow> well_named api (srv_health s) \<and> map fst (mg_checkers (srv_health s)) = check_names"

lemma named_booted:
  assumes "run api (NewServer su v cfg info) n = (Booted s cs, n')"
  shows "named_ok api s"
proof -
  obtain oc os where h: "srv_health s = register_store_checks oc (as_Store os) (base_manager cfg)"
    using NewServer_Booted [OF assms] by metis
  have "well_named api (srv_health s)"
    unfolding h register_store_checks_def base_manager_def Let_def
    by (intro RegisterChecker_named NewManager_named named_package_checkers named_OtherChecker store_checkers_named)
  with booted_checks(1) h show ?thesis by (simp add: named_ok_def check_names_def)
qed

lemma Shutdown_health:
  "run api (server_Shutdown env s) n = ((out, s'), n') \<Longrightarrow> srv_health s' = SetShuttingDown (srv_health s) True"
  by (auto simp: server_Shutdown_def Let_def Stop_def prog_simps split: prod.splits if_splits stop_outcome.splits)

lemma setters_checkers [simp]:
  "mg_checkers (SetServersRunning m b) = mg_checkers m" "mg_checkers (SetShuttingDown m b) = mg_checkers m"
  by (simp_all add: SetServersRunning_def SetShuttingDown_def Let_def split: option.splits)

text \<open>A result is in flight under its own name.\<close>

definition flight_named :: "(string \<times> check_result) list \<Rightarrow> bool" where
  "flight_named fl \<longleftrightarrow> list_all (\<lambda>(name, r). cr_Name r = name) fl"

lemma life_step_named:
  assumes "life_step api (ph, fl, s, n) (ph', fl', s', n')" "named_ok api s \<and> flight_named fl"
  shows "named_ok api s' \<and> flight_named fl'"
proof -
  have m: "well_named api (srv_health s)" and fl: "flight_named fl" using assms(2) by (simp_all add: named_ok_def)
  from assms(1) show ?thesis
  proof (rule life_stepE)
    fix name c r n2 assume st: "(ph', fl', s', n') = (ph, (name, r) # fl, s, n2)"
      "map_of (mg_checkers (srv_health s)) name = Some c" "run api (checker_Check (srv_health s) c) n = (r, n2)"
    then have "checker_Name c = name" "named_checker api c" using m by (auto simp: well_named_def)
    with st(3) have "cr_Name r = name"
      using named_check.named_run by (fastforce simp: named_checker_def)
    with st(1) assms(2) show ?thesis by (simp add: flight_named_def)
  next
    fix name r m' n2 assume st: "(ph', fl', s', n') = (ph, remove1 (name, r) fl, s\<lparr>srv_health := m'\<rparr>, n2)" "(name, r) \<in> set fl"
      "run api (cacheResult (srv_health s) name r) n = (m', n2)"
    have "cr_Name r = name" using fl st(2) by (auto simp: flight_named_def list_all_iff)
    with st(3) m have "well_named api m'" "mg_checkers m' = mg_checkers (srv_health s)"
      by (auto simp: cacheResult_def well_named_def split: if_splits)
    with st(1) assms(2) set_remove1_subset [of "(name, r)" fl] show ?thesis
      by (auto simp: named_ok_def flight_named_def list_all_iff)
  next
    fix returned s2 assume "(ph', fl', s', n') = (max ph Running, fl, s2, n)" "server_Start returned s = (None, s2)"
    with assms(2) show ?thesis by (auto simp: server_Start_def named_ok_def setters_named split: list.splits)
  next
    fix env out s2 n2 assume "(ph', fl', s', n') = (Draining, fl, s2, n2)" "run api (server_Shutdown env s) n = ((out, s2), n2)"
    moreover from this(2) have "srv_health s2 = SetShuttingDown (srv_health s) True" by (rule Shutdown_health)
    ultimately show ?thesis using assms(2) by (simp add: named_ok_def setters_named)
  qed (use assms(2) in \<open>auto simp: named_ok_def\<close>)
qed

lemma named_invariant:
  assumes "(life_step api)\<^sup>*\<^sup>* (ph0, [], s0, n0) (ph, fl, s, n)" "named_ok api s0"
  shows "named_ok api s"
proof -
  have "named_ok api s \<and> flight_named fl"
    by (rule life_induct [OF assms(1), where P = "\<lambda>ph fl s. named_ok api s \<and> flight_named fl"])
      (use assms(2) in \<open>simp add: flight_named_def\<close>, erule (1) life_step_named)
  then show ?thesis by simp
qed

text \<open>
  C20.  The startup probe hides no check: in every state of a life its response shows all five checks
  of the service, each under its own name and in the order in which they answered, cached results
  included, and its status follows from the statuses shown.
\<close>

theorem startup_reports_all:
  assumes "run api (NewServer su v cfg info) n0 = (Booted s0 cs, n1)"
    and "(life_step api)\<^sup>*\<^sup>* (Fresh, [], s0, n1) (ph, fl, s, n)"
    and "distinct order" and "set order = set check_names"
  shows "let resp = fst (fst (run api (GetStartupStatus (srv_health s) order) n))
    in map fst (su_Checks resp) = order \<and> su_Status resp = startup_verdict (map snd (su_Checks resp)) \<and>
      (su_Status resp = StatusOK) = list_all (\<lambda>(_, st). st \<noteq> StatusStarting \<and> st \<noteq> StatusError) (su_Checks resp)"
proof -
  have ok: "named_ok api s" by (rule named_invariant [OF assms(2) named_booted [OF assms(1)]])
  obtain resp m' n' where r: "run api (GetStartupStatus (srv_health s) order) n = ((resp, m'), n')" by (metis surj_pair)
  have "set order = fst ` set (mg_checkers (srv_health s))"
    using ok assms(4) unfolding named_ok_def by (metis list.set_map)
  with startup_names [OF _ r assms(3)] ok have n: "map fst (su_Checks resp) = order"
    "su_Status resp = startup_verdict (map snd (su_Checks resp))" by (auto simp: named_ok_def)
  have "(su_Status resp = StatusOK) = list_all (\<lambda>(_, st). st \<noteq> StatusStarting \<and> st \<noteq> StatusError) (su_Checks resp)"
    unfolding n(2) startup_verdict_OK by (auto simp: list_all_iff)
  with n r show ?thesis by simp
qed

lemma startup_reports_all_witness:
  "\<exists>s cs n. run ref_api (NewServer sample_startup ''go1.24'' sample_config (\<lambda>_. None)) ref_node = (Booted s cs, n) \<and>
    map fst (su_Checks (fst (fst (run ref_api (GetStartupStatus (srv_health s) (rev check_names)) n)))) =
      [''olric-storage'', ''olric-cluster'', ''olric-connection'', ''readiness'', ''servers'']"
proof -
  obtain s cs n where s: "run ref_api (NewServer sample_startup ''go1.24'' sample_config (\<lambda>_. None)) ref_node = (Booted s cs, n)"
    by (rule sample_boot)
  have "distinct (rev check_names)" by (simp add: check_names_def)
  from startup_reports_all [OF s rtranclp.rtrancl_refl this set_rev] s show ?thesis
    by (auto simp: Let_def check_names_def)
qed

text \<open>After \<open>Shutdown\<close>: what the cache has under the readiness check, and what is still to come to it.\<close>

definition drained :: "cached_result option \<Rightarrow> (string \<times> check_result) list \<Rightarrow> (string \<times> check_result) list \<Rightarrow> server \<Rightarrow> bool" where
  "drained e0 fl0 fl s \<longleftrightarrow> (let m = srv_health s in
     mg_readinessChecker m = Some 0 \<and> map_of (mg_checkers m) ''readiness'' = Some (ReadinessChecker 0) \<and>
     rc_shuttingDown (readiness_objs m 0) \<and>
     (\<forall>r. (''readiness'', r) \<in> set fl \<longrightarrow> cr_Status r \<noteq> StatusOK \<or> (''readiness'', r) \<in> set fl0) \<and>
     (\<forall>e. mg_cache m ''readiness'' = Some e \<longrightarrow>
        e0 = Some e \<or> cr_Status (cc_result e) \<noteq> StatusOK \<or> (''readiness'', cc_result e) \<in> set fl0))"

lemma drained_step:
  assumes "life_step api (ph, fl, s, n) (ph', fl', s', n')" "drained e0 fl0 fl s"
  shows "drained e0 fl0 fl' s'"
proof -
  from assms(1) show ?thesis
  proof (rule life_stepE)
    fix name c r n2 assume st: "(ph', fl', s', n') = (ph, (name, r) # fl, s, n2)"
      "map_of (mg_checkers (srv_health s)) name = Some c" "run api (checker_Check (srv_health s) c) n = (r, n2)"
    have "cr_Status r = StatusNotReady" if "name = ''readiness''"
      using st(2,3) that assms(2) run_readiness_Check [of api "readiness_objs (srv_health s) 0" n]
      by (auto simp: drained_def Let_def readiness_verdict_def)
    with st(1) assms(2) show ?thesis by (auto simp: drained_def Let_def)
  next
    fix name r m n2 assume st: "(ph', fl', s', n') = (ph, remove1 (name, r) fl, s\<lparr>srv_health := m\<rparr>, n2)" "(name, r) \<in> set fl"
      "run api (cacheResult (srv_health s) name r) n = (m, n2)"
    have "set (remove1 (name, r) fl) \<subseteq> set fl" by (rule set_remove1_subset)
    with st assms(2) show ?thesis by (auto simp: drained_def Let_def cacheResult_def split: if_splits)
  next
    fix returned s2 assume "(ph', fl', s', n') = (max ph Running, fl, s2, n)" "server_Start returned s = (None, s2)"
    then show ?thesis
      using assms(2) by (auto simp: server_Start_def drained_def Let_def SetServersRunning_def readiness_SetRunning_def
          split: list.splits option.splits)
  next
    fix env out s2 n2 assume "(ph', fl', s', n') = (Draining, fl, s2, n2)" "run api (server_Shutdown env s) n = ((out, s2), n2)"
    moreover from this(2) have "srv_health s2 = SetShuttingDown (srv_health s) True" by (rule Shutdown_health)
    ultimately show ?thesis using assms(2)
      by (auto simp: drained_def Let_def SetShuttingDown_def readiness_SetShuttingDown_def)
  qed (use assms(2) in \<open>auto simp: drained_def\<close>)
qed

text \<open>
  C21.  \<open>Shutdown\<close> is final.  Whatever happens after it, also another \<open>Start\<close>, which the code does not
  refuse: a readiness probe is positive again only by repeating what was known before, a result that
  was in the cache at the time of \<open>Shutdown\<close> and has not expired, or one that a check had then come to
  and not cached yet.
\<close>

theorem draining_is_final:
  assumes "run api (NewServer su v cfg info) n0 = (Booted s0 cs, n1)"
    and "(life_step api)\<^sup>*\<^sup>* (Fresh, [], s0, n1) (ph, fl, s, n)"
    and "run api (server_Shutdown env s) n = ((out, s1), n2)"
    and "(life_step api)\<^sup>*\<^sup>* (Draining, fl, s1, n2) (ph', fl', s', n')"
    and "rd_Ready (fst (fst (run api (GetReadinessStatus (srv_health s')) n')))"
  shows "\<exists>e. cache_hit (srv_health s') ''readiness'' (clock api n') = Some (cc_result e) \<and>
    cr_Status (cc_result e) = StatusOK \<and> time_Before (clock api n') (cc_expiresAt e) \<and>
    (mg_cache (srv_health s) ''readiness'' = Some e \<or> (''readiness'', cc_result e) \<in> set fl)"
proof -
  let ?e0 = "mg_cache (srv_health s) ''readiness''"
  have "manager_ok ph (srv_health s)" using booted_life [OF assms(1,2)] by (simp add: life_ok_def)
  then have "drained ?e0 fl fl s1"
    using Shutdown_health [OF assms(3)]
    by (auto simp: drained_def Let_def manager_ok_def SetShuttingDown_def readiness_SetShuttingDown_def)
  then have d: "drained ?e0 fl fl' s'"
    by (rule life_induct [OF assms(4), where P = "\<lambda>ph. drained ?e0 fl"]) (erule (1) drained_step)
  then have "mg_readinessChecker (srv_health s') = Some 0" "readiness_verdict (readiness_objs (srv_health s') 0) \<noteq> StatusOK"
    by (auto simp: drained_def Let_def readiness_verdict_def)
  with run_GetReadinessStatus [of "srv_health s'" 0 api n'] assms(5) obtain r where
    r: "cache_hit (srv_health s') ''readiness'' (clock api n') = Some r" "cr_Status r = StatusOK"
    by (auto split: option.splits)
  then obtain e where "mg_cache (srv_health s') ''readiness'' = Some e" "cc_result e = r"
    "time_Before (clock api n') (cc_expiresAt e)"
    by (auto simp: cache_hit_def split: option.splits if_splits)
  with d r show ?thesis by (intro exI [of _ e]) (auto simp: drained_def Let_def)
qed

text \<open>
  The exception is real: a probe that was answered just before \<open>Shutdown\<close> is repeated after it.
\<close>

lemma ref_clock_tick: "time_Sub (clock ref_api (tick ref_api n)) (clock ref_api n) = 1"
  by (simp add: clock_def tick_def ref_api_def ref_time_def time_Sub_def)

lemma Close_default: "run ref_api (olric_Close default_store) n = (None, n)"
  by (simp add: olric_Close_def default_store_def prog_simps call_def ref_api_def)

text \<open>A running sample server that has just answered a readiness probe.\<close>

lemma sample_probed:
  obtains s0 cs n0 s n e where "run ref_api (NewServer sample_startup ''go1.24'' sample_config (\<lambda>_. None)) ref_node = (Booted s0 cs, n0)"
    "(life_step ref_api)\<^sup>*\<^sup>* (Fresh, [], s0, n0) (Running, [], s, n)" "srv_store s = default_store"
    "cache_hit (srv_health s) ''readiness'' (clock ref_api n) = Some e" "cr_Status e = StatusOK"
proof -
  obtain s0 cs n0 where s0: "run ref_api (NewServer sample_startup ''go1.24'' sample_config (\<lambda>_. None)) ref_node = (Booted s0 cs, n0)"
    "srv_store s0 = default_store" "mg_cache (srv_health s0) = (\<lambda>_. None)" by (rule sample_boot)
  define s1 where "s1 = snd (server_Start [] s0)"
  have st: "server_Start [] s0 = (None, s1)" "mg_cache (srv_health s1) = (\<lambda>_. None)" "srv_store s1 = default_store"
    "mg_cacheDuration (srv_health s1) = mg_cacheDuration (srv_health s0)"
    using s0(2,3) by (auto simp: s1_def server_Start_def start_errors_def SetServersRunning_def Let_def split: option.splits)
  obtain oc os where "srv_health s0 = register_store_checks oc (as_Store os) (base_manager sample_config)"
    using NewServer_Booted [OF s0(1)] by metis
  then have d: "mg_cacheDuration (srv_health s1) = 10 * Second"
    unfolding st(4) by (simp add: register_store_checks_def base_manager_def RegisterChecker_def NewManager_def Let_def
        sample_config_def default_service_def)
  have life: "(life_step ref_api)\<^sup>*\<^sup>* (Fresh, [], s0, n0) (Running, [], s1, n0)" by (rule started_life [OF st(1)])
  have ok: "manager_ok Running (srv_health s1)" using booted_life [OF s0(1) life] by (simp add: life_ok_def)
  obtain r m n where r: "run ref_api (runCheck (srv_health s1) (ReadinessChecker 0)) n0 = ((r, m), n)" by (metis surj_pair)
  have "(life_step ref_api)\<^sup>*\<^sup>* (Running, [], s1, n0) (Running, [], s1\<lparr>srv_health := m\<rparr>, n)"
    by (rule runCheck_life [OF _ r]) (use ok in \<open>simp add: manager_ok_def\<close>)
  with life have life': "(life_step ref_api)\<^sup>*\<^sup>* (Fresh, [], s0, n0) (Running, [], s1\<lparr>srv_health := m\<rparr>, n)" by auto
  have miss: "cache_hit (srv_health s1) (checker_Name (ReadinessChecker 0)) (clock ref_api n0) = None"
    by (simp add: cache_hit_def st(2))
  obtain n1 where n1: "run ref_api (readiness_Check (readiness_objs (srv_health s1) 0)) n0 = (r, n1)" "n = tick ref_api n1"
    "mg_cache m ''readiness'' = Some \<lparr>cc_result = r, cc_expiresAt = time_Add (clock ref_api n1) (10 * Second)\<rparr>"
    by (rule runCheck_lifetime [OF r miss]) (auto simp: st(2) d)
  have "cr_Status r = StatusOK"
    using n1(1) ok run_readiness_Check [of ref_api "readiness_objs (srv_health s1) 0" n0]
    by (auto simp: readiness_verdict_def manager_ok_def)
  moreover have "cache_hit m ''readiness'' (clock ref_api n) = Some r"
    by (simp add: cache_hit_def n1(2,3) Before_Add ref_clock_tick)
  ultimately show thesis using that [OF s0(1) life'] st(3) by simp
qed

lemma draining_is_final_witness:
  "\<exists>s n out s1 n1 e. run ref_api (server_Shutdown
       \<lparr>sd_api = None, sd_metrics = None, sd_probe = None, sd_order = [API, MetricsEndpoint, OlricStore]\<rparr> s) n =
      ((out, s1), n1) \<and> rd_Ready (fst (fst (run ref_api (GetReadinessStatus (srv_health s1)) n1))) \<and>
      mg_cache (srv_health s) ''readiness'' = Some e \<and> time_Before (clock ref_api n1) (cc_expiresAt e)"
proof -
  let ?env = "\<lparr>sd_api = None, sd_metrics = None, sd_probe = None, sd_order = [API, MetricsEndpoint, OlricStore]\<rparr>"
  obtain s0 cs n0 s n r where s: "run ref_api (NewServer sample_startup ''go1.24'' sample_config (\<lambda>_. None)) ref_node = (Booted s0 cs, n0)"
    "(life_step ref_api)\<^sup>*\<^sup>* (Fresh, [], s0, n0) (Running, [], s, n)" "srv_store s = default_store"
    "cache_hit (srv_health s) ''readiness'' (clock ref_api n) = Some r" "cr_Status r = StatusOK"
    by (rule sample_probed)
  obtain out s1 where d: "run ref_api (server_Shutdown ?env s) n = ((out, s1), n)"
    using Shutdown_first [OF booted_life [OF s(1,2)], of ref_api ?env n] Close_default by (auto simp: s(3))
  have h: "srv_health s1 = SetShuttingDown (srv_health s) True" by (rule Shutdown_health [OF d])
  have "manager_ok Running (srv_health s)" using booted_life [OF s(1,2)] by (simp add: life_ok_def)
  then have "mg_readinessChecker (srv_health s1) = Some 0" "cache_hit (srv_health s1) = cache_hit (srv_health s)"
    by (auto simp: h SetShuttingDown_def manager_ok_def cache_hit_def fun_eq_iff)
  with run_GetReadinessStatus [of "srv_health s1" 0 ref_api n] s(4,5)
  have "rd_Ready (fst (fst (run ref_api (GetReadinessStatus (srv_health s1)) n)))" by auto
  with draining_is_final [OF s(1,2) d rtranclp.rtrancl_refl this] d show ?thesis by fastforce
qed

lemma booted:
  assumes "run api (NewServer su v cfg info) n = (Booted s cs, n')" and "dmap n = None"
  shows "\<exists>oc. Olric cfg = Some oc \<and> valid_config oc \<and> store_config (srv_store s) = oc \<and> ready (srv_store s) n' \<and>
    srv_lockManager s = olric_locks (srv_store s) \<and>
    map fst (mg_checkers (srv_health s)) =
      [''servers'', ''readiness'', ''olric-connection'', ''olric-cluster'', ''olric-storage''] \<and>
    co_starting (srv_collector s) = 1 \<and> \<not> co_stopChan (srv_collector s) \<and>
    registrable (srv_storeMetrics s) \<and> well_used (srv_storeMetrics s) cs"
proof -
  obtain oc os n1 where b: "Olric cfg = Some oc" "dmap n1 = dmap n" "run api (NewOlricStore su oc) n1 = (Some (Inr os), n')"
    "srv_cfg s = cfg" "srv_store s = os" "srv_lockManager s = NewOlricLockManager (as_Store os)"
    "srv_health s = register_store_checks oc (as_Store os) (base_manager cfg)"
    "srv_collector s = collector_Start NewOlricMetricsCollector"
    "srv_storeMetrics s = NewOlricMetrics (MetricsNamespace cfg) (register (MetricsNamespace cfg))"
    "well_used (register (MetricsNamespace cfg)) cs"
    using NewServer_Booted [OF assms(1)] by metis
  have "well_used (srv_storeMetrics s) cs"
    using b(9,10) call_ok_NewOlricMetrics by (auto simp: well_used_def list_all_iff)
  moreover have "valid_config oc" "store_config os = oc" "ready os n'"
    using started_store [OF b(3)] b(2) assms(2) by auto
  ultimately show ?thesis
    using b booted_checks(1) [of oc "as_Store os" cfg] NewOlricMetrics_registrable
    by (auto simp: olric_locks_def NewOlricMetricsCollector_def collector_Start_def)
qed

text \<open>
  C22.  What \<open>New\<close> has built: a store that has started with a valid configuration and has its map
  opened, the lock manager over that very store, the five health checks, the collector's goroutine
  running, and one registry for all metrics, which accepts them and the calls made on them so far.
\<close>

theorem server_booted:
  assumes "run api (NewServer su v cfg info) n = (Booted s cs, n')" and "dmap n = None"
  shows "\<exists>oc. Olric cfg = Some oc \<and> valid_config oc \<and> store_config (srv_store s) = oc \<and> ready (srv_store s) n' \<and>
    srv_lockManager s = olric_locks (srv_store s) \<and>
    map fst (mg_checkers (srv_health s)) =
      [''servers'', ''readiness'', ''olric-connection'', ''olric-cluster'', ''olric-storage''] \<and>
    co_starting (srv_collector s) = 1 \<and> \<not> co_stopChan (srv_collector s) \<and>
    registrable (srv_storeMetrics s) \<and> well_used (srv_storeMetrics s) cs"
  by (rule booted [OF assms])

lemma server_booted_witness:
  "\<exists>s cs n. run ref_api (NewServer sample_startup ''go1.24'' sample_config (\<lambda>_. None)) ref_node = (Booted s cs, n) \<and>
     srv_lockManager s = olric_locks default_store \<and> ready default_store n"
proof -
  obtain s cs n where s: "run ref_api (NewServer sample_startup ''go1.24'' sample_config (\<lambda>_. None)) ref_node = (Booted s cs, n)"
    "srv_store s = default_store" by (rule sample_boot)
  have "dmap ref_node = None" by (simp add: ref_node_def)
  from server_booted [OF s(1) this] s show ?thesis by auto
qed


lemma shutdown_errors_set:
  "e \<in> set (concat (map (\<lambda>w. shutdown_error w (f w)) ws)) \<longleftrightarrow>
     (\<exists>w \<in> set ws. \<exists>c. f w = Some c \<and> e = Wrap (listener_name w @ '' shutdown error'') c)"
proof -
  have "e \<in> set (shutdown_error w (f w)) \<longleftrightarrow> (\<exists>c. f w = Some c \<and> e = Wrap (listener_name w @ '' shutdown error'') c)" for w
    by (auto simp: shutdown_error_def split: option.splits)
  then show ?thesis by simp
qed

lemma shutdown_errors_length: "length (concat (map (\<lambda>w. shutdown_error w (f w)) ws)) \<le> length ws"
  by (induction ws) (auto simp: shutdown_error_def split: option.splits)

text \<open>
  C23.  Shutting down a running service, in whatever order its parts finish, tries every part and
  returns nil exactly when all four closed without error; else the error of one that did not, the
  probe server's only when it is the only one.  \<open>errChan\<close> never holds more than its capacity of four.
  A second \<open>Shutdown\<close> panics.
\<close>

theorem shutdown_reports:
  assumes "run api (NewServer su v cfg info) n0 = (Booted s0 cs, n1)"
    and "(life_step api)\<^sup>*\<^sup>* (Fresh, [], s0, n1) (Running, fl, s, n)"
    and "distinct (sd_order env)" and "set (sd_order env) = {API, MetricsEndpoint, OlricStore}"
    and "run api (olric_Close (srv_store s)) n = (closed, n')"
  shows "\<exists>r s'. run api (server_Shutdown env s) n = ((Done r, s'), n') \<and>
    (r = None) = (\<forall>w. part_result env closed w = None) \<and>
    (\<forall>e. r = Some e \<longrightarrow> (\<exists>w cause. part_result env closed w = Some cause \<and>
      e = Wrap (listener_name w @ '' shutdown error'') cause \<and>
      (w = Probe \<longrightarrow> (\<forall>w'. w' \<noteq> Probe \<longrightarrow> part_result env closed w' = None)))) \<and>
    length (sent_errors env closed) \<le> 4 \<and>
    (\<forall>env2 n2. fst (fst (run api (server_Shutdown env2 s') n2)) = CloseOfClosedChannel)"
proof -
  have ok: "life_ok Running s" by (rule booted_life [OF assms(1,2)])
  have len: "length (sd_order env) = 3"
    using distinct_card [OF assms(3)] by (simp add: assms(4))
  define early where "early = concat (map (\<lambda>w. shutdown_error w (part_result env closed w)) (sd_order env))"
  have sent: "sent_errors env closed = early @ shutdown_error Probe (sd_probe env)"
    by (simp add: sent_errors_def early_def)
  have mem: "e \<in> set early \<longleftrightarrow> (\<exists>w c. w \<noteq> Probe \<and> part_result env closed w = Some c \<and>
      e = Wrap (listener_name w @ '' shutdown error'') c)" for e
  proof -
    have "w \<in> {API, MetricsEndpoint, OlricStore} \<longleftrightarrow> w \<noteq> Probe" for w by (cases w) auto
    then show ?thesis unfolding early_def shutdown_errors_set assms(4) by blast
  qed
  have none: "early = [] \<longleftrightarrow> (\<forall>w. w \<noteq> Probe \<longrightarrow> part_result env closed w = None)"
    using mem by (metis last_in_set length_0_conv length_pos_if_in_set not_less_zero not_None_eq)
  define r where "r = (case sent_errors env closed of [] \<Rightarrow> None | err # _ \<Rightarrow> Some err)"
  define s' where "s' = s\<lparr>srv_health := SetShuttingDown (srv_health s) True, srv_shutdownChan := True,
        srv_collector := snd (Stop (srv_collector s))\<rparr>"
  have run: "run api (server_Shutdown env s) n = ((Done r, s'), n')"
    using Shutdown_first [OF ok, of api env n] assms(5) by (simp add: r_def s'_def)
  have all: "(r = None) = (\<forall>w. part_result env closed w = None)"
  proof -
    have "(r = None) = (early = [] \<and> part_result env closed Probe = None)"
      by (auto simp: r_def sent shutdown_error_def split: list.splits option.splits)
    with none show ?thesis by metis
  qed
  have some: "\<exists>w cause. part_result env closed w = Some cause \<and>
      e = Wrap (listener_name w @ '' shutdown error'') cause \<and>
      (w = Probe \<longrightarrow> (\<forall>w'. w' \<noteq> Probe \<longrightarrow> part_result env closed w' = None))" if e: "r = Some e" for e
  proof (cases early)
    case Nil
    then have "part_result env closed Probe = Some c \<and> e = Wrap (listener_name Probe @ '' shutdown error'') c"
      if "sd_probe env = Some c" for c using e that by (simp add: r_def sent shutdown_error_def)
    moreover have "sd_probe env \<noteq> None" using e Nil
      by (auto simp: r_def sent shutdown_error_def split: option.splits)
    ultimately show ?thesis using none Nil by blast
  next
    case (Cons e' es)
    with e have "e \<in> set early" by (simp add: r_def sent)
    with mem show ?thesis by blast
  qed
  have "length (sent_errors env closed) \<le> 4"
    using shutdown_errors_length [of "part_result env closed" "sd_order env"] len
    by (simp add: sent early_def shutdown_error_def split: option.splits)
  moreover have "fst (fst (run api (server_Shutdown env2 s') n2)) = CloseOfClosedChannel" for env2 n2
    by (simp add: server_Shutdown_def s'_def Let_def)
  ultimately show ?thesis using run all some by blast
qed


lemma shutdown_reports_witness:
  "\<exists>s n env e s' n'. life_ok Running s \<and> run ref_api (server_Shutdown env s) n = ((Done (Some e), s'), n') \<and>
     e = Wrap ''probe server shutdown error'' (New ''context deadline exceeded'')"
proof -
  obtain s cs n where s: "run ref_api (NewServer sample_startup ''go1.24'' sample_config (\<lambda>_. None)) ref_node = (Booted s cs, n)"
    "srv_store s = default_store" by (rule sample_boot)
  define s1 where "s1 = snd (server_Start [] s)"
  have st: "server_Start [] s = (None, s1)" "srv_store s1 = default_store"
    using s(2) by (auto simp: s1_def server_Start_def start_errors_def)
  have life: "(life_step ref_api)\<^sup>*\<^sup>* (Fresh, [], s, n) (Running, [], s1, n)" by (rule started_life [OF st(1)])
  let ?env = "\<lparr>sd_api = None, sd_metrics = None, sd_probe = Some (New ''context deadline exceeded''),
    sd_order = [OlricStore, API, MetricsEndpoint]\<rparr>"
  have closed: "run ref_api (olric_Close (srv_store s1)) n = (None, n)" by (simp add: st(2) Close_default)
  have "distinct (sd_order ?env)" "set (sd_order ?env) = {API, MetricsEndpoint, OlricStore}" by auto
  from shutdown_reports [OF s(1) life this closed] obtain r s' where
    r: "run ref_api (server_Shutdown ?env s1) n = ((Done r, s'), n)"
      "(r = None) = (\<forall>w. part_result ?env None w = None)"
      "\<forall>e. r = Some e \<longrightarrow> (\<exists>w cause. part_result ?env None w = Some cause \<and>
        e = Wrap (listener_name w @ '' shutdown error'') cause \<and>
        (w = Probe \<longrightarrow> (\<forall>w'. w' \<noteq> Probe \<longrightarrow> part_result ?env None w' = None)))" by blast
  have probe: "part_result ?env None w = (if w = Probe then Some (New ''context deadline exceeded'') else None)" for w
    by (cases w) auto
  have "part_result ?env None Probe \<noteq> None" by simp
  then have "\<not> (\<forall>w. part_result ?env None w = None)" by metis
  then obtain e where e: "r = Some e" unfolding r(2) [symmetric] by auto
  with r(3) probe have "e = Wrap ''probe server shutdown error'' (New ''context deadline exceeded'')"
    by (auto split: if_splits)
  moreover have "life_ok Running s1" by (rule booted_life [OF s(1) life])
  ultimately show ?thesis using r(1) e by blast
qed

text \<open>
  \<open>Start\<close> returns nil exactly when no listener has failed in time, and then only marks the servers as
  running; each listener sends one error at most, so that the channel's capacity of three is enough.
\<close>

lemma start_errors_length: "length (start_errors returned) \<le> length returned"
  by (induction returned) (auto simp: start_errors_def split: option.splits)

lemma start_reports:
  "(fst (server_Start returned s) = None) = (\<forall>(w, r) \<in> set returned. r = None \<or> r = Some ErrServerClosed) \<and>
   snd (server_Start returned s) = (if fst (server_Start returned s) = None
     then s\<lparr>srv_health := SetServersRunning (srv_health s) True\<rparr> else s)"
proof -
  have "start_errors returned = [] \<longleftrightarrow> (\<forall>(w, r) \<in> set returned. r = None \<or> r = Some ErrServerClosed)"
    by (induction returned) (auto simp: start_errors_def split: option.splits)
  then show ?thesis by (auto simp: server_Start_def split: list.splits)
qed

text \<open>\<open>updateMetrics\<close> makes only calls that Prometheus accepts, and none after the channel is closed.\<close>

lemma updateMetrics_ok: "well_used (register ns) (updateMetrics evs)"
  by (induction evs rule: updateMetrics.induct) (auto simp: UpdateRuntimeMetrics_def)

lemma updateMetrics_stops: "updateMetrics (es @ ShutdownChan # es') = updateMetrics es"
  by (induction es rule: updateMetrics.induct) auto

section \<open>Waiting ends\<close>

text \<open>
  \<open>WaitForServers\<close> sleeps in every round, so that its readings of the clock are \<open>gap\<close> apart at least.
  After as many rounds as the timeout has gaps, and one more, it has returned: nil only when a round
  found all three servers listening.
\<close>

lemma wait_rounds_ends:
  assumes apart: "\<And>k. int k * gap \<le> time_Sub (clock api ((tick api ^^ k) n)) t0" and "0 < fuel"
    and "timeout \<le> int (j + fuel) * gap"
  shows "\<exists>r. fst (run api (wait_rounds dial s timeout (time_Add t0 timeout) fuel j) ((tick api ^^ Suc j) n)) = Some r \<and>
    (r = None \<longrightarrow> (\<exists>k. all_listening s (dial k)))"
  using assms(2,3)
proof (induction fuel arbitrary: j)
  case (Suc fuel)
  show ?case
  proof (cases "time_Before (clock api ((tick api ^^ Suc j) n)) (time_Add t0 timeout) \<and> \<not> all_listening s (dial j)")
    case True
    then have "time_Sub (clock api ((tick api ^^ Suc j) n)) t0 < timeout" by (simp add: Before_Add)
    with apart [of "Suc j"] Suc.prems(2) have "0 < fuel" by (cases fuel) auto
    from Suc.IH [OF this, of "Suc j"] Suc.prems(2) True show ?thesis by simp
  next
    case False
    then show ?thesis by auto
  qed
qed simp

lemma WaitForServers_ends:
  assumes "\<And>k. int k * gap \<le> time_Sub (clock api ((tick api ^^ k) n)) (clock api n)" and "0 < fuel"
    and "timeout \<le> int fuel * gap"
  shows "\<exists>r. fst (run api (WaitForServers dial fuel s timeout) n) = Some r \<and>
    (r = None \<longrightarrow> (\<exists>k. all_listening s (dial k)))"
  using wait_rounds_ends [OF assms(1,2), of timeout 0] assms(3) by (simp add: WaitForServers_def)

end
