(* ===== verification/Sessions.thy ===== *)
theory Sessions
  imports Replies Server
begin

text \<open>
  Whole sessions.  The abstract service is a table of slots and one function, \<open>table_step\<close>: what a
  request is answered and what it makes of the table.  While Olric does not fail, the service that
  \<open>New\<close> has built answers any sequence of lock requests, through its router and middlewares, as the
  abstract service does, and what holds of the table machine holds of the service.
\<close>

section \<open>The table machine\<close>

text \<open>An answer: the status, and the lock that the reply shows.\<close>

type_synonym answer = "int \<times> lock option"

fun table_step :: "go_time \<Rightarrow> api_call \<Rightarrow> (string \<Rightarrow> slot) \<Rightarrow> answer \<times> (string \<Rightarrow> slot)" where
  "table_step t (CallLock r) T = (case lock_target r of
     None \<Rightarrow> ((400, None), T)
   | Some (p, b) \<Rightarrow> (case acquire_slot (T p) p b owner t of
       ((lo, ok), sl) \<Rightarrow> ((if ok then 200 else if lo = None then 500 else 409, lo), T(p := sl))))"
| "table_step t (CallUnlock r) T = (case unlock_target r of
     None \<Rightarrow> ((400, None), T)
   | Some (p, b) \<Rightarrow> ((200, None), T(p := Free)))"
| "table_step t (CallGet r) T = ((case clean_name (rq_project r) of
     None \<Rightarrow> (400, None)
   | Some p \<Rightarrow> (case T p of Free \<Rightarrow> (404, None) | Held l \<Rightarrow> (200, Some l) | Corrupt \<Rightarrow> (500, None))), T)"

fun table_run :: "(go_time \<times> api_call) list \<Rightarrow> (string \<Rightarrow> slot) \<Rightarrow> answer list \<times> (string \<Rightarrow> slot)" where
  "table_run [] T = ([], T)"
| "table_run ((t, c) # tcs) T =
     (case table_step t c T of (a, T') \<Rightarrow> (case table_run tcs T' of (as, T'') \<Rightarrow> (a # as, T'')))"

text \<open>A reply that says what the answer says, in the status word that goes with it.\<close>

definition answers :: "response \<Rightarrow> answer \<Rightarrow> bool" where
  "answers resp a \<longleftrightarrow>
     (\<exists>m. resp = deliver (respondLock (fst a) (status_word (fst a) (snd a)) m (snd a)))"

lemma answers_code: "answers resp (code, lo) \<Longrightarrow> rs_code resp = Some code"
  using reply_codes(2) [of "[]"] by (auto simp: answers_def)

lemma answers_simps [simp]:
  "st = status_word code lo \<Longrightarrow> answers (deliver (map HMetric ms @ respondLock code st m lo)) (code, lo)"
  "st = status_word code lo \<Longrightarrow>
     answers (deliver (map HMetric ms @ respondJSON code \<lparr>Status = st, Message = m, Lock = lo\<rparr>)) (code, lo)"
  "code \<in> {400, 500} \<Longrightarrow> answers (deliver (map HMetric ms @ respondError code m)) (code, None)"
proof -
  have d: "deliver (map HMetric ms @ respondJSON code d) = deliver (respondJSON code d)" for d
    using deliver_respondJSON [of ms] deliver_respondJSON [of "[]"] by simp
  show "st = status_word code lo \<Longrightarrow> answers (deliver (map HMetric ms @ respondLock code st m lo)) (code, lo)"
    "st = status_word code lo \<Longrightarrow>
       answers (deliver (map HMetric ms @ respondJSON code \<lparr>Status = st, Message = m, Lock = lo\<rparr>)) (code, lo)"
    "code \<in> {400, 500} \<Longrightarrow> answers (deliver (map HMetric ms @ respondError code m)) (code, None)"
    unfolding answers_def respondLock_def respondError_def d by (auto simp: status_word_def)
qed

lemma invalid_reply_answers [simp]: "answers (deliver (invalid_reply h op m)) (400, None)"
  by (simp add: invalid_reply_def)

lemma status_word_simps [simp]:
  "status_word 200 (Some l) = ''locked''" "status_word 409 (Some l) = ''locked''"
  "status_word 200 None = ''unlocked''" "status_word 404 None = ''unlocked''"
  by (simp_all add: status_word_def)

text \<open>What a lock request is answered goes with what the lock manager has returned.\<close>

lemma lock_reply_answers:
  assumes "acquire_slot sl p b w t = ((lo, eo = None), sl')"
    and "\<And>e. eo = Some e \<Longrightarrow> errors_Is e ErrLockConflict = (lo \<noteq> None)"
  shows "answers (deliver (lock_reply h (lo, eo))) (if eo = None then 200 else if lo = None then 500 else 409, lo)"
proof (cases eo)
  case None
  with assms(1) obtain l where "lo = Some l" by (cases sl) auto
  with None show ?thesis by (simp add: lock_reply_def)
next
  case (Some e)
  with assms(2) show ?thesis by (cases lo) (auto simp: lock_reply_def)
qed

section \<open>One request\<close>

context lock_live
begin

lemma lock_step:
  assumes "h_lockManager h = lm" "inv s"
  shows "\<exists>t evs s'. run api (HandleLock h r) s = (evs, s') \<and> time_ok t \<and> inv s' \<and>
    (\<exists>a. table_step t (CallLock r) (slots s) = (a, slots s') \<and> answers (deliver evs) a)"
proof (cases "lock_target r")
  case None
  with HandleLock_invalid [of r h] assms(2) ref_time_ok [of 0] show ?thesis by auto
next
  case (Some pb)
  obtain p b where "pb = (p, b)" by (cases pb)
  with Some have r: "lock_target r = Some (p, b)" by simp
  note n = lock_target_names [OF r]
  obtain t a s' where a: "run api (lm_AcquireLock lm p b owner) s = (a, s')" "time_ok t"
    "(verdict a, slots s' p) = acquire_slot (slots s p) p b owner t"
    using Acquire_refines [OF assms(2) n(1,2) owner_ok(1) n(3,4) owner_ok(2)] by blast
  obtain lo eo where eo: "a = (lo, eo)" by (cases a)
  have run: "run api (HandleLock h r) s = (lock_reply h a, s')"
    using a(1) assms(1) r by (simp add: HandleLock_valid prog_simps)
  have slots: "slots s' = (slots s)(p := slots s' p)"
    using Acquire_other [OF assms(2) a(1)] by auto
  have acq: "acquire_slot (slots s p) p b owner t = ((lo, eo = None), slots s' p)"
    using a(3) eo by (simp add: verdict_def)
  have "answers (deliver (lock_reply h a)) (if eo = None then 200 else if lo = None then 500 else 409, lo)"
    unfolding eo using Acquire_refusal [OF assms(2) n owner_ok] a(1) eo by (intro lock_reply_answers [OF acq]) simp
  with run a(2) Acquire_inv [OF assms(2) a(1)] acq slots show ?thesis by (auto simp: r)
qed

lemma unlock_step:
  assumes "h_lockManager h = lm" "inv s"
  shows "\<exists>evs s'. run api (HandleUnlock h r) s = (evs, s') \<and> inv s' \<and>
    (\<exists>a. table_step t (CallUnlock r) (slots s) = (a, slots s') \<and> answers (deliver evs) a)"
proof (cases "unlock_target r")
  case None
  with HandleUnlock_invalid [of r h] assms(2) show ?thesis by auto
next
  case (Some pb)
  obtain p b where "pb = (p, b)" by (cases pb)
  with Some have r: "unlock_target r = Some (p, b)" by simp
  obtain s' where d: "run api (lm_ReleaseLock lm p b owner) s = (None, s')"
    using Release_live [OF assms(2) unlock_target_names(1) [OF r]] by blast
  then have "run api (HandleUnlock h r) s = (unlock_reply h None, s')"
    using assms(1) r by (simp add: HandleUnlock_valid prog_simps)
  with Release_inv [OF assms(2) d] Release_ok [OF assms(2) d] r show ?thesis
    by (simp add: unlock_reply_def)
qed

lemma get_step:
  assumes "h_lockManager h = lm" "inv s"
  shows "\<exists>evs s'. run api (HandleGetLock h r) s = (evs, s') \<and> inv s' \<and>
    (\<exists>a. table_step t (CallGet r) (slots s) = (a, slots s') \<and> answers (deliver evs) a)"
proof (cases "clean_name (rq_project r)")
  case None
  with HandleGetLock_invalid [of r h] assms(2) show ?thesis by auto
next
  case (Some p)
  note p = clean_name_Some(2) [OF Some]
  obtain g s' where g: "run api (lm_GetLock lm p) s = (g, s')" by (meson surj_pair)
  have run: "run api (HandleGetLock h r) s = (get_reply h g, s')"
    using g assms(1) Some by (simp add: HandleGetLock_valid prog_simps)
  have "answers (deliver (get_reply h g)) (case slots s p of
      Free \<Rightarrow> (404, None) | Held l \<Rightarrow> (200, Some l) | Corrupt \<Rightarrow> (500, None))"
  proof (cases "slots s p")
    case Free
    with GetLock_live_free [OF assms(2) p] g have "g = Inl ErrLockNotFound" by auto
    with Free show ?thesis by (simp add: get_reply_def)
  next
    case (Held l)
    with GetLock_live [OF assms(2) p] g have "g = Inr l" by auto
    with Held show ?thesis by (simp add: get_reply_def)
  next
    case Corrupt
    then obtain e where "g = Inl e" "\<not> errors_Is e ErrLockNotFound"
      using g GetLock_held [OF assms(2)] GetLock_free [OF assms(2)] by (cases g) force+
    with Corrupt show ?thesis by (simp add: get_reply_def)
  qed
  with run GetLock_frame [OF assms(2) g] Some show ?thesis by auto
qed

lemma serve_step:
  assumes "h_lockManager h = lm" "inv s"
  shows "\<exists>t evs s'. run api (serve h c) s = (evs, s') \<and> time_ok t \<and> inv s' \<and>
    (\<exists>a. table_step t c (slots s) = (a, slots s') \<and> answers (deliver evs) a)"
  using lock_step [OF assms] unlock_step [OF assms] get_step [OF assms] ref_time_ok [of 0]
  by (cases c) (simp only: serve.simps; blast)+

end


section \<open>A session with the service\<close>

text \<open>The requests of a session, one after the other, through whatever serves them.\<close>

fun session :: "'w olric \<Rightarrow> 'm handler \<Rightarrow> request list \<Rightarrow> 'w node \<Rightarrow> response list \<times> 'w node" where
  "session api h [] s = ([], s)"
| "session api h (r # rs) s = (case run api (h r) s of ((out, _), s') \<Rightarrow>
     (case session api h rs s' of (resps, s'') \<Rightarrow> (deliver (events out) # resps, s'')))"

definition is_lock_request :: "request \<Rightarrow> bool" where
  "is_lock_request r \<longleftrightarrow> api_route r \<noteq> None"

context olric_node
begin

lemma tick_ready [simp]: "ready os (tick api s) = ready os s"
  by (simp add: tick_def ready_def)

lemma tick_locks [simp]: "locks view os (tick api s) = locks view os s"
  using now_view [of "ext s", OF surjective_pairing] by (simp add: tick_def locks_def store_content_def)

end

text \<open>A request through the router is its handler between readings of the clock.\<close>

context olric_node
begin

lemma routed_run:
  assumes chi: "chi_serves chi" "chi_passes api lib" and c: "api_route r = Some c" and s: "ready os s"
    and run: "run api (chi (setupAPIRouter lib (olric_locks os) m) r) s = ((out, u), s')"
  obtains evs s1 s2 where "run api (serve (NewLockHandlers (olric_locks os) m) c) s1 = (evs, s2)"
    "ready os s1" "locks view os s1 = locks view os s" "ready os s2 = ready os s'"
    "locks view os s2 = locks view os s'" "deliver (events out) = deliver evs"
proof -
  let ?s1 = "tick api (tick api s)"
  obtain evs s2 where r: "run api (serve (NewLockHandlers (olric_locks os) m) c) ?s1 = (evs, s2)"
    by (meson surj_pair)
  from through_router [OF chi c r, where ns = "[]"] run have "deliver (events out) = deliver evs" "s' = tick api (tick api s2)"
    by auto
  then show thesis using s by (intro that [OF r]) simp_all
qed

end

section \<open>What any request does to the lock of a project\<close>

context lock_service
begin

lemma serve_inv:
  assumes "h_lockManager h = lm" "inv s" "run api (serve h c) s = (evs, s')"
  shows "inv s'"
proof (cases c)
  case (CallLock r)
  with assms(3) have "run api (HandleLock h r) s = (evs, s')" by simp
  with assms(1) show ?thesis by (cases rule: HandleLock_run) (use assms(2) Acquire_inv in auto)
next
  case (CallUnlock r)
  with assms(3) have "run api (HandleUnlock h r) s = (evs, s')" by simp
  with assms(1) show ?thesis by (cases rule: HandleUnlock_run) (use assms(2) Release_inv in auto)
next
  case (CallGet r)
  with assms(3) HandleGetLock_keeps [OF assms(1,2), of r] show ?thesis by simp
qed

lemma serve_keeps_held:
  assumes "h_lockManager h = lm" "inv s" "run api (serve h c) s = (evs, s')"
    and "slots s p = Held l" "unlocks_project c \<noteq> Some p"
  shows "slots s' p = Held l"
proof (cases c)
  case (CallLock r)
  with assms(3) HandleLock_never_steals [OF assms(1,2) _ assms(4)] show ?thesis by simp
next
  case (CallUnlock r)
  with assms(3) have "run api (HandleUnlock h r) s = (evs, s')" by simp
  with assms(1) show ?thesis
  proof (cases rule: HandleUnlock_run)
    case (valid q b e)
    with assms(5) CallUnlock have "p \<noteq> q" by auto
    with Release_other [OF assms(2) valid(2)] assms(4) show ?thesis by simp
  qed (use assms(4) in simp)
next
  case (CallGet r)
  with assms(3,4) HandleGetLock_keeps [OF assms(1,2), of r] show ?thesis by simp
qed

lemma refused_while_held:
  assumes "h_lockManager h = lm" "inv s" "run api (HandleLock h r) s = (evs, s')"
    and "lock_target r = Some (p, b)" "slots s p = Held l" "Branch l \<noteq> b"
  shows "rs_code (deliver evs) \<noteq> Some 200"
  using HandleLock_200 [OF assms(1-3)] assms(4-6) by auto

end

context olric_node_live
begin

lemma routed_step:
  assumes chi: "chi_serves chi" "chi_passes api lib" and c: "api_route r = Some c" and s: "ready os s"
  shows "\<exists>t evs s'. run api (chi (setupAPIRouter lib (olric_locks os) m) r) s = ((Returned evs, ()), s') \<and>
    time_ok t \<and> ready os s' \<and>
    (\<exists>a. table_step t c (locks view os s) = (a, locks view os s') \<and> answers (deliver evs) a)"
proof -
  let ?h = "NewLockHandlers (olric_locks os) m" and ?s = "tick api (tick api s)"
  have h: "h_lockManager ?h = olric_locks os" by (simp add: NewLockHandlers_def)
  obtain t evs s' a where r: "run api (serve ?h c) ?s = (evs, s')" "time_ok t" "ready os s'"
    "table_step t c (locks view os ?s) = (a, locks view os s')" "answers (deliver evs) a"
    using lock_live.serve_step [OF lock_live_here h, of ?s c] s by auto
  from through_router [OF chi c r(1)] r show ?thesis by (metis tick_locks tick_ready)
qed

end

text \<open>\<open>olric_live\<close> at the top level.\<close>

lemma session_run:
  assumes live: "olric_live api view" and chi: "chi_serves chi" "chi_passes api lib"
    and "list_all is_lock_request rs" "ready os s"
  shows "\<exists>ts resps s' as. length ts = length rs \<and> list_all time_ok ts \<and>
    session api (chi (setupAPIRouter lib (olric_locks os) m)) rs s = (resps, s') \<and> ready os s' \<and>
    table_run (zip ts (map (\<lambda>r. the (api_route r)) rs)) (locks view os s) = (as, locks view os s') \<and>
    list_all2 answers resps as"
  using assms(4,5)
proof (induction rs arbitrary: s)
  case (Cons r rs)
  then obtain c where c: "api_route r = Some c" by (auto simp: is_lock_request_def)
  have node: "olric_node_live api view" using live by (simp add: olric_node_live_def olric_node_def olric_live_def)
  obtain t evs s1 a where 1: "run api (chi (setupAPIRouter lib (olric_locks os) m) r) s = ((Returned evs, ()), s1)"
    "time_ok t" "ready os s1" "table_step t c (locks view os s) = (a, locks view os s1)" "answers (deliver evs) a"
    using olric_node_live.routed_step [OF node chi c Cons.prems(2)] by blast
  have "list_all is_lock_request rs" using Cons.prems(1) by simp
  from Cons.IH [OF this 1(3)] obtain ts resps s' as where 2: "length ts = length rs" "list_all time_ok ts"
    "session api (chi (setupAPIRouter lib (olric_locks os) m)) rs s1 = (resps, s')" "ready os s'"
    "table_run (zip ts (map (\<lambda>r. the (api_route r)) rs)) (locks view os s1) = (as, locks view os s')"
    "list_all2 answers resps as" by blast
  show ?case
    by (rule exI [of _ "t # ts"], rule exI [of _ "deliver evs # resps"], rule exI [of _ s'], rule exI [of _ "a # as"])
      (use 1 2 c in simp)
qed simp

text \<open>A request for the lock of project \<open>p\<close> by branch \<open>b\<close>; one that unlocks \<open>p\<close>.\<close>

definition asks_lock :: "request \<Rightarrow> string \<Rightarrow> string \<Rightarrow> bool" where
  "asks_lock r p b \<longleftrightarrow> api_route r = Some (CallLock r) \<and> lock_target r = Some (p, b)"

definition asks_unlock :: "request \<Rightarrow> string \<Rightarrow> bool" where
  "asks_unlock r p \<longleftrightarrow> (\<exists>c. api_route r = Some c \<and> unlocks_project c = Some p)"

context olric_node
begin

lemma routed_keeps:
  assumes chi: "chi_serves chi" "chi_passes api lib" and r: "is_lock_request r" and s: "ready os s"
    and run: "run api (chi (setupAPIRouter lib (olric_locks os) m) r) s = ((out, u), s')"
  shows "ready os s'"
    and "locks view os s p = Held l \<Longrightarrow> \<not> asks_unlock r p \<Longrightarrow> locks view os s' p = Held l"
    and "locks view os s p = Held l \<Longrightarrow> asks_lock r p b \<Longrightarrow> Branch l \<noteq> b \<Longrightarrow> rs_code (deliver (events out)) \<noteq> Some 200"
    and "asks_lock r p b \<Longrightarrow> rs_code (deliver (events out)) = Some 200 \<Longrightarrow> \<exists>l. locks view os s' p = Held l \<and> Branch l = b"
proof -
  obtain c where c: "api_route r = Some c" using r by (auto simp: is_lock_request_def)
  let ?h = "NewLockHandlers (olric_locks os) m"
  have h: "h_lockManager ?h = olric_locks os" by (simp add: NewLockHandlers_def)
  obtain evs s1 s2 where e: "run api (serve ?h c) s1 = (evs, s2)"
    "ready os s1" "locks view os s1 = locks view os s" "ready os s2 = ready os s'"
    "locks view os s2 = locks view os s'" "deliver (events out) = deliver evs"
    using routed_run [OF chi c s run] by blast
  note svc = lock_service_here
  show "ready os s'" using lock_service.serve_inv [OF svc h e(2,1)] e(4) by simp
  show "locks view os s p = Held l \<Longrightarrow> \<not> asks_unlock r p \<Longrightarrow> locks view os s' p = Held l"
    using lock_service.serve_keeps_held [OF svc h e(2,1), of p l] e(3,5) c by (auto simp: asks_unlock_def)
  show "locks view os s p = Held l \<Longrightarrow> asks_lock r p b \<Longrightarrow> Branch l \<noteq> b \<Longrightarrow> rs_code (deliver (events out)) \<noteq> Some 200"
    using lock_service.refused_while_held [OF svc h e(2), of r evs s2 p b l] e(1,3,6) c
    by (auto simp: asks_lock_def)
  show "asks_lock r p b \<Longrightarrow> rs_code (deliver (events out)) = Some 200 \<Longrightarrow> \<exists>l. locks view os s' p = Held l \<and> Branch l = b"
    using lock_service.HandleLock_200 [OF svc h e(2), of r evs s2] e(1,5,6) c
    by (auto simp: asks_lock_def)
qed

lemma held_until_unlocked:
  assumes chi: "chi_serves chi" "chi_passes api lib"
    and "list_all is_lock_request rs" "ready os s" "locks view os s p = Held l" "Branch l \<noteq> b"
    and "session api (chi (setupAPIRouter lib (olric_locks os) m)) rs s = (resps, s')"
    and "j < length rs" "asks_lock (rs ! j) p b" "rs_code (resps ! j) = Some 200"
  shows "\<exists>k < j. asks_unlock (rs ! k) p"
  using assms(3-)
proof (induction rs arbitrary: j s resps)
  case (Cons r rs)
  obtain out u s1 where r: "run api (chi (setupAPIRouter lib (olric_locks os) m) r) s = ((out, u), s1)"
    by (metis surj_pair)
  obtain resps1 where rs: "session api (chi (setupAPIRouter lib (olric_locks os) m)) rs s1 = (resps1, s')"
    "resps = deliver (events out) # resps1"
    using Cons.prems(5) r by (auto split: prod.splits)
  have "is_lock_request r" using Cons.prems(1) by simp
  note keeps = routed_keeps [OF chi this Cons.prems(2) r]
  show ?case
  proof (cases j)
    case 0
    with keeps(3) [OF Cons.prems(3) _ Cons.prems(4)] Cons.prems(7,8) rs(2) show ?thesis by simp
  next
    case (Suc j')
    show ?thesis
    proof (cases "asks_unlock r p")
      case True
      with Suc show ?thesis by (intro exI [of _ 0]) simp
    next
      case False
      with keeps(2) Cons.prems(3) have "locks view os s1 p = Held l" by simp
      with Cons.IH [of s1 resps1 j'] Cons.prems rs keeps(1) Suc obtain k where "k < j'" "asks_unlock (rs ! k) p"
        by auto
      with Suc show ?thesis by (intro exI [of _ "Suc k"]) simp
    qed
  qed
qed simp

lemma exclusive:
  assumes chi: "chi_serves chi" "chi_passes api lib"
    and "list_all is_lock_request rs" "ready os s"
    and "session api (chi (setupAPIRouter lib (olric_locks os) m)) rs s = (resps, s')"
    and "i < j" "j < length rs" "asks_lock (rs ! i) p b" "asks_lock (rs ! j) p b'" "b \<noteq> b'"
    and "rs_code (resps ! i) = Some 200" "rs_code (resps ! j) = Some 200"
  shows "\<exists>k. i < k \<and> k < j \<and> asks_unlock (rs ! k) p"
  using assms(3-)
proof (induction rs arbitrary: i j s resps)
  case (Cons r rs)
  obtain out u s1 where r: "run api (chi (setupAPIRouter lib (olric_locks os) m) r) s = ((out, u), s1)"
    by (metis surj_pair)
  obtain resps1 where rs: "session api (chi (setupAPIRouter lib (olric_locks os) m)) rs s1 = (resps1, s')"
    "resps = deliver (events out) # resps1"
    using Cons.prems(3) r by (auto split: prod.splits)
  have "is_lock_request r" using Cons.prems(1) by simp
  note keeps = routed_keeps [OF chi this Cons.prems(2) r]
  obtain j' where j: "j = Suc j'" using Cons.prems(4) by (cases j) auto
  have rs': "list_all is_lock_request rs" "j' < length rs" "asks_lock (rs ! j') p b'" "rs_code (resps1 ! j') = Some 200"
    using Cons.prems j rs(2) by auto
  show ?case
  proof (cases i)
    case 0
    with keeps(4) [of p b] Cons.prems(6,9) rs(2) obtain l where l: "locks view os s1 p = Held l" "Branch l = b" by auto
    have "Branch l \<noteq> b'" using l(2) Cons.prems(8) by simp
    from held_until_unlocked [OF chi rs'(1) keeps(1) l(1) this rs(1) rs'(2-4)] obtain k where
      "k < j'" "asks_unlock (rs ! k) p" by blast
    with 0 j show ?thesis by (intro exI [of _ "Suc k"]) simp
  next
    case (Suc i')
    with Cons.prems rs(2) j have "i' < j'" "asks_lock (rs ! i') p b" "rs_code (resps1 ! i') = Some 200" by auto
    with Cons.IH [OF rs'(1) keeps(1) rs(1) _ rs'(2) _ rs'(3) Cons.prems(8) _ rs'(4), of i'] obtain k where
      "i' < k" "k < j'" "asks_unlock (rs ! k) p" by blast
    with Suc j show ?thesis by (intro exI [of _ "Suc k"]) simp
  qed
qed simp

end

section \<open>Requests for the witnesses\<close>

definition sample_session :: "request list" where
  "sample_session = [post ''/unlock'' sample_body, post ''/lock'' sample_body, post ''/lock'' main_body,
     get_lock ''api'', post ''/unlock'' main_body, post ''/lock'' main_body]"

lemma sample_unlock_main: "unlock_target (post ''/unlock'' main_body) = Some (''api'', ''main'')"
  by code_simp

lemma sample_routes:
  "api_route (post ''/lock'' b) = Some (CallLock (post ''/lock'' b))"
  "api_route (post ''/unlock'' b) = Some (CallUnlock (post ''/unlock'' b))"
  "api_route (get_lock ''api'') = Some (CallGet (get_lock ''api''))"
  by (simp_all add: api_route_def post_def get_lock_def valid_utf8_ascii)

lemma sample_session_routed: "list_all is_lock_request sample_session"
  by (simp add: sample_session_def is_lock_request_def sample_routes)

lemmas sample_targets = sample_lock_target main_lock_target sample_unlock_target sample_unlock_main
  sample_get_target

text \<open>What the table machine answers, whatever the table and the readings of the clock.\<close>

lemma sample_answers:
  assumes "length ts = 6"
  obtains l l' where "map fst (fst (table_run (zip ts (map (\<lambda>r. the (api_route r)) sample_session)) T)) =
      [200, 200, 409, 200, 200, 200]"
    "snd (table_run (zip ts (map (\<lambda>r. the (api_route r)) sample_session)) T) ''api'' = Held l" "Branch l = ''main''"
proof -
  obtain a b c d e f where "ts = [a, b, c, d, e, f]"
    using assms by (auto simp: length_Suc_conv eval_nat_numeral)
  then show thesis using that by (simp add: sample_session_def sample_routes sample_targets)
qed

end
