(* ===== verification/Isolation.thy ===== *)
theory Isolation
  imports Sessions
begin

text \<open>
  What is left of the specification when requests overlap.  \<open>outcomes\<close> is the set of what a program
  may come to when nobody else changes one key, whatever else happens around it; computed for a
  request it is the table machine's step.  So a request that is the only one on its project is
  served as if it were alone.  \<open>within\<close> bounds the calls of a program: every request is done after
  seventeen of its own, in any schedule.
\<close>

section \<open>What a program may come to while a key is left alone\<close>

text \<open>
  \<open>d\<close>: the map it works on; \<open>p\<close>: the key that only it changes; \<open>v\<close>: what the key holds.  The answers
  are those of an Olric that does not fail; about other keys nothing is said.
\<close>

definition get_answers :: "go_value option \<Rightarrow> (go_error + get_response) set" where
  "get_answers v = (case v of
     None \<Rightarrow> {Inl e |e. Error e = ''key not found''}
   | Some (GStr x) \<Rightarrow> {Inr (Inr x)}
   | Some (GOther _) \<Rightarrow> {Inl e |e. \<not> strings_Contains (Error e) ''key not found'' \<and> \<not> own_error e} \<union>
       {Inr (Inl e) |e. \<not> strings_Contains (Error e) ''key not found'' \<and> \<not> own_error e})"

primrec outcomes :: "string \<Rightarrow> string \<Rightarrow> 'a prog \<Rightarrow> go_value option \<Rightarrow> ('a \<times> go_value option) set" where
  "outcomes d p (Ret a) = (\<lambda>v. {(a, v)})"
| "outcomes d p (prog.Load k) = outcomes d p (k (Some d))"
| "outcomes d p (Save h q) = outcomes d p q"
| "outcomes d p (ClientNewDMap n k) = (\<lambda>v. \<Union>r. outcomes d p (k r) v)"
| "outcomes d p (DMapGet n key k) = (\<lambda>v.
     \<Union>r \<in> (if n = d \<and> key = p then get_answers v else UNIV). outcomes d p (k r) v)"
| "outcomes d p (DMapPut n key x ttl k) = (\<lambda>v.
     outcomes d p (k None) (if n = d \<and> key = p then Some x else v))"
| "outcomes d p (DMapDelete n key k) = (\<lambda>v.
     \<Union>r \<in> {None} \<union> {Some e |e. Error e = ''key not found''}.
       outcomes d p (k r) (if n = d \<and> key = p then None else v))"
| "outcomes d p (ClientMembers k) = (\<lambda>v. \<Union>r. outcomes d p (k r) v)"
| "outcomes d p (ClientStats n k) = (\<lambda>v. \<Union>r. outcomes d p (k r) v)"
| "outcomes d p (DbShutdown k) = (\<lambda>v. \<Union>r. outcomes d p (k r) v)"
| "outcomes d p (Now k) = (\<lambda>v. \<Union>t \<in> Collect time_ok. outcomes d p (k t) v)"

lemma outcomes_seq [simp]:
  "outcomes d p (seq m f) v = (\<Union>(a, v') \<in> outcomes d p m v. outcomes d p (f a) v')"
  by (induction m arbitrary: v) auto

section \<open>Steps of the program and of others\<close>

context olric_node_live
begin

lemma own_step:
  assumes "guarded (this_map os) W D q" "ready os s" "effect api q s = (q', s')"
  shows "outcomes (this_map os) p q' (content s' p) \<subseteq> outcomes (this_map os) p q (content s p)"
proof (cases q)
  case (DMapGet n key k)
  obtain r w where r: "api_Get api n key (ext s) = (r, w)" by (meson surj_pair)
  then have s': "q' = k r" "content s' = content s" using assms(3) DMapGet get_view [OF r]
    by (auto simp: call_def store_content_def)
  have "r \<in> get_answers (content s p)" if "n = this_map os" "key = p"
  proof (cases "content s p")
    case None
    with get_live_missing [of "ext s" n key] r that show ?thesis
      by (auto simp: get_answers_def store_content_def)
  next
    case (Some x)
    show ?thesis
    proof (cases x)
      case (GStr y)
      with Some get_live [of "ext s" n key y] r that show ?thesis by (auto simp: get_answers_def store_content_def)
    next
      case (GOther y)
      with Some that have v: "view (ext s) n key = Some (GOther y)" by (simp add: store_content_def)
      show ?thesis
      proof (cases r)
        case (Inl e)
        with get_own [of n key "ext s" e w] get_missing [of n key "ext s" e w] r v Some GOther show ?thesis
          by (auto simp: get_answers_def)
      next
        case (Inr z)
        with get_found [of n key "ext s" _ w] get_scan [of n key "ext s" _ w] r v Some GOther show ?thesis
          by (cases z) (auto simp: get_answers_def)
      qed
    qed
  qed
  with s' DMapGet show ?thesis by auto
next
  case (DMapPut n key x ttl k)
  obtain w where r: "api_Put api n key x ttl (ext s) = (None, w)"
    using put_live [of n key x ttl "ext s"] by (metis fst_conv surj_pair)
  have "n = this_map os" using assms(1) DMapPut by simp
  with put_ok [OF r] assms(3) DMapPut r show ?thesis by (auto simp: call_def store_content_def)
next
  case (DMapDelete n key k)
  obtain r w where r: "api_Delete api n key (ext s) = (r, w)" by (meson surj_pair)
  have n: "n = this_map os" using assms(1) DMapDelete by simp
  have s': "q' = k r" "content s' = view w (this_map os)"
    using assms(3) DMapDelete r by (auto simp: call_def store_content_def)
  have "r = None \<or> (\<exists>e. r = Some e \<and> Error e = ''key not found'')"
    using delete_live [of n key "ext s"] r by auto
  moreover have "content s' p = (if n = this_map os \<and> key = p then None else content s p)"
    using calculation delete_ok [of n key "ext s" w] delete_missing [of n key "ext s" _ w] r s'(2) n
    by (auto simp: store_content_def)
  ultimately show ?thesis using s'(1) DMapDelete by auto
next
  case (ClientNewDMap n k)
  obtain r w where r: "api_NewDMap api n (ext s) = (r, w)" by (meson surj_pair)
  with new_dmap_view [OF r] ClientNewDMap assms(3) show ?thesis by (auto simp: call_def store_content_def)
next
  case (ClientMembers k)
  obtain r w where r: "api_Members api (ext s) = (r, w)" by (meson surj_pair)
  with members_view [OF r] ClientMembers assms(3) show ?thesis by (auto simp: call_def store_content_def)
next
  case (ClientStats n k)
  obtain r w where r: "api_Stats api n (ext s) = (r, w)" by (meson surj_pair)
  with stats_view [OF r] ClientStats assms(3) show ?thesis by (auto simp: call_def store_content_def)
next
  case (Now k)
  obtain t w where t: "api_Now api (ext s) = (t, w)" by (meson surj_pair)
  with now_view [OF t] now_ok [of "ext s"] Now assms(3) show ?thesis by (auto simp: call_def store_content_def)
qed (use assms in \<open>auto simp: ready_def store_content_def\<close>)

text \<open>Program \<open>i\<close> of the pool, while no other may change the key \<open>p\<close>.\<close>

definition only_changes :: "nat \<Rightarrow> string \<Rightarrow> 'a prog list \<Rightarrow> bool" where
  "only_changes i p ps \<longleftrightarrow> (\<forall>j < length ps. guarded (this_map os)
     (\<lambda>k _. j \<noteq> i \<longrightarrow> k \<noteq> p) (\<lambda>k. j \<noteq> i \<longrightarrow> k \<noteq> p) (ps ! j))"

lemma alone_invariant:
  assumes "reaches api (ps, s) c'" "only_changes i p ps" "ready os s"
  shows "length (fst c') = length ps \<and> only_changes i p (fst c') \<and> ready os (snd c') \<and>
    outcomes (this_map os) p (fst c' ! i) (content (snd c') p) \<subseteq> outcomes (this_map os) p (ps ! i) (content s p)"
  using assms
proof (induction "(ps, s)" c' rule: reaches.induct)
  case (later c' c'')
  from later.hyps(3) obtain qs t j q t' where m: "c' = (qs, t)" "j < length qs" "effect api (qs ! j) t = (q, t')"
    "c'' = (qs[j := q], t')"
    by (cases rule: moves.cases) auto
  from later.hyps(2) [OF later.prems] m have ih: "length qs = length ps" "only_changes i p qs" "ready os t"
    "outcomes (this_map os) p (qs ! i) (content t p) \<subseteq> outcomes (this_map os) p (ps ! i) (content s p)" by auto
  let ?W = "\<lambda>k _. j \<noteq> i \<longrightarrow> k \<noteq> p" and ?D = "\<lambda>k. j \<noteq> i \<longrightarrow> k \<noteq> p"
  have g: "guarded (this_map os) ?W ?D (qs ! j)" using ih(2) m(2) by (simp add: only_changes_def)
  have h: "handle_ok os t" using ih(3) by (simp add: ready_def handle_ok_def)
  note e = guarded_effect [OF g h m(3)]
  have "only_changes i p (qs[j := q])"
    unfolding only_changes_def
  proof (intro allI impI)
    fix k assume "k < length (qs[j := q])"
    with ih(2) e show "guarded (this_map os) (\<lambda>x _. k \<noteq> i \<longrightarrow> x \<noteq> p) (\<lambda>x. k \<noteq> i \<longrightarrow> x \<noteq> p) (qs[j := q] ! k)"
      by (cases "k = j") (auto simp: only_changes_def)
  qed
  moreover have "ready os t'" by (rule guarded_ready [OF g ih(3) m(3)])
  moreover have "outcomes (this_map os) p (qs[j := q] ! i) (content t' p) \<subseteq>
      outcomes (this_map os) p (qs ! i) (content t p)"
  proof (cases "j = i")
    case True
    with own_step [OF g ih(3) m(3), of p] m(2) show ?thesis by simp
  next
    case False
    then have "content t' p = content t p" using e by (auto simp: changes_def)
    with False show ?thesis by simp
  qed
  ultimately show ?case using ih m(4) by (simp add: subset_trans)
qed simp

end

section \<open>What a request may come to\<close>

lemma outcomes_getDMap [simp]: "outcomes (this_map os) p (getDMap os) v = {(Inr (this_map os), v)}"
  by (simp add: getDMap_def)

lemma outcomes_Get:
  "outcomes (this_map os) p (st_Get (as_Store os) p) v = (\<lambda>r. (case r of
     Inl e \<Rightarrow> Inl e | Inr (Inl e) \<Rightarrow> Inl e | Inr (Inr x) \<Rightarrow> Inr (GStr x), v)) ` get_answers v"
  by (auto simp: as_Store_def olric_Get_def and_then_def)

lemma outcomes_GetLock:
  assumes "p \<noteq> []" "(g, v') \<in> outcomes (this_map os) p (GetLock (as_Store os) p) v"
  shows "v' = v" "slot_of v = Free \<Longrightarrow> g = Inl ErrLockNotFound" "slot_of v = Held l \<Longrightarrow> g = Inr l"
    "slot_of v = Corrupt \<Longrightarrow> \<exists>e. g = Inl e \<and> \<not> own_error e"
proof -
  have own: "read_lock x = Inl e \<Longrightarrow> \<not> own_error e" for x e by (rule read_lock_own)
  have oth: "read_lock (GOther t) \<noteq> Inr l'" for t l' by (simp add: read_lock_def)
  show "v' = v" using assms by (auto simp: GetLock_def outcomes_Get)
  show "slot_of v = Free \<Longrightarrow> g = Inl ErrLockNotFound"
    using assms by (auto simp: GetLock_def outcomes_Get get_answers_def Contains_self)
  show "slot_of v = Held l \<Longrightarrow> g = Inr l"
    using assms oth
    by (auto simp: GetLock_def outcomes_Get get_answers_def slot_of_def split: option.splits go_value.splits sum.splits)
  show "slot_of v = Corrupt \<Longrightarrow> \<exists>e. g = Inl e \<and> \<not> own_error e"
    using assms own
    by (auto simp: GetLock_def outcomes_Get get_answers_def slot_of_def split: option.splits go_value.splits sum.splits)
qed

lemma outcomes_PutIfAbsent_free:
  "outcomes (this_map os) p (st_PutIfAbsent (as_Store os) p x ttl) None = {(Inr True, Some x)}"
proof -
  have "\<exists>e. Error e = ''key not found''" by (rule exI [of _ "New ''key not found''"]) simp
  then show ?thesis
    by (auto simp: as_Store_def olric_PutIfAbsent_def and_then_def get_answers_def isKeyNotFoundError_def)
qed

lemma outcomes_create_lock:
  assumes "valid_utf8 p" "valid_utf8 b" "valid_utf8 w"
    and "(a, v') \<in> outcomes (this_map os) p (create_lock (as_Store os) p b w) None"
  shows "\<exists>t. time_ok t \<and> a = (Some (lock_for p b w t), None) \<and> slot_of v' = Held (stored_form (lock_for p b w t))"
proof -
  obtain t where t: "time_ok t" "(a, v') \<in> outcomes (this_map os) p (case json_Marshal (lock_for p b w t) of
      Inl err \<Rightarrow> Ret (None, Some (Wrap ''failed to serialize lock'' err))
    | Inr lockData \<Rightarrow> seq (st_PutIfAbsent (as_Store os) p (GStr lockData) 0) (\<lambda>r. case r of
        Inl err \<Rightarrow> Ret (None, Some (Wrap ''failed to store lock'' err))
      | Inr stored \<Rightarrow>
          if \<not> stored then seq (GetLock (as_Store os) p) (\<lambda>r. Ret (case r of
            Inl err \<Rightarrow> (None, Some (Wrap ''failed to get lock after race'' err))
          | Inr existingLock \<Rightarrow> holder_check b w existingLock))
          else Ret (Some (lock_for p b w t), None))) None"
    using assms(4) unfolding create_lock_def outcomes.simps Let_def lock_for_def by blast
  obtain x where x: "json_Marshal (lock_for p b w t) = Inr x"
    using marshal_time_ok [of "lock_for p b w t"] t(1) by auto
  from marshal_read [OF lock_for_ok [OF assms(1-3) t(1)] x]
  have "slot_of (Some (GStr x)) = Held (stored_form (lock_for p b w t))" by simp
  with t x show ?thesis by (auto simp: outcomes_PutIfAbsent_free)
qed

lemma outcomes_AcquireLock:
  assumes "p \<noteq> []" "b \<noteq> []" "w \<noteq> []" "valid_utf8 p" "valid_utf8 b" "valid_utf8 w"
    and "(a, v') \<in> outcomes (this_map os) p (AcquireLock (as_Store os) p b w) v"
  shows "\<exists>t. time_ok t \<and> (verdict a, slot_of v') = acquire_slot (slot_of v) p b w t \<and>
    (\<forall>e. snd a = Some e \<longrightarrow> errors_Is e ErrLockConflict = (fst a \<noteq> None))"
proof -
  obtain g v1 where g: "(g, v1) \<in> outcomes (this_map os) p (GetLock (as_Store os) p) v"
    "(a, v') \<in> outcomes (this_map os) p (case g of
        Inl err \<Rightarrow> if err \<noteq> ErrLockNotFound then Ret (None, Some (Wrap ''failed to check existing lock'' err))
          else create_lock (as_Store os) p b w
      | Inr existingLock \<Rightarrow> Ret (holder_check b w existingLock)) v1"
    using assms(1-3,7) by (auto simp: AcquireLock_def)
  note o = outcomes_GetLock [OF assms(1) g(1)]
  show ?thesis
  proof (cases "slot_of v")
    case Free
    with o(1,2) g(2) have "(a, v') \<in> outcomes (this_map os) p (create_lock (as_Store os) p b w) None" by simp
    from outcomes_create_lock [OF assms(4-6) this] Free show ?thesis by (auto simp: verdict_def)
  next
    case (Held l)
    with o(1,3) g(2) have "a = holder_check b w l" "v' = v" by auto
    with Held ref_time_ok [of 0] show ?thesis by (auto simp: verdict_def holder_check_def)
  next
    case Corrupt
    with o(4) obtain e where e: "g = Inl e" "\<not> own_error e" by blast
    then have "e \<noteq> ErrLockNotFound" by auto
    with e g(2) o(1) have "a = (None, Some (Wrap ''failed to check existing lock'' e))" "v' = v" by auto
    with Corrupt e(2) ref_time_ok [of 0] show ?thesis by (auto simp: verdict_def)
  qed
qed

lemma outcomes_ReleaseLock:
  assumes "p \<noteq> []"
  shows "outcomes (this_map os) p (ReleaseLock (as_Store os) p b w) v = {(None, None)}"
proof -
  have "\<exists>e. Error e = ''key not found''" by (rule exI [of _ "New ''key not found''"]) simp
  with assms show ?thesis
    by (auto simp: ReleaseLock_def as_Store_def olric_Delete_def isKeyNotFoundError_def)
qed

text \<open>The project that a request is about.\<close>

fun project_of :: "api_call \<Rightarrow> string option" where
  "project_of (CallLock r) = map_option fst (lock_target r)"
| "project_of (CallUnlock r) = map_option fst (unlock_target r)"
| "project_of (CallGet r) = clean_name (rq_project r)"

lemma outcomes_serve:
  assumes "h_lockManager h = olric_locks os" "project_of c = Some p"
    and "(evs, v') \<in> outcomes (this_map os) p (serve h c) v" and "T p = slot_of v"
  shows "\<exists>t a. time_ok t \<and> table_step t c T = (a, T(p := slot_of v')) \<and> answers (deliver evs) a"
proof (cases c)
  case (CallLock r)
  with assms(2) obtain b where r: "lock_target r = Some (p, b)" by auto
  note n = lock_target_names [OF r]
  obtain a where a: "(a, v') \<in> outcomes (this_map os) p (AcquireLock (as_Store os) p b owner) v" "evs = lock_reply h a"
    using assms(1,3) CallLock HandleLock_valid [OF r, of h] by (auto simp: olric_locks_def)
  obtain t where t: "time_ok t" "(verdict a, slot_of v') = acquire_slot (T p) p b owner t"
    "\<forall>e. snd a = Some e \<longrightarrow> errors_Is e ErrLockConflict = (fst a \<noteq> None)"
    using outcomes_AcquireLock [OF n(1,2) owner_ok(1) n(3,4) owner_ok(2) a(1)] assms(4) by auto
  obtain lo eo where eo: "a = (lo, eo)" by (cases a)
  with t(2) have acq: "acquire_slot (T p) p b owner t = ((lo, eo = None), slot_of v')" by (simp add: verdict_def)
  moreover have "answers (deliver evs) (if eo = None then 200 else if lo = None then 500 else 409, lo)"
    unfolding a(2) eo using t(3) eo by (intro lock_reply_answers [OF acq]) simp
  ultimately show ?thesis using CallLock r t(1) by auto
next
  case (CallUnlock r)
  with assms(2) obtain b where r: "unlock_target r = Some (p, b)" by auto
  have "evs = unlock_reply h None" "v' = None"
    using assms(1,3) CallUnlock HandleUnlock_valid [OF r, of h] unlock_target_names(1) [OF r]
    by (auto simp: olric_locks_def outcomes_ReleaseLock)
  with CallUnlock r ref_time_ok [of 0] show ?thesis by (auto simp: unlock_reply_def)
next
  case (CallGet r)
  with assms(2) have r: "clean_name (rq_project r) = Some p" by simp
  obtain g where g: "(g, v') \<in> outcomes (this_map os) p (GetLock (as_Store os) p) v" "evs = get_reply h g"
    using assms(1,3) CallGet HandleGetLock_valid [OF r, of h] by (auto simp: olric_locks_def)
  note o = outcomes_GetLock [OF clean_name_Some(2) [OF r] g(1)]
  have "answers (deliver evs) (case T p of Free \<Rightarrow> (404, None) | Held l \<Rightarrow> (200, Some l) | Corrupt \<Rightarrow> (500, None))"
  proof (cases "slot_of v")
    case Corrupt
    with o(4) obtain e where "g = Inl e" "\<not> own_error e" by blast
    with Corrupt g(2) assms(4) show ?thesis by (simp add: get_reply_def)
  qed (use o(2,3) g(2) assms(4) in \<open>auto simp: get_reply_def\<close>)
  moreover have "T(p := slot_of v') = T" using o(1) assms(4) by auto
  ultimately show ?thesis using CallGet r ref_time_ok [of 0] by auto
qed

section \<open>Schedules\<close>

text \<open>Which program moves next, at every step; an index outside the pool moves nobody.\<close>

fun schedule :: "'w olric \<Rightarrow> nat list \<Rightarrow> ('a, 'w) pool \<Rightarrow> ('a, 'w) pool" where
  "schedule api [] c = c"
| "schedule api (i # is) (ps, s) =
     (if i < length ps then (case effect api (ps ! i) s of (p, s') \<Rightarrow> schedule api is (ps[i := p], s'))
      else schedule api is (ps, s))"

lemma schedule_reaches: "reaches api c (schedule api is c)"
proof (induction api "is" c rule: schedule.induct)
  case 1
  show ?case by (simp add: reaches.start)
next
  case (2 api i "is" ps s)
  show ?case
  proof (cases "i < length ps")
    case True
    obtain p s' where e: "effect api (ps ! i) s = (p, s')" by (meson surj_pair)
    have "moves api (ps, s) (ps[i := p], s')" using True e by (rule move)
    then have "reaches api (ps, s) (ps[i := p], s')" using reaches.start reaches.later by metis
    with 2(1) [OF True e [symmetric]] True e show ?thesis using reaches_trans by fastforce
  next
    case False
    with 2(2) show ?thesis by simp
  qed
qed

text \<open>A program that makes at most \<open>n\<close> calls, whatever they answer.\<close>

primrec within :: "'a prog \<Rightarrow> nat \<Rightarrow> bool" where
  "within (Ret a) = (\<lambda>n. True)"
| "within (prog.Load k) = (\<lambda>n. case n of 0 \<Rightarrow> False | Suc n \<Rightarrow> \<forall>r. within (k r) n)"
| "within (Save h p) = (\<lambda>n. case n of 0 \<Rightarrow> False | Suc n \<Rightarrow> within p n)"
| "within (ClientNewDMap d k) = (\<lambda>n. case n of 0 \<Rightarrow> False | Suc n \<Rightarrow> \<forall>r. within (k r) n)"
| "within (DMapGet d key k) = (\<lambda>n. case n of 0 \<Rightarrow> False | Suc n \<Rightarrow> \<forall>r. within (k r) n)"
| "within (DMapPut d key v ttl k) = (\<lambda>n. case n of 0 \<Rightarrow> False | Suc n \<Rightarrow> \<forall>r. within (k r) n)"
| "within (DMapDelete d key k) = (\<lambda>n. case n of 0 \<Rightarrow> False | Suc n \<Rightarrow> \<forall>r. within (k r) n)"
| "within (ClientMembers k) = (\<lambda>n. case n of 0 \<Rightarrow> False | Suc n \<Rightarrow> \<forall>r. within (k r) n)"
| "within (ClientStats m k) = (\<lambda>n. case n of 0 \<Rightarrow> False | Suc n \<Rightarrow> \<forall>r. within (k r) n)"
| "within (DbShutdown k) = (\<lambda>n. case n of 0 \<Rightarrow> False | Suc n \<Rightarrow> \<forall>r. within (k r) n)"
| "within (Now k) = (\<lambda>n. case n of 0 \<Rightarrow> False | Suc n \<Rightarrow> \<forall>t. within (k t) n)"

lemma within_more: "within p n \<Longrightarrow> within p (n + j)"
  by (induction p arbitrary: n) (auto split: nat.splits)

lemma within_seq: "within m i \<Longrightarrow> (\<And>a. within (f a) j) \<Longrightarrow> within (seq m f) (i + j)"
proof (induction m arbitrary: i)
  case (Ret a)
  then show ?case using within_more [of "f a" j i] by (simp add: add.commute)
qed (auto split: nat.splits)

lemma within_effect: "within p n \<Longrightarrow> effect api p s = (p', s') \<Longrightarrow> within p' (n - 1) \<and> (n = 0 \<longrightarrow> (\<exists>a. p' = Ret a))"
  by (cases p) (auto simp: map_prod_def split: prod.splits nat.splits)

lemma schedule_length: "length (fst (schedule api is (ps, s))) = length ps"
  by (induction api "is" "(ps, s)" arbitrary: ps s rule: schedule.induct) (auto split: prod.splits)

lemma schedule_finishes:
  assumes "i < length ps" "within (ps ! i) n" "n \<le> count_list is i"
  shows "\<exists>a. fst (schedule api is (ps, s)) ! i = Ret a"
  using assms
proof (induction "is" arbitrary: ps s n)
  case Nil
  then show ?case by (cases "ps ! i") auto
next
  case (Cons j js)
  show ?case
  proof (cases "j < length ps")
    case True
    obtain p s' where e: "effect api (ps ! j) s = (p, s')" by (meson surj_pair)
    show ?thesis
    proof (cases "j = i")
      case i: True
      have "within p (n - 1)" using within_effect [OF Cons.prems(2)] e i by blast
      with Cons.IH [of "ps[i := p]" "n - 1" s'] Cons.prems i e show ?thesis by simp
    next
      case False
      with Cons.IH [of "ps[j := p]" n s'] Cons.prems True e show ?thesis by simp
    qed
  next
    case False
    with Cons.IH [of ps n s] Cons.prems show ?thesis by (cases "j = i") auto
  qed
qed

section \<open>Every request is done after seventeen calls\<close>

lemma within_seqI: "within m i \<Longrightarrow> (\<And>a. within (f a) j) \<Longrightarrow> n = i + j \<Longrightarrow> within (seq m f) n"
  using within_seq by blast

lemma within_map: "within m i \<Longrightarrow> within (seq m (\<lambda>a. Ret (f a))) i"
  by (rule within_seqI [where j = 0]) auto

lemma within_and_thenI: "within m i \<Longrightarrow> (\<And>a. within (f a) j) \<Longrightarrow> n = i + j \<Longrightarrow> within (and_then m f) n"
  unfolding and_then_def by (rule within_seqI) (auto split: sum.splits)

lemma within_getDMap: "within (getDMap os) 4"
  by (auto simp: getDMap_def eval_nat_numeral split: option.splits)

lemma within_Get: "within (st_Get (as_Store os) k) 5"
  unfolding as_Store_def olric_Get_def store.simps
  by (rule within_and_thenI [OF within_getDMap, where j = 1]) auto

lemma within_PutIfAbsent: "within (st_PutIfAbsent (as_Store os) k x ttl) 6"
  unfolding as_Store_def olric_PutIfAbsent_def store.simps
  by (rule within_and_thenI [OF within_getDMap, where j = 2]) (auto simp: eval_nat_numeral split: sum.splits)

lemma within_Delete: "within (st_Delete (as_Store os) k) 5"
  unfolding as_Store_def olric_Delete_def store.simps
  by (rule within_seqI [OF within_getDMap, where j = 1]) (auto split: sum.splits)

lemma within_GetLock: "within (GetLock (as_Store os) p) 5"
  unfolding GetLock_def by (auto intro!: within_map within_Get)

lemma within_create_lock: "within (create_lock (as_Store os) p b w) 12"
proof -
  have store: "within (seq (st_PutIfAbsent (as_Store os) p v 0) (\<lambda>r. case r of
      Inl err \<Rightarrow> Ret (y err)
    | Inr stored \<Rightarrow> if \<not> stored then seq (GetLock (as_Store os) p) (\<lambda>r. Ret (g r)) else Ret x)) 11"
    for v and x :: "lock option \<times> go_error option" and y g
    by (rule within_seqI [OF within_PutIfAbsent, where j = 5]) (auto intro: within_map within_GetLock split: sum.splits)
  have "within (create_lock (as_Store os) p b w) (Suc 11)"
    using store by (auto simp: create_lock_def Let_def split: sum.splits)
  then show ?thesis by simp
qed

lemma within_AcquireLock: "within (AcquireLock (as_Store os) p b w) 17"
  unfolding AcquireLock_def
  by (auto intro!: within_seqI [OF within_GetLock, where j = 12] intro: within_create_lock split: sum.splits)

lemma within_ReleaseLock: "within (ReleaseLock (as_Store os) p b w) 5"
  unfolding ReleaseLock_def by (auto intro!: within_map within_Delete)

lemma within_serve:
  assumes "h_lockManager h = olric_locks os"
  shows "within (serve h c) 17"
proof (cases c)
  case (CallLock r)
  then show ?thesis
    using HandleLock_invalid [of r h] HandleLock_valid [of r _ _ h] assms within_map [OF within_AcquireLock]
    by (cases "lock_target r") (auto simp: olric_locks_def)
next
  case (CallUnlock r)
  then show ?thesis
    using HandleUnlock_invalid [of r h] HandleUnlock_valid [of r _ _ h] assms
      within_more [OF within_map [OF within_ReleaseLock], where j = 12]
    by (cases "unlock_target r") (auto simp: olric_locks_def)
next
  case (CallGet r)
  then show ?thesis
    using HandleGetLock_invalid [of r h] HandleGetLock_valid [of r _ h] assms
      within_more [OF within_map [OF within_GetLock], where j = 12]
    by (cases "clean_name (rq_project r)") (auto simp: olric_locks_def)
qed

section \<open>Alone on a project\<close>

text \<open>No other request of the pool writes what request \<open>i\<close> is about.\<close>

definition sole_writer :: "nat \<Rightarrow> string \<Rightarrow> api_call list \<Rightarrow> bool" where
  "sole_writer i p cs \<longleftrightarrow>
     (\<forall>j < length cs. j \<noteq> i \<longrightarrow> locks_project (cs ! j) \<noteq> Some p \<and> unlocks_project (cs ! j) \<noteq> Some p)"

lemma finishes:
  assumes "i < length cs" "17 \<le> count_list is i" "h_lockManager h = olric_locks os"
  shows "\<exists>evs. fst (schedule api is (map (serve h) cs, s)) ! i = Ret evs"
  using schedule_finishes [of i "map (serve h) cs" 17 "is" api s] assms within_serve [OF assms(3)] by simp

context olric_node_live
begin

lemma alone:
  assumes h: "h_lockManager h = olric_locks os" and "ready os s" and "i < length cs"
    and "project_of (cs ! i) = Some p" and "sole_writer i p cs" and "17 \<le> count_list is i"
  shows "\<exists>evs t a T. fst (schedule api is (map (serve h) cs, s)) ! i = Ret evs \<and> time_ok t \<and>
    table_step t (cs ! i) (locks view os s) = (a, T) \<and> answers (deliver evs) a \<and>
    locks view os (snd (schedule api is (map (serve h) cs, s))) p = T p"
proof -
  let ?ps = "map (serve h) cs" and ?c = "schedule api is (map (serve h) cs, s)"
  obtain evs where evs: "fst ?c ! i = Ret evs" using finishes assms(3,6) h by blast
  have "only_changes i p ?ps"
    unfolding only_changes_def
  proof (intro allI impI)
    fix j assume "j < length (map (serve h) cs)"
    with assms(5) show "guarded (this_map os) (\<lambda>k _. j \<noteq> i \<longrightarrow> k \<noteq> p) (\<lambda>k. j \<noteq> i \<longrightarrow> k \<noteq> p) (map (serve h) cs ! j)"
      by (auto simp: sole_writer_def intro!: guarded_serve [OF h])
  qed
  with alone_invariant [OF schedule_reaches [of api "(?ps, s)" "is"] this assms(2)] evs assms(3)
  have "(evs, content (snd ?c) p) \<in> outcomes (this_map os) p (serve h (cs ! i)) (content s p)" by auto
  from outcomes_serve [OF h assms(4) this, of "locks view os s"] evs show ?thesis
    by (auto simp: locks_def table_def)
qed

end

end
