(* ===== verification/Probing.thy ===== *)
theory Probing
  imports Isolation
begin

text \<open>
  Probes and lock requests at the same time.  The storage check writes into the map of the locks; a
  pool of requests and probes keeps every promise of \<open>Race\<close> about projects whose name does not look
  like the check's own key.
\<close>

section \<open>What the checks may do to the map\<close>

definition probe_key :: "string \<Rightarrow> bool" where
  "probe_key k \<longleftrightarrow> prefix ''health-check-'' k"

lemma test_key_probe [simp]: "probe_key (test_key t)"
  by (simp add: probe_key_def test_key_def)

text \<open>What is true of every result of a program, whatever answers it gets.\<close>

primrec results :: "('a \<Rightarrow> bool) \<Rightarrow> 'a prog \<Rightarrow> bool" where
  "results R (Ret a) = R a"
| "results R (prog.Load k) = (\<forall>h. results R (k h))"
| "results R (Save h p) = results R p"
| "results R (ClientNewDMap n k) = (\<forall>r. results R (k r))"
| "results R (DMapGet n key k) = (\<forall>r. results R (k r))"
| "results R (DMapPut n key v ttl k) = (\<forall>r. results R (k r))"
| "results R (DMapDelete n key k) = (\<forall>r. results R (k r))"
| "results R (ClientMembers k) = (\<forall>r. results R (k r))"
| "results R (ClientStats n k) = (\<forall>r. results R (k r))"
| "results R (DbShutdown k) = (\<forall>r. results R (k r))"
| "results R (Now k) = (\<forall>t. results R (k t))"

lemma results_True [simp]: "results (\<lambda>_. True) p"
  by (induction p) auto

lemma results_seq: "results Q m \<Longrightarrow> (\<And>a. Q a \<Longrightarrow> results R (f a)) \<Longrightarrow> results R (seq m f)"
  by (induction m) auto

lemma guarded_seq_results:
  "guarded d W D m \<Longrightarrow> results Q m \<Longrightarrow> (\<And>a. Q a \<Longrightarrow> guarded d W D (f a)) \<Longrightarrow> guarded d W D (seq m f)"
  by (induction m) auto

text \<open>A checker that writes at most keys of its own.\<close>

definition harmless :: "olric_store \<Rightarrow> checker \<Rightarrow> bool" where
  "harmless os c \<longleftrightarrow> (\<forall>m. guarded (this_map os) (\<lambda>k _. probe_key k) probe_key (checker_Check m c))"

lemma harmless_package: "harmless os (ServerChecker a)" "harmless os (ReadinessChecker a)"
  by (simp_all add: harmless_def server_Check_def readiness_Check_def Let_def)

lemma harmless_connection: "harmless os (OtherChecker n (connection_Check (NewConnectionHealthChecker (as_Store os))))"
  by (auto simp: harmless_def connection_Check_def NewConnectionHealthChecker_def as_Store_def olric_Ping_def Let_def
      split: option.splits sum.splits)

lemma harmless_cluster: "harmless os (OtherChecker n (cluster_Check (NewClusterHealthChecker (as_Store os) q single)))"
  by (auto simp: harmless_def cluster_Check_def NewClusterHealthChecker_def as_Store_def olric_Stats_def Let_def
      split: option.splits sum.splits list.splits)

lemma guarded_Put:
  assumes "W k v"
  shows "guarded (this_map os) W D (st_Put (as_Store os) k v ttl)"
  using assms by (auto simp: as_Store_def olric_Put_def intro!: guarded_getDMap_seq)

lemma guarded_storage_test:
  assumes "probe_key k"
  shows "guarded (this_map os) (\<lambda>k _. probe_key k) probe_key (storage_test (as_Store os) result k)"
  unfolding storage_test_def
  by (auto intro!: guarded_seq guarded_Put guarded_Get guarded_Delete assms split: option.splits sum.splits)

lemma harmless_storage: "harmless os (OtherChecker n (storage_Check (NewStorageHealthChecker (as_Store os))))"
  by (simp add: harmless_def storage_Check_def NewStorageHealthChecker_def guarded_storage_test)

lemmas harmless_checkers = harmless_package harmless_connection harmless_cluster harmless_storage

section \<open>The probes\<close>

definition harmless_manager :: "olric_store \<Rightarrow> manager \<Rightarrow> bool" where
  "harmless_manager os m \<longleftrightarrow> (\<forall>c \<in> snd ` set (mg_checkers m). harmless os c)"

lemma harmless_setup: "same_setup m m' \<Longrightarrow> harmless_manager os m' = harmless_manager os m"
  using same_setup_fields(1) by (simp add: harmless_manager_def)

lemma runCheck_results: "results (\<lambda>(r, m'). same_setup m m') (runCheck m c)"
proof -
  have get: "results (\<lambda>_. True) (getCachedResult m n)" for n by simp
  have put: "results (same_setup m) (cacheResult m n r)" for n r by (simp add: cacheResult_def same_setup_def)
  show ?thesis
    unfolding runCheck_def Let_def
    by (auto intro!: results_seq [OF get] results_seq [OF results_True] results_seq [OF put] split: option.splits)
qed

lemma guarded_runCheck:
  assumes "harmless os c"
  shows "guarded (this_map os) (\<lambda>k _. probe_key k) probe_key (runCheck m c)"
  using assms
  by (auto simp: runCheck_def Let_def getCachedResult_def cacheResult_def harmless_def
      intro!: guarded_seq split: option.splits)

lemma guarded_CheckAll:
  assumes "harmless_manager os m"
  shows "guarded (this_map os) (\<lambda>k _. probe_key k) probe_key (CheckAll m order)"
  using assms
proof (induction order arbitrary: m)
  case (Cons name order)
  show ?case
  proof (cases "map_of (mg_checkers m) name")
    case (Some c)
    then have "harmless os c" using Cons.prems map_of_SomeD [OF Some] by (force simp: harmless_manager_def)
    moreover have "guarded (this_map os) (\<lambda>k _. probe_key k) probe_key (case a of (result, m') \<Rightarrow>
        seq (CheckAll m' order) (\<lambda>(results, m''). Ret (result # results, m'')))"
      if "case a of (r, m') \<Rightarrow> same_setup m m'" for a
      using that Cons.IH Cons.prems harmless_setup by (auto intro!: guarded_seq split: prod.splits)
    ultimately show ?thesis
      using Some by (auto intro!: guarded_seq_results [OF guarded_runCheck runCheck_results])
  qed (use Cons in simp)
qed simp

text \<open>Requests for locks and probes, as their handlers serve them; each probe with the manager it finds.\<close>

datatype task =
    Request api_call
  | StartupProbe manager "string list"
  | LivenessProbe manager
  | ReadinessProbe manager

definition handler_events :: "(served \<times> 'm) prog \<Rightarrow> http_event list prog" where
  "handler_events p = seq p (\<lambda>(out, _). Ret (events out))"

fun task_prog :: "lock_handlers \<Rightarrow> task \<Rightarrow> http_event list prog" where
  "task_prog h (Request c) = serve h c"
| "task_prog h (StartupProbe m order) =
     handler_events (HealthCheckMetricsMiddleware ''startup'' (handleStartupProbe m order) (probe_request ''startup''))"
| "task_prog h (LivenessProbe m) =
     handler_events (HealthCheckMetricsMiddleware ''liveness'' (handleLivenessProbe m) (probe_request ''live''))"
| "task_prog h (ReadinessProbe m) =
     handler_events (HealthCheckMetricsMiddleware ''readiness'' (handleReadinessProbe m) (probe_request ''ready''))"

fun task_manager :: "task \<Rightarrow> manager option" where
  "task_manager (Request c) = None"
| "task_manager (StartupProbe m order) = Some m"
| "task_manager (LivenessProbe m) = Some m"
| "task_manager (ReadinessProbe m) = Some m"

fun task_locks :: "task \<Rightarrow> string option" where
  "task_locks (Request c) = locks_project c"
| "task_locks _ = None"

fun task_unlocks :: "task \<Rightarrow> string option" where
  "task_unlocks (Request c) = unlocks_project c"
| "task_unlocks _ = None"

lemma guarded_health_handler:
  assumes "guarded d W D (h r)"
  shows "guarded d W D (handler_events (HealthCheckMetricsMiddleware n h r))"
  unfolding handler_events_def HealthCheckMetricsMiddleware_def
  by (auto intro!: guarded_seq assms simp: Let_def split: prod.splits served.splits)

lemma guarded_task:
  assumes "h_lockManager h = olric_locks os"
    and "\<And>m. task_manager t = Some m \<Longrightarrow> harmless_manager os m \<and> mg_readinessChecker m = Some a"
    and "\<And>k v. probe_key k \<Longrightarrow> W k v" and "\<And>k. probe_key k \<Longrightarrow> D k"
    and "\<And>p v. task_locks t = Some p \<Longrightarrow> lock_entry p v \<Longrightarrow> W p v"
    and "\<And>p. task_unlocks t = Some p \<Longrightarrow> D p"
  shows "guarded (this_map os) W D (task_prog h t)"
proof (cases t)
  case (Request c)
  with guarded_serve [OF assms(1), of c W D] assms(5,6) show ?thesis by simp
next
  case (StartupProbe m order)
  with guarded_CheckAll [of os m order] assms(2-4) have "guarded (this_map os) W D (CheckAll m order)"
    by (auto intro: guarded_mono)
  with StartupProbe show ?thesis
    by (auto simp: handleStartupProbe_def GetStartupStatus_def
        intro!: guarded_health_handler guarded_seq split: prod.splits)
next
  case (LivenessProbe m)
  then show ?thesis
    by (auto simp: handleLivenessProbe_def GetLivenessStatus_def intro!: guarded_health_handler)
next
  case (ReadinessProbe m)
  then have "mg_readinessChecker m = Some a" using assms(2) by simp
  moreover have "guarded (this_map os) W D (runCheck m (ReadinessChecker a))"
    using guarded_runCheck [OF harmless_package(2)] assms(3,4) by (rule guarded_mono)
  ultimately show ?thesis
    using ReadinessProbe
    by (auto simp: handleReadinessProbe_def GetReadinessStatus_def
        intro!: guarded_health_handler guarded_seq split: prod.splits)
qed

section \<open>The checks of a booted server\<close>

text \<open>A manager with the checkers of another, whatever its flags and its cache.\<close>

definition same_checks :: "manager \<Rightarrow> manager \<Rightarrow> bool" where
  "same_checks m m' \<longleftrightarrow> mg_checkers m' = mg_checkers m \<and> mg_readinessChecker m' = mg_readinessChecker m"

lemma same_setup_checks: "same_setup m m' \<Longrightarrow> same_checks m m'"
  by (simp add: same_checks_def same_setup_fields)

lemma setters_checks: "same_checks m (SetServersRunning m b)" "same_checks m (SetShuttingDown m b)"
  by (simp_all add: same_checks_def SetServersRunning_def SetShuttingDown_def Let_def split: option.splits)

lemma harmless_booted:
  assumes "run api (NewServer su v cfg info) n = (Booted s cs, n')"
  shows "harmless_manager (srv_store s) (srv_health s)" and "mg_readinessChecker (srv_health s) = Some 0"
proof -
  obtain oc where h: "srv_health s = register_store_checks oc (as_Store (srv_store s)) (base_manager cfg)"
    using NewServer_Booted [OF assms] by metis
  show "harmless_manager (srv_store s) (srv_health s)"
    unfolding h by (auto simp: harmless_manager_def register_store_checks_def base_manager_def RegisterChecker_def
        NewManager_def Let_def harmless_checkers)
  show "mg_readinessChecker (srv_health s) = Some 0"
    using life_ok_booted [OF assms] by (simp add: life_ok_def manager_ok_def)
qed

text \<open>Nothing in the life of a server registers or drops a check, or changes its store.\<close>

lemma Start_store: "server_Start returned s = (e, s') \<Longrightarrow>
    srv_store s' = srv_store s \<and> srv_lockManager s' = srv_lockManager s \<and> same_checks (srv_health s) (srv_health s')"
  using setters_checks(1) by (auto simp: server_Start_def same_checks_def split: list.splits)

lemma Shutdown_store: "run api (server_Shutdown env s) n = ((out, s'), n') \<Longrightarrow>
    srv_store s' = srv_store s \<and> srv_lockManager s' = srv_lockManager s"
  by (auto simp: server_Shutdown_def Let_def Stop_def prog_simps split: prod.splits if_splits)

lemma life_step_checks:
  assumes "life_step api (ph, fl, s, n) (ph', fl', s', n')"
  shows "same_checks (srv_health s) (srv_health s') \<and> srv_store s' = srv_store s \<and>
    srv_lockManager s' = srv_lockManager s"
proof -
  have refl: "same_checks (srv_health s) (srv_health s)" by (simp add: same_checks_def)
  from assms show ?thesis
  proof (rule life_stepE)
    fix name r m n2 assume "(ph', fl', s', n') = (ph, remove1 (name, r) fl, s\<lparr>srv_health := m\<rparr>, n2)"
      "run api (cacheResult (srv_health s) name r) n = (m, n2)"
    then show ?thesis by (auto simp: cacheResult_def same_checks_def)
  next
    fix env out s2 n2 assume "(ph', fl', s', n') = (Draining, fl, s2, n2)" "run api (server_Shutdown env s) n = ((out, s2), n2)"
    with Shutdown_health Shutdown_store setters_checks(2) show ?thesis by fastforce
  qed (use refl Start_store in auto)
qed

lemma life_checks:
  assumes "(life_step api)\<^sup>*\<^sup>* (ph0, fl0, s0, n0) (ph, fl, s, n)"
  shows "same_checks (srv_health s0) (srv_health s) \<and> srv_store s = srv_store s0 \<and>
    srv_lockManager s = srv_lockManager s0"
  by (rule life_induct [OF assms, where P = "\<lambda>ph fl s. same_checks (srv_health s0) (srv_health s) \<and>
      srv_store s = srv_store s0 \<and> srv_lockManager s = srv_lockManager s0"])
    (auto simp: same_checks_def dest!: life_step_checks)

section \<open>Probes keep to their own keys\<close>

text \<open>A pool whose probes find managers of one server, at whatever points of its life.\<close>

definition probes_of :: "server \<Rightarrow> task list \<Rightarrow> bool" where
  "probes_of s ts \<longleftrightarrow> (\<forall>t \<in> set ts. \<forall>m. task_manager t = Some m \<longrightarrow> same_checks (srv_health s) m)"

context olric_node
begin

lemma tasks_invariant:
  assumes "reaches api (map (task_prog h) ts, n) (ps, n')" "h_lockManager h = olric_locks os"
    and "harmless_manager os m0" "mg_readinessChecker m0 = Some a"
    and "\<forall>t \<in> set ts. \<forall>m. task_manager t = Some m \<longrightarrow> same_checks m0 m"
    and "handle_ok os n" "I (content n)"
    and W: "\<And>t p v. t \<in> set ts \<Longrightarrow> task_locks t = Some p \<Longrightarrow> lock_entry p v \<Longrightarrow> W p v"
    and D: "\<And>t p. t \<in> set ts \<Longrightarrow> task_unlocks t = Some p \<Longrightarrow> D p"
    and K: "\<And>k v. probe_key k \<Longrightarrow> W k v" "\<And>k. probe_key k \<Longrightarrow> D k"
    and step: "\<And>m m'. I m \<Longrightarrow> changes W D m m' \<Longrightarrow> I m'"
  shows "I (content n')"
proof -
  have "guarded (this_map os) W D (task_prog h t)" if "t \<in> set ts" for t
  proof (rule guarded_task [where a = a, OF assms(2) _ K])
    fix m assume "task_manager t = Some m"
    with that assms(5) have "same_checks m0 m" by blast
    with assms(3,4) show "harmless_manager os m \<and> mg_readinessChecker m = Some a"
      by (simp add: same_checks_def harmless_manager_def)
  qed (use W D that in auto)
  then show ?thesis using reaches_invariant [OF assms(1), of W D I] assms(6,7) step by (simp add: list_all_iff)
qed

lemma tasks_frame:
  assumes "reaches api (map (task_prog h) ts, n) (ps, n')" "h_lockManager h = olric_locks os"
    and "harmless_manager os m0" "mg_readinessChecker m0 = Some a"
    and "\<forall>t \<in> set ts. \<forall>m. task_manager t = Some m \<longrightarrow> same_checks m0 m"
    and "handle_ok os n" and p: "\<not> probe_key p"
  shows "\<forall>t \<in> set ts. task_unlocks t \<noteq> Some p \<Longrightarrow> locks view os n p \<noteq> Free \<Longrightarrow> locks view os n' p \<noteq> Free"
    and "\<forall>t \<in> set ts. task_locks t \<noteq> Some p \<Longrightarrow> locks view os n p = Free \<Longrightarrow> locks view os n' p = Free"
    and "\<forall>t \<in> set ts. task_locks t \<noteq> Some p \<and> task_unlocks t \<noteq> Some p \<Longrightarrow>
      locks view os n' p = locks view os n p"
proof -
  note inv = tasks_invariant [OF assms(1-6)]
  assume a: "\<forall>t \<in> set ts. task_unlocks t \<noteq> Some p" "locks view os n p \<noteq> Free"
  have "content n' p \<noteq> None"
    by (rule inv [where I = "\<lambda>m. m p \<noteq> None" and W = "\<lambda>_ _. True" and D = "\<lambda>k. k \<noteq> p"])
      (use a p in \<open>auto simp: locks_def table_def changes_def\<close>)
  then show "locks view os n' p \<noteq> Free" by (simp add: locks_def table_def)
next
  note inv = tasks_invariant [OF assms(1-6)]
  assume a: "\<forall>t \<in> set ts. task_locks t \<noteq> Some p" "locks view os n p = Free"
  have "content n' p = None"
    by (rule inv [where I = "\<lambda>m. m p = None" and W = "\<lambda>k _. k \<noteq> p" and D = "\<lambda>_. True"])
      (use a p in \<open>auto simp: locks_def table_def changes_def\<close>)
  then show "locks view os n' p = Free" by (simp add: locks_def table_def)
next
  note inv = tasks_invariant [OF assms(1-6)]
  assume a: "\<forall>t \<in> set ts. task_locks t \<noteq> Some p \<and> task_unlocks t \<noteq> Some p"
  have "content n' p = content n p"
    by (rule inv [where I = "\<lambda>m. m p = content n p" and W = "\<lambda>k _. k \<noteq> p" and D = "\<lambda>k. k \<noteq> p"])
      (use a p in \<open>auto simp: changes_def\<close>)
  then show "locks view os n' p = locks view os n p" by (simp add: locks_def table_def)
qed

end

text \<open>
  C36.  Probes and requests at the same time, on a server that \<open>New\<close> has built and at any points of
  its life.  The storage check writes into the map of the locks; whatever Olric answers and however the
  calls interleave, the probes touch no project whose name does not begin with \<open>health-check-\<close>: such a
  project is freed only if a request of the pool unlocks it, taken only if one locks it, and keeps its
  very slot if none does either.
\<close>

theorem probes_keep_to_their_keys:
  assumes "olric_dmap api view" and "run boot (NewServer su v cfg info) n0 = (Booted s cs, n1)"
    and "handle_ok (srv_store s) n" and "probes_of s ts"
    and "reaches api (map (task_prog (endpoints (srv_store s) dev)) ts, n) (ps, n')" and "\<not> probe_key p"
  shows "((\<forall>t \<in> set ts. task_unlocks t \<noteq> Some p) \<longrightarrow> locks view (srv_store s) n p \<noteq> Free \<longrightarrow>
      locks view (srv_store s) n' p \<noteq> Free) \<and>
    ((\<forall>t \<in> set ts. task_locks t \<noteq> Some p) \<longrightarrow> locks view (srv_store s) n p = Free \<longrightarrow>
      locks view (srv_store s) n' p = Free) \<and>
    ((\<forall>t \<in> set ts. task_locks t \<noteq> Some p \<and> task_unlocks t \<noteq> Some p) \<longrightarrow>
      locks view (srv_store s) n' p = locks view (srv_store s) n p)"
  using olric_node.tasks_frame [OF olric_node.intro [OF assms(1)] assms(5) endpoints_manager harmless_booted [OF assms(2)]
      assms(4) [unfolded probes_of_def] assms(3,6)] by blast

text \<open>A startup probe and a lock request, one move each in turn; nobody touches the project \<open>web\<close>.\<close>

lemma probes_keep_to_their_keys_witness:
  "\<exists>s cs n ps n'. run ref_api (NewServer sample_startup ''go1.24'' sample_config (\<lambda>_. None)) ref_node = (Booted s cs, n) \<and>
    schedule ref_api (concat (replicate 20 [0, 1])) (map (task_prog (endpoints default_store True))
        [StartupProbe (srv_health s) check_names, Request (CallLock (post ''/lock'' sample_body))], ready_node) = (ps, n') \<and>
    locks ref_data default_store n' ''web'' = Free"
proof -
  obtain s cs n where s: "run ref_api (NewServer sample_startup ''go1.24'' sample_config (\<lambda>_. None)) ref_node = (Booted s cs, n)"
    "srv_store s = default_store" by (rule sample_boot)
  define ts where "ts = [StartupProbe (srv_health s) check_names, Request (CallLock (post ''/lock'' sample_body))]"
  define c where "c = (map (task_prog (endpoints default_store True)) ts, ready_node)"
  obtain ps n' where c: "schedule ref_api (concat (replicate 20 [0, 1])) c = (ps, n')" by (metis surj_pair)
  have ts: "probes_of s ts" "\<forall>t \<in> set ts. task_locks t \<noteq> Some ''web''"
    by (simp_all add: ts_def probes_of_def same_checks_def sample_lock_target)
  have key: "\<not> probe_key ''web''" by (simp add: probe_key_def)
  have r: "reaches ref_api c (ps, n')" using schedule_reaches [of ref_api c] c by metis
  from probes_keep_to_their_keys [OF ref_dmap s(1), unfolded s(2), OF ready_node_handle ts(1) r [unfolded c_def] key] ts(2)
  have "locks ref_data default_store n' ''web'' = Free" by (simp add: ready_node_free)
  with s(1) c show ?thesis unfolding c_def ts_def by blast
qed

text \<open>The exception is real: what the check writes is a key that a project may have for its name.\<close>

lemma probe_key_is_a_name: "clean_name ''health-check-1735689600000000000'' = Some ''health-check-1735689600000000000''"
  by (rule clean_name_fixed) code_simp+

end
