(* ===== verification/Service.thy ===== *)
theory Service
  imports Server Probing
begin

text \<open>
  The program: \<open>cmd/service/main.go\<close> and \<open>internal/logger/logger.go\<close>.  The flags and their bindings to
  viper's keys are data; \<open>runServer\<close> is the way up, to a service that waits for its signal, and the
  way down.  Cobra, viper and zap are the libraries' own.
\<close>

section \<open>Flags\<close>

datatype flag_value = FSetting setting | FDuration int

definition Flags :: "(string \<times> flag_value) list" where
  "Flags = [
     (''api-port'', FSetting (SInt 8080)),
     (''api-host'', FSetting (SString ''0.0.0.0'')),
     (''probe-port'', FSetting (SInt 8081)),
     (''probe-host'', FSetting (SString ''0.0.0.0'')),
     (''metrics-port'', FSetting (SInt 9090)),
     (''metrics-host'', FSetting (SString ''0.0.0.0'')),
     (''tls-enabled'', FSetting (SBool False)),
     (''tls-cert'', FSetting (SString [])),
     (''tls-key'', FSetting (SString [])),
     (''log-level'', FSetting (SString ''info'')),
     (''log-format'', FSetting (SString ''json'')),
     (''shutdown-timeout'', FDuration (30 * Second)),
     (''health-check-timeout'', FDuration (5 * Second)),
     (''health-cache-duration'', FDuration (10 * Second)),
     (''olric-host'', FSetting (SString DefaultBindAddr)),
     (''olric-port'', FSetting (SInt DefaultBindPort)),
     (''olric-advertise-addr'', FSetting (SString DefaultAdvertiseAddr)),
     (''olric-advertise-port'', FSetting (SInt DefaultAdvertisePort)),
     (''olric-memberlist-bind-port'', FSetting (SInt DefaultMemberlistBindPort)),
     (''olric-join-addrs'', FSetting (SStrings [])),
     (''olric-replication-mode'', FSetting (SString DefaultReplicationMode)),
     (''olric-replication-factor'', FSetting (SInt DefaultReplicationFactor)),
     (''olric-partition-count'', FSetting (SInt DefaultPartitionCount)),
     (''olric-backup-count'', FSetting (SInt DefaultBackupCount)),
     (''olric-backup-mode'', FSetting (SString DefaultBackupMode)),
     (''olric-member-count-quorum'', FSetting (SInt DefaultMemberCountQuorum)),
     (''olric-join-retry-interval'', FDuration DefaultJoinRetryInterval),
     (''olric-max-join-attempts'', FSetting (SInt DefaultMaxJoinAttempts)),
     (''olric-log-level'', FSetting (SString [])),
     (''olric-keep-alive-period'', FDuration DefaultKeepAlivePeriod),
     (''olric-request-timeout'', FDuration DefaultRequestTimeout),
     (''olric-dmap-name'', FSetting (SString DefaultDMapName))]"

definition BindPFlags :: "(string \<times> string) list" where
  "BindPFlags = [
     (''api.port'', ''api-port''),
     (''api.host'', ''api-host''),
     (''probe.port'', ''probe-port''),
     (''probe.host'', ''probe-host''),
     (''metrics.port'', ''metrics-port''),
     (''metrics.host'', ''metrics-host''),
     (''tls.enabled'', ''tls-enabled''),
     (''tls.cert'', ''tls-cert''),
     (''tls.key'', ''tls-key''),
     (''log.level'', ''log-level''),
     (''log.format'', ''log-format''),
     (''shutdown.timeout'', ''shutdown-timeout''),
     (''health.check_timeout'', ''health-check-timeout''),
     (''health.cache_duration'', ''health-cache-duration''),
     (''olric.host'', ''olric-host''),
     (''olric.port'', ''olric-port''),
     (''olric.advertise_addr'', ''olric-advertise-addr''),
     (''olric.advertise_port'', ''olric-advertise-port''),
     (''olric.memberlist_bind_port'', ''olric-memberlist-bind-port''),
     (''olric.join_addrs'', ''olric-join-addrs''),
     (''olric.replication_mode'', ''olric-replication-mode''),
     (''olric.replication_factor'', ''olric-replication-factor''),
     (''olric.partition_count'', ''olric-partition-count''),
     (''olric.backup_count'', ''olric-backup-count''),
     (''olric.backup_mode'', ''olric-backup-mode''),
     (''olric.member_count_quorum'', ''olric-member-count-quorum''),
     (''olric.join_retry_interval'', ''olric-join-retry-interval''),
     (''olric.max_join_attempts'', ''olric-max-join-attempts''),
     (''olric.log_level'', ''olric-log-level''),
     (''olric.keep_alive_period'', ''olric-keep-alive-period''),
     (''olric.request_timeout'', ''olric-request-timeout''),
     (''olric.dmap_name'', ''olric-dmap-name'')]"

text \<open>A default of \<open>Load\<close> and one of a flag that come to the same setting.\<close>

fun same_default :: "setting \<Rightarrow> flag_value \<Rightarrow> bool" where
  "same_default s (FSetting s') = (s = s')"
| "same_default (SString t) (FDuration d) = (time_ParseDuration t = Inr d)"
| "same_default _ (FDuration d) = False"

section \<open>The logger\<close>

record zap =
  zap_UnmarshalText :: "string \<Rightarrow> go_error option"
  zap_Build :: "bool \<Rightarrow> string \<Rightarrow> go_error option"

text \<open>The configuration is production's for the format \<open>json\<close>, development's otherwise.\<close>

definition logger_New :: "zap \<Rightarrow> string \<Rightarrow> string \<Rightarrow> go_error option" where
  "logger_New z level format = (case zap_UnmarshalText z level of
     Some err \<Rightarrow> Some (Wrap ''invalid log level'' err)
   | None \<Rightarrow> (case zap_Build z (format = ''json'') level of
       Some err \<Rightarrow> Some (Wrap ''failed to build logger'' err)
     | None \<Rightarrow> None))"

section \<open>Running\<close>

text \<open>What the linker or the source gives to the three variables of the build.\<close>

record build =
  bd_version :: string
  bd_commit :: string
  bd_date :: string
  bd_goVersion :: string

definition dev_build :: build where
  "dev_build = \<lparr>bd_version = ''dev'', bd_commit = ''none'', bd_date = ''unknown'', bd_goVersion = ''go1.24''\<rparr>"

definition build_info :: "build \<Rightarrow> string \<Rightarrow> string option" where
  "build_info b = [''version'' \<mapsto> bd_version b, ''commit'' \<mapsto> bd_commit b, ''date'' \<mapsto> bd_date b]"

datatype run_outcome = Up server | Down go_error | Pending | Crash

text \<open>
  \<open>Start\<close> waits for 100 milliseconds before it looks for errors and marks the servers as running; the
  listeners are open by then.  \<open>window\<close>: what they are asked meanwhile.
\<close>

datatype activity = AskReadiness | AskStartup "string list" | AskLock api_call

fun act :: "activity \<Rightarrow> server \<Rightarrow> server prog" where
  "act AskReadiness s = seq (GetReadinessStatus (srv_health s)) (\<lambda>(_, m). Ret (s\<lparr>srv_health := m\<rparr>))"
| "act (AskStartup order) s = seq (GetStartupStatus (srv_health s) order) (\<lambda>(_, m). Ret (s\<lparr>srv_health := m\<rparr>))"
| "act (AskLock c) s = seq (serve (NewLockHandlers (srv_lockManager s) True) c) (\<lambda>_. Ret s)"

fun acts :: "activity list \<Rightarrow> server \<Rightarrow> server prog" where
  "acts [] s = Ret s"
| "acts (a # as) s = seq (act a s) (acts as)"

definition runServer_up ::
    "viper \<Rightarrow> zap \<Rightarrow> build \<Rightarrow> startup \<Rightarrow> activity list \<Rightarrow> (which \<times> go_error option) list \<Rightarrow> run_outcome prog" where
  "runServer_up v z b su window returned = (case Load v of
     Inl err \<Rightarrow> Ret (Down (Wrap ''failed to load configuration'' err))
   | Inr cfg \<Rightarrow> (case logger_New z (cfg_LogLevel cfg) (LogFormat cfg) of
       Some err \<Rightarrow> Ret (Down (Wrap ''failed to initialize logger'' err))
     | None \<Rightarrow> seq (NewServer su (bd_goVersion b) cfg (build_info b)) (\<lambda>r. case r of
         Failed err \<Rightarrow> Ret (Down (Wrap ''failed to create server'' err))
       | Waiting \<Rightarrow> Ret Pending
       | NilPointer \<Rightarrow> Ret Crash
       | Booted srv _ \<Rightarrow> seq (acts window srv) (\<lambda>srv. Ret (case server_Start returned srv of
           (Some err, _) \<Rightarrow> Down (Wrap ''failed to start server'' err)
         | (None, srv') \<Rightarrow> Up srv')))))"

text \<open>After the signal: \<open>Shutdown\<close>'s own error is the program's.\<close>

definition runServer_down :: "shutdown_env \<Rightarrow> server \<Rightarrow> (shutdown_outcome \<times> server) prog" where
  "runServer_down env srv = server_Shutdown env srv"

text \<open>
  The whole of \<open>runServer\<close>.  \<open>service\<close> is what happens to the running server until the signal comes,
  with \<open>None\<close> for a signal that never does.
\<close>

datatype run_end = Returns "go_error option" | Stays | Panics

definition runServer ::
    "viper \<Rightarrow> zap \<Rightarrow> build \<Rightarrow> startup \<Rightarrow> activity list \<Rightarrow> (which \<times> go_error option) list \<Rightarrow>
     (server \<Rightarrow> server option prog) \<Rightarrow> shutdown_env \<Rightarrow> run_end prog" where
  "runServer v z b su window returned service env = seq (runServer_up v z b su window returned) (\<lambda>r. case r of
     Down err \<Rightarrow> Ret (Returns (Some err))
   | Pending \<Rightarrow> Ret Stays
   | Crash \<Rightarrow> Ret Panics
   | Up srv \<Rightarrow> seq (service srv) (\<lambda>signal. case signal of
       None \<Rightarrow> Ret Stays
     | Some srv \<Rightarrow> seq (runServer_down env srv) (\<lambda>(out, _). Ret (case out of
         Done r \<Rightarrow> Returns r
       | Hangs \<Rightarrow> Stays
       | CloseOfClosedChannel \<Rightarrow> Panics))))"

text \<open>
  The commands.  What Cobra makes of the arguments is a parameter.  Of the output only what the
  code writes itself is modelled, not Cobra's own messages; a panic exits with 2.
\<close>

datatype command = RootCommand | VersionCommand

type_synonym cobra = "string list \<Rightarrow> go_error + command"

definition newline :: string where "newline = [CHR 0x0A]"

definition version_output :: "build \<Rightarrow> string" where
  "version_output b = ''Version: '' @ bd_version b @ newline @ ''Commit:  '' @ bd_commit b @ newline @
     ''Built:   '' @ bd_date b @ newline"

record process_end =
  px_code :: int
  px_stdout :: string
  px_stderr :: string

definition exit_code :: "go_error option \<Rightarrow> int" where
  "exit_code err = (case err of Some _ \<Rightarrow> 1 | None \<Rightarrow> 0)"

definition main_end :: "go_error option \<Rightarrow> string \<Rightarrow> process_end" where
  "main_end err out = \<lparr>px_code = exit_code err, px_stdout = out,
     px_stderr = (case err of None \<Rightarrow> [] | Some e \<Rightarrow> ''Error: '' @ Error e @ newline)\<rparr>"

definition service_main :: "cobra \<Rightarrow> string list \<Rightarrow> build \<Rightarrow> run_end prog \<Rightarrow> process_end option prog" where
  "service_main cobra args b root = (case cobra args of
     Inl err \<Rightarrow> Ret (Some (main_end (Some err) []))
   | Inr VersionCommand \<Rightarrow> Ret (Some (main_end None (version_output b)))
   | Inr RootCommand \<Rightarrow> seq root (\<lambda>r. Ret (case r of
       Returns err \<Rightarrow> Some (main_end err [])
     | Stays \<Rightarrow> None
     | Panics \<Rightarrow> Some \<lparr>px_code = 2, px_stdout = [], px_stderr = ''panic''\<rparr>)))"

text \<open>The other command of the repository, \<open>cmd/client\<close>, is a line of output.\<close>

definition client_main :: process_end where
  "client_main = main_end None (''Client application'' @ newline)"

section \<open>What the program promises\<close>

text \<open>
  Flags and defaults agree.  Every key that \<open>Load\<close> gives a default is bound to one flag, no two
  keys share one, and the flag's own default is the same setting, a duration flag's the duration
  that the default's text parses to.
\<close>

theorem flags_agree:
  "map fst BindPFlags = map fst SetDefaults \<and> map snd BindPFlags = map fst Flags \<and>
   distinct (map fst SetDefaults) \<and> distinct (map fst Flags) \<and>
   list_all2 same_default (map snd SetDefaults) (map snd Flags)"
  using default_keys_distinct default_durations parse_samples
  by (simp add: BindPFlags_def SetDefaults_def Flags_def)

section \<open>What a server is asked\<close>

text \<open>Nothing that a server is asked takes its store off its map, whatever the clock shows.\<close>

primrec keeps_map :: "string \<Rightarrow> 'a prog \<Rightarrow> bool" where
  "keeps_map d (Ret a) = True"
| "keeps_map d (prog.Load k) = (\<forall>h. keeps_map d (k h))"
| "keeps_map d (Save h p) = (h = Some d \<and> keeps_map d p)"
| "keeps_map d (ClientNewDMap n k) = (\<forall>r. keeps_map d (k r))"
| "keeps_map d (DMapGet n key k) = (\<forall>r. keeps_map d (k r))"
| "keeps_map d (DMapPut n key v ttl k) = (\<forall>r. keeps_map d (k r))"
| "keeps_map d (DMapDelete n key k) = (\<forall>r. keeps_map d (k r))"
| "keeps_map d (ClientMembers k) = (\<forall>r. keeps_map d (k r))"
| "keeps_map d (ClientStats n k) = (\<forall>r. keeps_map d (k r))"
| "keeps_map d (DbShutdown k) = (\<forall>r. keeps_map d (k r))"
| "keeps_map d (Now k) = (\<forall>t. keeps_map d (k t))"

lemma keeps_map_seq: "keeps_map d m \<Longrightarrow> (\<And>a. keeps_map d (f a)) \<Longrightarrow> keeps_map d (seq m f)"
  by (induction m) auto

lemma keeps_map_seq_results:
  "keeps_map d m \<Longrightarrow> results Q m \<Longrightarrow> (\<And>a. Q a \<Longrightarrow> keeps_map d (f a)) \<Longrightarrow> keeps_map d (seq m f)"
  by (induction m) auto

lemma keeps_map_run: "keeps_map d p \<Longrightarrow> dmap n = Some d \<Longrightarrow> dmap (snd (run api p n)) = Some d"
  by (induction p arbitrary: n) (auto simp: call_def split: prod.splits)

lemma keeps_map_getDMap: "keeps_map (this_map os) (getDMap os)"
  by (auto simp: getDMap_def split: option.splits)

lemma keeps_map_store:
  "keeps_map (this_map os) (st_Put (as_Store os) k v ttl)" "keeps_map (this_map os) (st_Get (as_Store os) k)"
  "keeps_map (this_map os) (st_Delete (as_Store os) k)" "keeps_map (this_map os) (st_PutIfAbsent (as_Store os) k v ttl)"
  "keeps_map (this_map os) (st_Ping (as_Store os))" "keeps_map (this_map os) (st_Stats (as_Store os))"
  by (auto simp: as_Store_def olric_Put_def olric_Get_def olric_Delete_def olric_PutIfAbsent_def olric_Ping_def
      olric_Stats_def and_then_def Let_def intro!: keeps_map_seq keeps_map_getDMap
      split: sum.splits option.splits list.splits)

lemma keeps_map_locks:
  "keeps_map (this_map os) (lm_AcquireLock (olric_locks os) p b w)"
  "keeps_map (this_map os) (lm_ReleaseLock (olric_locks os) p b w)"
  "keeps_map (this_map os) (lm_GetLock (olric_locks os) p)"
  by (auto simp: olric_locks_def AcquireLock_def create_lock_def ReleaseLock_def GetLock_def Let_def
      intro!: keeps_map_seq keeps_map_store split: sum.splits)

lemma keeps_map_serve:
  assumes "h_lockManager h = olric_locks os"
  shows "keeps_map (this_map os) (serve h c)"
  using assms
  by (cases c) (auto simp: HandleLock_def HandleUnlock_def HandleGetLock_def Let_def
      intro!: keeps_map_seq keeps_map_locks split: option.splits)

definition keeps_checker :: "olric_store \<Rightarrow> checker \<Rightarrow> bool" where
  "keeps_checker os c \<longleftrightarrow> (\<forall>m. keeps_map (this_map os) (checker_Check m c))"

lemma keeps_checkers:
  "keeps_checker os (ServerChecker a)" "keeps_checker os (ReadinessChecker a)"
  "keeps_checker os (OtherChecker n (connection_Check (NewConnectionHealthChecker (as_Store os))))"
  "keeps_checker os (OtherChecker n (cluster_Check (NewClusterHealthChecker (as_Store os) q single)))"
  "keeps_checker os (OtherChecker n (storage_Check (NewStorageHealthChecker (as_Store os))))"
  by (auto simp: keeps_checker_def server_Check_def readiness_Check_def connection_Check_def NewConnectionHealthChecker_def
      cluster_Check_def NewClusterHealthChecker_def storage_Check_def NewStorageHealthChecker_def storage_test_def Let_def
      intro!: keeps_map_seq keeps_map_store split: option.splits sum.splits)

lemma keeps_map_runCheck: "keeps_checker os c \<Longrightarrow> keeps_map (this_map os) (runCheck m c)"
  by (auto simp: runCheck_def Let_def getCachedResult_def cacheResult_def keeps_checker_def
      intro!: keeps_map_seq split: option.splits)

definition keeps_manager :: "olric_store \<Rightarrow> manager \<Rightarrow> bool" where
  "keeps_manager os m \<longleftrightarrow> (\<forall>c \<in> snd ` set (mg_checkers m). keeps_checker os c)"

lemma keeps_map_CheckAll:
  assumes "keeps_manager os m"
  shows "keeps_map (this_map os) (CheckAll m order)"
  using assms
proof (induction order arbitrary: m)
  case (Cons name order)
  show ?case
  proof (cases "map_of (mg_checkers m) name")
    case (Some c)
    then have "keeps_checker os c" using Cons.prems map_of_SomeD [OF Some] by (force simp: keeps_manager_def)
    moreover have "keeps_map (this_map os) (case a of (result, m') \<Rightarrow>
        seq (CheckAll m' order) (\<lambda>(results, m''). Ret (result # results, m'')))"
      if "case a of (r, m') \<Rightarrow> same_setup m m'" for a
      using that Cons.IH Cons.prems same_setup_fields(1)
      by (auto simp: keeps_manager_def intro!: keeps_map_seq split: prod.splits)
    ultimately show ?thesis
      using Some by (auto intro!: keeps_map_seq_results [OF keeps_map_runCheck runCheck_results])
  qed (use Cons in simp)
qed simp

lemma act_ready:
  assumes "srv_lockManager s = olric_locks (srv_store s)" "keeps_manager (srv_store s) (srv_health s)"
    and "mg_readinessChecker (srv_health s) = Some 0" "ready (srv_store s) n"
  shows "ready (srv_store s) (snd (run api (act a s) n))"
proof -
  have "keeps_map (this_map (srv_store s)) (act a s)"
  proof (cases a)
    case AskReadiness
    with assms(3) show ?thesis
      by (auto simp: GetReadinessStatus_def intro!: keeps_map_seq keeps_map_runCheck keeps_checkers split: prod.splits)
  next
    case (AskStartup order)
    with assms(2) show ?thesis
      by (auto simp: GetStartupStatus_def intro!: keeps_map_seq keeps_map_CheckAll split: prod.splits)
  next
    case (AskLock c)
    then show ?thesis by (auto simp: NewLockHandlers_def assms(1) intro!: keeps_map_seq keeps_map_serve)
  qed
  then show ?thesis using assms(4) by (auto simp: ready_def intro: keeps_map_run)
qed

text \<open>Each is a sequence of steps of a life.\<close>

lemma CheckAll_life:
  assumes "list_all (\<lambda>(n, c). checker_Name c = n) (mg_checkers (srv_health s))"
    and "run api (CheckAll (srv_health s) order) n = ((rs, m), n')"
  shows "(life_step api)\<^sup>*\<^sup>* (ph, fl, s, n) (ph, fl, s\<lparr>srv_health := m\<rparr>, n')"
  using assms
proof (induction order arbitrary: s n rs)
  case Nil
  then show ?case by auto
next
  case (Cons name order)
  show ?case
  proof (cases "map_of (mg_checkers (srv_health s)) name")
    case None
    with Cons show ?thesis by simp
  next
    case (Some c)
    then have name: "checker_Name c = name"
      using Cons.prems(1) map_of_SomeD [OF Some] by (auto simp: list_all_iff)
    obtain r m1 n1 where r: "run api (runCheck (srv_health s) c) n = ((r, m1), n1)" by (metis surj_pair)
    obtain rs1 m2 n2 where rs: "run api (CheckAll m1 order) n1 = ((rs1, m2), n2)" by (metis surj_pair)
    have "(life_step api)\<^sup>*\<^sup>* (ph, fl, s, n) (ph, fl, s\<lparr>srv_health := m1\<rparr>, n1)"
      by (rule runCheck_life [OF _ r]) (simp add: name Some)
    moreover have "mg_checkers m1 = mg_checkers (srv_health s)"
      using runCheck_frame [OF r] same_setup_fields(1) by blast
    then have "(life_step api)\<^sup>*\<^sup>* (ph, fl, s\<lparr>srv_health := m1\<rparr>, n1) (ph, fl, s\<lparr>srv_health := m2\<rparr>, n2)"
      using Cons.IH [of "s\<lparr>srv_health := m1\<rparr>" n1 rs1] Cons.prems Some r rs by (auto simp: prog_simps)
    moreover have "m = m2" "n' = n2" using Cons.prems(2) Some r rs by (auto simp: prog_simps)
    ultimately show ?thesis by (meson rtranclp_trans)
  qed
qed

lemma act_life:
  assumes "life_ok ph s" "run api (act a s) n = (s', n')"
  shows "(life_step api)\<^sup>*\<^sup>* (ph, fl, s, n) (ph, fl, s', n')"
proof -
  have ok: "manager_ok ph (srv_health s)" using assms(1) by (simp add: life_ok_def)
  have any: "(life_step api)\<^sup>*\<^sup>* (ph, fl, s, n1) (ph, fl, s, n2)" for s n1 n2 by (blast intro: life_step.Requests)
  show ?thesis
  proof (cases a)
    case AskReadiness
    obtain r m n1 where r: "run api (runCheck (srv_health s) (ReadinessChecker 0)) n = ((r, m), n1)" by (metis surj_pair)
    have "(life_step api)\<^sup>*\<^sup>* (ph, fl, s, n) (ph, fl, s\<lparr>srv_health := m\<rparr>, n1)"
      by (rule runCheck_life [OF _ r]) (use ok in \<open>simp add: manager_ok_def\<close>)
    moreover have "s' = s\<lparr>srv_health := m\<rparr> \<and> n' = n1"
      using AskReadiness assms(2) r ok by (auto simp: GetReadinessStatus_def manager_ok_def prog_simps)
    ultimately show ?thesis by simp
  next
    case (AskStartup order)
    obtain rs m n1 where r: "run api (CheckAll (srv_health s) order) n = ((rs, m), n1)" by (metis surj_pair)
    have "(life_step api)\<^sup>*\<^sup>* (ph, fl, s, n) (ph, fl, s\<lparr>srv_health := m\<rparr>, n1)"
      by (rule CheckAll_life [OF _ r]) (use ok in \<open>simp add: manager_ok_def\<close>)
    moreover have "s' = s\<lparr>srv_health := m\<rparr>"
      using AskStartup assms(2) r by (auto simp: run_GetStartupStatus prog_simps)
    ultimately show ?thesis by (simp add: rtranclp_trans [OF _ any])
  next
    case (AskLock c)
    with assms(2) have "s' = s" by (auto simp: prog_simps split: prod.splits)
    with any show ?thesis by simp
  qed
qed

text \<open>What a server that \<open>New\<close> has built is, whatever it has been asked since.\<close>

definition asked_ok :: "server \<Rightarrow> 'w node \<Rightarrow> server \<Rightarrow> bool" where
  "asked_ok s0 n s \<longleftrightarrow> life_ok Fresh s \<and> srv_cfg s = srv_cfg s0 \<and> srv_store s = srv_store s0 \<and>
     srv_lockManager s = olric_locks (srv_store s) \<and> keeps_manager (srv_store s) (srv_health s) \<and>
     mg_readinessChecker (srv_health s) = Some 0 \<and> ready (srv_store s) n"

lemma act_cfg: "run api (act a s) n = (s', n') \<Longrightarrow> srv_cfg s' = srv_cfg s"
  by (cases a) (auto simp: prog_simps split: prod.splits)

lemma act_asked:
  assumes "asked_ok s0 n s" "run api (act a s) n = (s', n')"
  shows "asked_ok s0 n' s'"
proof -
  have life: "(life_step api)\<^sup>*\<^sup>* (Fresh, [], s, n) (Fresh, [], s', n')"
    using assms by (intro act_life) (auto simp: asked_ok_def)
  have "life_ok Fresh s'" using life_invariant [OF life] assms(1) by (simp add: asked_ok_def)
  moreover have "same_checks (srv_health s) (srv_health s')" "srv_store s' = srv_store s"
    "srv_lockManager s' = srv_lockManager s"
    using life_checks [OF life] by auto
  moreover have "ready (srv_store s) n'"
    using act_ready [of s n api a] assms unfolding asked_ok_def by (metis snd_conv)
  ultimately show ?thesis
    using assms(1) act_cfg [OF assms(2)] unfolding asked_ok_def same_checks_def keeps_manager_def by metis
qed

lemma acts_asked:
  assumes "asked_ok s0 n s" "run api (acts as s) n = (s', n')"
  shows "asked_ok s0 n' s' \<and> (life_step api)\<^sup>*\<^sup>* (Fresh, fl, s, n) (Fresh, fl, s', n')"
  using assms
proof (induction as arbitrary: s n)
  case (Cons a as)
  obtain s1 n1 where a: "run api (act a s) n = (s1, n1)" by (metis surj_pair)
  with Cons.prems have "run api (acts as s1) n1 = (s', n')" by (simp add: prog_simps)
  moreover have "(life_step api)\<^sup>*\<^sup>* (Fresh, fl, s, n) (Fresh, fl, s1, n1)"
    using Cons.prems(1) a by (intro act_life) (auto simp: asked_ok_def)
  ultimately show ?case using Cons.IH [OF act_asked [OF Cons.prems(1) a]] by (meson rtranclp_trans)
qed simp

lemma acts_locks_only: "\<forall>a \<in> set as. \<exists>c. a = AskLock c \<Longrightarrow> fst (run api (acts as s) n) = s"
  by (induction as arbitrary: s n) (auto simp: prog_simps split: prod.splits)

lemma booted_asked:
  assumes "run api (NewServer su v cfg info) n = (Booted s cs, n')" "dmap n = None"
  shows "asked_ok s n' s" "srv_cfg s = cfg" "mg_cache (srv_health s) = (\<lambda>_. None)"
proof -
  obtain oc where b: "srv_cfg s = cfg" "srv_health s = register_store_checks oc (as_Store (srv_store s)) (base_manager cfg)"
    using NewServer_Booted [OF assms(1)] by metis
  have "keeps_manager (srv_store s) (srv_health s)"
    unfolding b(2) by (auto simp: keeps_manager_def register_store_checks_def base_manager_def RegisterChecker_def
        NewManager_def Let_def keeps_checkers)
  then show "asked_ok s n' s"
    using booted [OF assms] harmless_booted(2) [OF assms(1)] life_ok_booted [OF assms(1)] by (auto simp: asked_ok_def)
  show "srv_cfg s = cfg" "mg_cache (srv_health s) = (\<lambda>_. None)" using b by (simp_all add: booted_cache)
qed

text \<open>The readiness probe of a server that has just started: negative only if it repeats itself.\<close>

lemma started_readiness:
  assumes "life_ok Fresh s" "server_Start returned s = (None, s')"
  shows "rd_Ready (fst (fst (run api (GetReadinessStatus (srv_health s')) n))) =
    (cache_hit (srv_health s') ''readiness'' (clock api n) = None)"
proof (cases "cache_hit (srv_health s') ''readiness'' (clock api n)")
  case None
  have "manager_ok Running (srv_health s')"
    using Start_ok [OF assms] by (simp add: life_ok_def max_def less_eq_phase_def)
  with readiness_by_phase [of Running "srv_health s'" api n] None show ?thesis by simp
next
  case (Some r)
  have s': "s' = s\<lparr>srv_health := SetServersRunning (srv_health s) True\<rparr>"
    using start_reports [of returned s] assms(2) by auto
  have "mg_readinessChecker (srv_health s') = Some 0" "mg_cache (srv_health s') = mg_cache (srv_health s)"
    using assms(1) by (auto simp: s' SetServersRunning_def Let_def life_ok_def manager_ok_def split: option.splits)
  moreover from this(2) Some have "cr_Status r = StatusNotReady"
    using assms(1) by (auto simp: cache_hit_def life_ok_def manager_ok_def cached_status_def split: option.splits if_splits)
  ultimately show ?thesis using run_GetReadinessStatus [of "srv_health s'" 0 api n] Some by auto
qed

lemma NewServer_no_crash:
  "Olric cfg = Some oc \<Longrightarrow> fst (run api (NewServer su v cfg info) n) \<noteq> NilPointer"
  by (auto simp: NewServer_def NewMetrics_def prog_simps Let_def split: option.splits sum.splits prod.splits)

lemma up_life:
  assumes "run api (runServer_up v z b su window returned) n = (Up s, n1)"
  obtains cfg s0 cs n0 s1 where "Load v = Inr cfg" "run api (NewServer su (bd_goVersion b) cfg (build_info b)) n = (Booted s0 cs, n0)"
    "run api (acts window s0) n0 = (s1, n1)" "server_Start returned s1 = (None, s)"
proof -
  obtain cfg where cfg: "Load v = Inr cfg" using assms by (cases "Load v") (simp_all add: runServer_up_def)
  have z: "logger_New z (cfg_LogLevel cfg) (LogFormat cfg) = None"
    using assms cfg by (cases "logger_New z (cfg_LogLevel cfg) (LogFormat cfg)") (simp_all add: runServer_up_def)
  obtain r n' where r: "run api (NewServer su (bd_goVersion b) cfg (build_info b)) n = (r, n')" by (meson surj_pair)
  with assms cfg z obtain s0 cs where b: "r = Booted s0 cs"
    by (cases r) (auto simp: runServer_up_def prog_simps)
  obtain s1 n2 where w: "run api (acts window s0) n' = (s1, n2)" by (metis surj_pair)
  with assms cfg z r b have "n2 = n1" "server_Start returned s1 = (None, s)"
    by (auto simp: runServer_up_def prog_simps split: prod.splits option.splits)
  with that cfg r b w show thesis by blast
qed

lemma no_crash:
  "fst (run api (runServer_up v z b su window returned) n) \<noteq> Crash"
proof (cases "Load v")
  case (Inr cfg)
  then obtain oc where oc: "Olric cfg = Some oc" using Load_Inr by (auto simp: reads_def)
  show ?thesis
  proof (cases "logger_New z (cfg_LogLevel cfg) (LogFormat cfg)")
    case None
    obtain r n1 where r: "run api (NewServer su (bd_goVersion b) cfg (build_info b)) n = (r, n1)" by (meson surj_pair)
    with NewServer_no_crash [OF oc, of api su "bd_goVersion b" "build_info b" n] Inr None show ?thesis
      by (cases r) (auto simp: runServer_up_def prog_simps split: prod.splits option.splits)
  qed (use Inr in \<open>simp add: runServer_up_def\<close>)
qed (simp add: runServer_up_def)

text \<open>
  C24.  A service that is up has loaded a valid configuration and runs on a store that has started.
  Its readiness probe is then positive, unless one that came while \<open>Start\<close> was waiting has left its
  negative result in the cache, which is repeated until it expires; without such a probe it is positive
  at once.  The program never runs into the missing Olric configuration that \<open>server.New\<close> does not
  check for.
\<close>

theorem service_up:
  assumes "dmap n = None"
  shows "fst (run api (runServer_up v z b su window returned) n) \<noteq> Crash \<and>
    (\<forall>s n'. run api (runServer_up v z b su window returned) n = (Up s, n') \<longrightarrow>
      Load v = Inr (srv_cfg s) \<and> service_ok (srv_cfg s) \<and> ready (srv_store s) n' \<and>
      (\<forall>(w, r) \<in> set returned. r = None \<or> r = Some ErrServerClosed) \<and>
      (\<forall>n2. rd_Ready (fst (fst (run api (GetReadinessStatus (srv_health s)) n2))) =
        (cache_hit (srv_health s) ''readiness'' (clock api n2) = None)) \<and>
      ((\<forall>a \<in> set window. \<exists>c. a = AskLock c) \<longrightarrow>
        rd_Ready (fst (fst (run api (GetReadinessStatus (srv_health s)) n')))))"
proof -
  have "Load v = Inr (srv_cfg s) \<and> service_ok (srv_cfg s) \<and> ready (srv_store s) n' \<and>
      (\<forall>(w, r) \<in> set returned. r = None \<or> r = Some ErrServerClosed) \<and>
      (\<forall>n2. rd_Ready (fst (fst (run api (GetReadinessStatus (srv_health s)) n2))) =
        (cache_hit (srv_health s) ''readiness'' (clock api n2) = None)) \<and>
      ((\<forall>a \<in> set window. \<exists>c. a = AskLock c) \<longrightarrow> mg_cache (srv_health s) = (\<lambda>_. None))"
    if up: "run api (runServer_up v z b su window returned) n = (Up s, n')" for s n'
  proof -
    obtain cfg s0 cs n0 s1 where u: "Load v = Inr cfg" "run api (NewServer su (bd_goVersion b) cfg (build_info b)) n = (Booted s0 cs, n0)"
      "run api (acts window s0) n0 = (s1, n')" "server_Start returned s1 = (None, s)"
      using up by (rule up_life)
    note b = booted_asked [OF u(2) assms]
    have a: "asked_ok s0 n' s1" using acts_asked [OF b(1) u(3)] by blast
    have s: "s = s1\<lparr>srv_health := SetServersRunning (srv_health s1) True\<rparr>"
        "\<forall>(w, r) \<in> set returned. r = None \<or> r = Some ErrServerClosed"
      using start_reports [of returned s1] u(4) by auto
    have "mg_cache (srv_health s) = mg_cache (srv_health s1)"
      by (simp add: s(1) SetServersRunning_def Let_def split: option.splits)
    then have "mg_cache (srv_health s) = (\<lambda>_. None)" if "\<forall>a \<in> set window. \<exists>c. a = AskLock c"
      using acts_locks_only [OF that, of api s0 n0] u(3) b(3) by simp
    moreover have "life_ok Fresh s1" "ready (srv_store s) n'" "srv_cfg s = cfg" "service_ok cfg"
      using a b(2) u(1) Load_Inr by (auto simp: asked_ok_def s(1))
    ultimately show ?thesis using started_readiness [OF _ u(4), of api] s(2) u(1) by auto
  qed
  moreover have "cache_hit m k now = None" if "mg_cache m = (\<lambda>_. None)" for m k now
    using that by (simp add: cache_hit_def)
  ultimately show ?thesis using no_crash [of api v z b su window returned n] by (metis (no_types, lifting))
qed

definition ok_zap :: zap where
  "ok_zap = \<lparr>zap_UnmarshalText = (\<lambda>_. None), zap_Build = (\<lambda>_ _. None)\<rparr>"

lemma default_boots:
  obtains s cs n where "run ref_api (NewServer sample_startup ''go1.24'' default_service (build_info dev_build)) ref_node =
      (Booted s cs, n)"
proof -
  have d: "dmap ref_node = None" by (simp add: ref_node_def)
  have o: "Olric default_service = Some (NewDefaultOlricConfig\<lparr>LogLevel := ''INFO''\<rparr>)"
    by (simp add: default_service_def)
  have v: "valid_config (NewDefaultOlricConfig\<lparr>LogLevel := ''INFO''\<rparr>)"
    "IsSingleNode (NewDefaultOlricConfig\<lparr>LogLevel := ''INFO''\<rparr>)"
    using default_service_ok o by (simp_all add: service_ok_def IsSingleNode_def NewDefaultOlricConfig_def)
  show thesis by (rule sample_boots [OF d o v]) (rule that)
qed

lemma sample_up:
  obtains s n where "run ref_api (runServer_up default_viper ok_zap dev_build sample_startup window []) ref_node = (Up s, n)"
proof -
  obtain s cs n where s: "run ref_api (NewServer sample_startup ''go1.24'' default_service (build_info dev_build)) ref_node =
      (Booted s cs, n)"
    by (rule default_boots)
  obtain s1 n1 where "run ref_api (acts window s) n = (s1, n1)" by (metis surj_pair)
  with s have "fst (run ref_api (runServer_up default_viper ok_zap dev_build sample_startup window []) ref_node) =
      Up (snd (server_Start [] s1))"
    by (simp add: runServer_up_def default_viper_loads logger_New_def ok_zap_def prog_simps dev_build_def
        server_Start_def start_errors_def)
  then show thesis using that by (metis prod.collapse)
qed

text \<open>A probe in the window: the service is up and its readiness probe is negative.\<close>

lemma up_repeats:
  assumes "run ref_api (runServer_up default_viper ok_zap dev_build sample_startup [AskReadiness] []) ref_node = (Up s, n)"
  shows "cache_hit (srv_health s) ''readiness'' (clock ref_api n) \<noteq> None"
proof -
  have d: "dmap ref_node = None" by (simp add: ref_node_def)
  obtain cfg s0 cs n0 s1 where u: "Load default_viper = Inr cfg"
    "run ref_api (NewServer sample_startup (bd_goVersion dev_build) cfg (build_info dev_build)) ref_node = (Booted s0 cs, n0)"
    "run ref_api (acts [AskReadiness] s0) n0 = (s1, n)" "server_Start [] s1 = (None, s)"
    using assms by (rule up_life)
  note b = booted_asked [OF u(2) d]
  obtain oc os where "srv_health s0 = register_store_checks oc (as_Store os) (base_manager cfg)"
    using NewServer_Booted [OF u(2)] by metis
  then have dur: "mg_cacheDuration (srv_health s0) = 10 * Second"
    using u(1) default_viper_loads
    by (auto simp: register_store_checks_def base_manager_def RegisterChecker_def NewManager_def Let_def default_service_def)
  have "mg_readinessChecker (srv_health s0) = Some 0" using b(1) by (simp add: asked_ok_def)
  moreover obtain r m n1 where r: "run ref_api (runCheck (srv_health s0) (ReadinessChecker 0)) n0 = ((r, m), n1)" by (metis surj_pair)
  ultimately have s1: "s1 = s0\<lparr>srv_health := m\<rparr>" "n = n1"
    using u(3) by (auto simp: GetReadinessStatus_def prog_simps)
  have miss: "cache_hit (srv_health s0) (checker_Name (ReadinessChecker 0)) (clock ref_api n0) = None"
    by (simp add: cache_hit_def b(3))
  obtain n2 where n2: "n1 = tick ref_api n2"
    "mg_cache m ''readiness'' = Some \<lparr>cc_result = r, cc_expiresAt = time_Add (clock ref_api n2) (10 * Second)\<rparr>"
    by (rule runCheck_lifetime [OF r miss]) (auto simp: dur)
  have "mg_cache (srv_health s) = mg_cache m"
    using u(4) by (auto simp: server_Start_def start_errors_def s1(1) SetServersRunning_def Let_def split: option.splits)
  then show ?thesis by (simp add: cache_hit_def s1(2) n2 Before_Add ref_clock_tick)
qed

lemma service_up_witness:
  "(\<exists>s n. run ref_api (runServer_up default_viper ok_zap dev_build sample_startup [] []) ref_node = (Up s, n) \<and>
     ready (srv_store s) n \<and> rd_Ready (fst (fst (run ref_api (GetReadinessStatus (srv_health s)) n)))) \<and>
   (\<exists>s n. run ref_api (runServer_up default_viper ok_zap dev_build sample_startup [AskReadiness] []) ref_node = (Up s, n) \<and>
     \<not> rd_Ready (fst (fst (run ref_api (GetReadinessStatus (srv_health s)) n))))"
proof -
  have d: "dmap ref_node = None" by (simp add: ref_node_def)
  obtain s n where s: "run ref_api (runServer_up default_viper ok_zap dev_build sample_startup [] []) ref_node = (Up s, n)"
    by (rule sample_up)
  obtain s' n' where s': "run ref_api (runServer_up default_viper ok_zap dev_build sample_startup [AskReadiness] []) ref_node = (Up s', n')"
    by (rule sample_up)
  note up = service_up [OF d, of ref_api default_viper ok_zap dev_build sample_startup _ "[]"]
  have "ready (srv_store s) n \<and> rd_Ready (fst (fst (run ref_api (GetReadinessStatus (srv_health s)) n)))"
    using up [of "[]"] s by auto
  moreover have "\<not> rd_Ready (fst (fst (run ref_api (GetReadinessStatus (srv_health s')) n')))"
    using up [of "[AskReadiness]"] s' up_repeats [OF s'] by auto
  ultimately show ?thesis using s s' by blast
qed

section \<open>Metrics never panic\<close>

lemma dec_nat_utf8: "valid_utf8 (dec_nat n)"
proof (rule valid_utf8_ascii, induction n rule: dec_nat.induct)
  case (1 n)
  then show ?case by (subst dec_nat.simps) auto
qed

lemma Itoa_utf8: "0 \<le> i \<Longrightarrow> valid_utf8 (strconv_Itoa i)"
  by (simp add: strconv_Itoa_def dec_nat_utf8)

lemma serve_labels:
  "list_all (\<lambda>c. list_all valid_utf8 (call_labels c)) (metric_calls (fst (run api (serve h c) s)))"
proof -
  have "valid_utf8 (lock_outcome code)" "valid_utf8 (get_outcome code)" for code
    by (simp_all add: lock_outcome_def get_outcome_def valid_utf8_ascii)
  then have "list_all (\<lambda>c. list_all valid_utf8 (call_labels c)) (counted h op out)"
    if "op \<in> {''lock'', ''unlock'', ''get''}" "out \<in> range lock_outcome \<union> range get_outcome" for op out
    using that by (auto simp: counted_def valid_utf8_ascii)
  moreover have "\<exists>op \<in> {''lock'', ''unlock'', ''get''}. \<exists>out \<in> range lock_outcome \<union> range get_outcome.
      metric_calls (fst (run api (serve h c) s)) = counted h op out"
    using HandleLock_replies HandleUnlock_replies HandleGetLock_replies by (cases c) (simp; blast)+
  ultimately show ?thesis by auto
qed

lemma serve_status: "0 \<le> status_of (fst (run api (serve h c) s))"
proof -
  have "status_of (fst (run api (serve h c) s)) \<in> {200, 400, 404, 409, 500}"
    using HandleLock_replies HandleUnlock_replies HandleGetLock_replies by (cases c) (simp; blast)+
  then show ?thesis by auto
qed

lemma MetricsMiddleware_accepted:
  "accepted (register ns) (metric_calls (events (fst (fst (run api (MetricsMiddleware (plain_handler (serve h \<circ> kind)) r) s))))) =
     (valid_utf8 (rq_Method r) \<and> valid_utf8 (getRoutePattern r))"
proof -
  obtain evs s' where e: "run api (serve h (kind r)) (tick api s) = (evs, s')" by (meson surj_pair)
  have "json_shape evs" using serve_json_shape [of api h "kind r" "tick api s"] e by simp
  then have st: "rw_statusCode (recorded evs) = status_of evs" using recorded_json_shape [of evs] by (simp add: status_of_def)
  obtain op out where "metric_calls evs = counted h op out" using serve_calls [of api h "kind r" "tick api s"] e by auto
  moreover have "list_all (\<lambda>c. list_all valid_utf8 (call_labels c)) (metric_calls evs)" "valid_utf8 (strconv_Itoa (status_of evs))"
    using serve_labels [of api h "kind r" "tick api s"] Itoa_utf8 [OF serve_status [of api h "kind r" "tick api s"]] e by auto
  ultimately show ?thesis
    by (auto simp: MetricsMiddleware_def plain_handler_def prog_simps Let_def e st accepted_def counted_def)
qed

lemma own_calls_accepted:
  "accepted (register ns) (updateMetrics evs)"
  "n \<in> {''startup'', ''liveness'', ''readiness''} \<Longrightarrow> accepted (register ns) (health_calls n code d t)"
proof -
  have "list_all (\<lambda>c. call_labels c = []) (updateMetrics evs)"
    by (induction evs rule: updateMetrics.induct) (auto simp: UpdateRuntimeMetrics_def)
  then show "accepted (register ns) (updateMetrics evs)"
    using updateMetrics_ok by (auto simp: accepted_def list_all_iff)
  show "n \<in> {''startup'', ''liveness'', ''readiness''} \<Longrightarrow> accepted (register ns) (health_calls n code d t)"
    by (auto simp: health_calls_def accepted_def valid_utf8_ascii)
qed

lemma accepted_Olric:
  "accepted (register ns) cs \<Longrightarrow> accepted (NewOlricMetrics ns (register ns)) cs"
  "accepted (map Metric (olric_metrics ns)) cs \<Longrightarrow> accepted (NewOlricMetrics ns (register ns)) cs"
  unfolding accepted_def NewOlricMetrics_def using well_used_append_left well_used_append_right by blast+

lemma NewServer_calls:
  assumes "run api (NewServer su v cfg info) n = (Booted s cs, n')"
  shows "\<exists>now. cs = [SetTo ''app_info'' [build_value info ''version'', build_value info ''commit'',
      build_value info ''date'', v] (Num 1), SetTo ''app_start_time_seconds'' [] (Num now)]"
  using assms
  by (auto simp: NewServer_def NewMetrics_def prog_simps Let_def split: option.splits sum.splits prod.splits)

text \<open>All requests of the API's middleware: labels that the service adds itself are UTF-8.\<close>

lemma Middleware_accepted:
  assumes "ds = NewOlricMetrics ns (register ns)"
  shows "accepted ds (metric_calls (events (fst (fst (run api (MetricsMiddleware (plain_handler (serve h \<circ> kind)) r) s))))) =
     (valid_utf8 (rq_Method r) \<and> valid_utf8 (getRoutePattern r))"
proof
  assume "accepted ds (metric_calls (events (fst (fst (run api (MetricsMiddleware (plain_handler (serve h \<circ> kind)) r) s)))))"
  then show "valid_utf8 (rq_Method r) \<and> valid_utf8 (getRoutePattern r)"
    by (auto simp: MetricsMiddleware_def plain_handler_def prog_simps Let_def accepted_def split: prod.splits)
qed (use accepted_Olric(1) MetricsMiddleware_accepted assms in blast)

text \<open>
  C39.  The one registry of a server that \<open>New\<close> has built took every collector without a panic, the two
  of the library included, and none of the service's calls on a metric panics: those of \<open>New\<close>, of
  the runtime's and Olric's collectors, of the probes' middleware, and of the API's for a request
  whose method and path are UTF-8; for any other request it does panic.
\<close>

theorem metrics_never_panic:
  assumes "library_ok lib" and "Load v = Inr cfg"
    and "run api (NewServer su (bd_goVersion b) cfg (build_info b)) n = (Booted s cs, n')"
    and "list_all valid_utf8 [bd_version b, bd_commit b, bd_date b, bd_goVersion b]"
  shows "register_all lib (srv_storeMetrics s) [] = Some (srv_storeMetrics s) \<and>
    accepted (srv_storeMetrics s) (cs @ updateMetrics evs @ fst (run api (collect (srv_store s)) n1)) \<and>
    (\<forall>name \<in> {''startup'', ''liveness'', ''readiness''}. \<forall>code d t. accepted (srv_storeMetrics s) (health_calls name code d t)) \<and>
    accepted (srv_storeMetrics s) (metric_calls (events (fst (fst (run api
        (MetricsMiddleware (plain_handler (serve (NewLockHandlers (srv_lockManager s) True) \<circ> kind)) r) n2))))) =
      (valid_utf8 (rq_Method r) \<and> valid_utf8 (getRoutePattern r))"
proof -
  have ns: "MetricsNamespace cfg = ''deployment_lock''" using Load_Inr [OF assms(2)] by (simp add: reads_def)
  have metrics: "srv_storeMetrics s = NewOlricMetrics ''deployment_lock'' (register ''deployment_lock'')"
    using NewServer_Booted [OF assms(3)] ns by metis
  obtain now where "cs = [SetTo ''app_info'' [bd_version b, bd_commit b, bd_date b, bd_goVersion b] (Num 1),
      SetTo ''app_start_time_seconds'' [] (Num now)]"
    using NewServer_calls [OF assms(3)] by (auto simp: build_value_def build_info_def)
  then have "accepted (register ''deployment_lock'') cs" using assms(4) by (simp add: accepted_def)
  then have "accepted (srv_storeMetrics s) (cs @ updateMetrics evs @ fst (run api (collect (srv_store s)) n1))"
    unfolding metrics accepted_append using accepted_Olric own_calls_accepted(1) collect_accepted by blast
  moreover have "accepted (srv_storeMetrics s) (health_calls name code d t)"
    if "name \<in> {''startup'', ''liveness'', ''readiness''}" for name code d t
    unfolding metrics using accepted_Olric(1) own_calls_accepted(2) [OF that] by blast
  ultimately show ?thesis
    using registers [OF assms(1)] Middleware_accepted [OF metrics] unfolding metrics by simp
qed

text \<open>Two collectors of the library, for the witness.\<close>

definition sample_library :: library where
  "sample_library = \<lparr>lib_go = [desc Gauge [] ''go_goroutines'' ''Number of goroutines that currently exist.'' [] NoBuckets],
     lib_process = [desc Gauge [] ''process_open_fds'' ''Number of open file descriptors.'' [] NoBuckets]\<rparr>"

lemma metrics_never_panic_witness:
  "\<exists>s cs n. run ref_api (NewServer sample_startup ''go1.24'' default_service (build_info dev_build)) ref_node = (Booted s cs, n) \<and>
     register_all sample_library (srv_storeMetrics s) [] = Some (srv_storeMetrics s) \<and> accepted (srv_storeMetrics s) cs"
proof -
  obtain s cs n where s: "run ref_api (NewServer sample_startup ''go1.24'' default_service (build_info dev_build)) ref_node =
      (Booted s cs, n)"
    by (rule default_boots)
  have lib: "library_ok sample_library" by code_simp
  have utf8: "list_all valid_utf8 [bd_version dev_build, bd_commit dev_build, bd_date dev_build, bd_goVersion dev_build]"
    by (simp add: dev_build_def valid_utf8_ascii)
  have "run ref_api (NewServer sample_startup (bd_goVersion dev_build) default_service (build_info dev_build)) ref_node =
      (Booted s cs, n)"
    using s by (simp add: dev_build_def)
  from metrics_never_panic [OF lib default_viper_loads this utf8, of "[]"] s show ?thesis by auto
qed

section \<open>The end of the process\<close>

lemma sent_errors_none:
  assumes "set (sd_order env) = {API, MetricsEndpoint, OlricStore}"
  shows "sent_errors env closed = [] \<longleftrightarrow> (\<forall>w. part_result env closed w = None)"
proof -
  have "shutdown_error w r = [] \<longleftrightarrow> r = None" for w r by (auto simp: shutdown_error_def split: option.splits)
  moreover have "(\<forall>w. P w) \<longleftrightarrow> (\<forall>w \<in> {API, MetricsEndpoint, OlricStore}. P w) \<and> P Probe" for P :: "which \<Rightarrow> bool"
    by (metis (full_types) insertI1 insertI2 which.exhaust)
  ultimately show ?thesis
    unfolding sent_errors_def by (simp add: assms [symmetric])
qed

text \<open>What the end of a service that was up comes to.\<close>

lemma service_end:
  assumes "life_ok Running s" "set (sd_order env) = {API, MetricsEndpoint, OlricStore}"
    and "run api (runServer_down env s) n = ((out, s'), n')"
  obtains r where "out = Done r"
    "r = None \<longleftrightarrow> (\<forall>w. part_result env (fst (run api (olric_Close (srv_store s)) n)) w = None)"
proof -
  obtain closed n1 where c: "run api (olric_Close (srv_store s)) n = (closed, n1)" by (meson surj_pair)
  have "out = Done (case sent_errors env closed of [] \<Rightarrow> None | err # _ \<Rightarrow> Some err)"
    using Shutdown_first [OF assms(1), of api env n] assms(3) c by (auto simp: runServer_down_def)
  with that sent_errors_none [OF assms(2), of closed] c show thesis by (fastforce split: list.splits)
qed

lemma up_running:
  assumes "run api (runServer_up v z b su window returned) n = (Up s, n1)" "dmap n = None"
  shows "life_ok Running s"
proof -
  obtain cfg s0 cs n0 s1 where u: "run api (NewServer su (bd_goVersion b) cfg (build_info b)) n = (Booted s0 cs, n0)"
    "run api (acts window s0) n0 = (s1, n1)" "server_Start returned s1 = (None, s)"
    using assms(1) by (rule up_life)
  have "life_ok Fresh s1" using acts_asked [OF booted_asked(1) [OF u(1) assms(2)] u(2)] by (auto simp: asked_ok_def)
  from Start_ok [OF this u(3)] show ?thesis by (simp add: max_def less_eq_phase_def)
qed

text \<open>
  C25.  How the process ends.  The service never panics, whatever its settings, the library and the
  listeners do: it exits with 1 and an error, or with 0 and none; and with 0 only after the server
  was up, served until the signal, and all four of its parts closed without an error.
\<close>

theorem main_exits:
  assumes "dmap n = None" and "cobra args = Inr RootCommand"
    and "\<And>s n1 s' n2. run api (service s) n1 = (Some s', n2) \<Longrightarrow>
      \<exists>fl fl'. (life_step api)\<^sup>*\<^sup>* (Running, fl, s, n1) (Running, fl', s', n2)"
    and "set (sd_order env) = {API, MetricsEndpoint, OlricStore}"
    and "run api (service_main cobra args b (runServer v z b su window returned service env)) n = (Some px, n')"
  shows "px_code px = (if px_stderr px = [] then 0 else 1) \<and>
    (px_code px = 0 \<longrightarrow> (\<exists>s n1 s' n2. run api (runServer_up v z b su window returned) n = (Up s, n1) \<and>
      run api (service s) n1 = (Some s', n2) \<and>
      (\<forall>w. part_result env (fst (run api (olric_Close (srv_store s')) n2)) w = None)))"
proof -
  have ends: "px_code (main_end e out) = (if px_stderr (main_end e out) = [] then 0 else 1)" for e out
    by (auto simp: main_end_def exit_code_def split: option.splits)
  obtain r n3 where r: "run api (runServer v z b su window returned service env) n = (r, n3)" by (meson surj_pair)
  have px: "(case r of Returns err \<Rightarrow> Some (main_end err []) | Stays \<Rightarrow> None
      | Panics \<Rightarrow> Some \<lparr>px_code = 2, px_stdout = [], px_stderr = ''panic''\<rparr>) = Some px"
    using assms(2,5) r by (simp add: service_main_def prog_simps)
  obtain u n1 where u: "run api (runServer_up v z b su window returned) n = (u, n1)" by (meson surj_pair)
  show ?thesis
  proof (cases u)
    case (Down err)
    with r u have "r = Returns (Some err)" by (simp add: runServer_def prog_simps)
    with px have "px = main_end (Some err) []" by simp
    then show ?thesis using ends by (simp add: main_end_def exit_code_def newline_def)
  next
    case Pending
    with r u px show ?thesis by (simp add: runServer_def prog_simps)
  next
    case Crash
    with no_crash [of api v z b su window returned n] u show ?thesis by simp
  next
    case (Up s)
    obtain sig n2 where sig: "run api (service s) n1 = (sig, n2)" by (meson surj_pair)
    show ?thesis
    proof (cases sig)
      case None
      with r u Up sig px show ?thesis by (simp add: runServer_def prog_simps)
    next
      case (Some s')
      obtain out s2 n4 where d: "run api (runServer_down env s') n2 = ((out, s2), n4)" by (metis surj_pair)
      have "life_ok Running s" by (rule up_running [OF u [unfolded Up] assms(1)])
      moreover obtain fl fl' where "(life_step api)\<^sup>*\<^sup>* (Running, fl, s, n1) (Running, fl', s', n2)"
        using assms(3) [OF sig [unfolded Some]] by blast
      ultimately have "life_ok Running s'" using life_invariant by (fastforce simp: flight_ok_def)
      from service_end [OF this assms(4) d] obtain e where e: "out = Done e"
        "e = None \<longleftrightarrow> (\<forall>w. part_result env (fst (run api (olric_Close (srv_store s')) n2)) w = None)" by blast
      have "r = Returns e" using r u Up sig Some d e(1) by (simp add: runServer_def prog_simps)
      with px have "px = main_end e []" by simp
      moreover have "px_code (main_end e []) = 0 \<longleftrightarrow> e = None"
        by (simp add: main_end_def exit_code_def split: option.splits)
      ultimately show ?thesis using ends e(2) u Up sig Some by auto
    qed
  qed
qed

lemma main_exits_witness:
  "\<exists>px n'. run ref_api (service_main (\<lambda>_. Inr RootCommand) [] dev_build (runServer default_viper ok_zap dev_build
      sample_startup [] [] (\<lambda>s. Ret (Some s)) \<lparr>sd_api = Some (New ''timeout''), sd_metrics = None, sd_probe = None,
        sd_order = [API, MetricsEndpoint, OlricStore]\<rparr>)) ref_node = (Some px, n') \<and> px_code px = 1"
proof -
  let ?env = "\<lparr>sd_api = Some (New ''timeout''), sd_metrics = None, sd_probe = None,
    sd_order = [API, MetricsEndpoint, OlricStore]\<rparr>"
  let ?root = "runServer default_viper ok_zap dev_build sample_startup [] [] (\<lambda>s. Ret (Some s)) ?env"
  let ?main = "service_main (\<lambda>_. Inr RootCommand) [] dev_build ?root"
  have d: "dmap ref_node = None" by (simp add: ref_node_def)
  have serve: "\<exists>fl fl'. (life_step ref_api)\<^sup>*\<^sup>* (Running, fl, s, n1) (Running, fl', s', n2)"
    if "run ref_api (Ret (Some s)) n1 = (Some s', n2)" for s n1 s' n2
    using that by (intro exI [of _ "[]"]) simp
  have order: "set (sd_order ?env) = {API, MetricsEndpoint, OlricStore}" by simp
  obtain s n where up: "run ref_api (runServer_up default_viper ok_zap dev_build sample_startup [] []) ref_node = (Up s, n)"
    by (rule sample_up)
  have life: "life_ok Running s" by (rule up_running [OF up d])
  obtain out s2 n' where down: "run ref_api (runServer_down ?env s) n = ((out, s2), n')" by (metis surj_pair)
  from service_end [OF life order down] obtain r where "out = Done r" by blast
  with up down have main: "run ref_api ?main ref_node = (Some (main_end r []), n')"
    by (simp add: service_main_def runServer_def prog_simps)
  note ends = main_exits [where cobra = "\<lambda>_. Inr RootCommand", OF d refl serve order main]
  have "px_code (main_end r []) \<noteq> 0"
  proof
    assume "px_code (main_end r []) = 0"
    with ends obtain c where "\<forall>w. part_result ?env c w = None" by blast
    then have "part_result ?env c API = None" by (rule spec)
    then show False by simp
  qed
  moreover have "px_code (main_end r []) \<in> {0, 1}" using ends by (simp split: if_splits)
  ultimately have "px_code (main_end r []) = 1" by simp
  with main show ?thesis by blast
qed

end
