(* ===== verification/Spec2Isabelle.thy ===== *)
theory Spec2Isabelle
  imports Endpoints Replies Sessions Isolation Probing GoNet Startup Clock Health StoreHealth Metrics StoreMetrics Middleware GoDuration
    Config Routes Server Service
begin

text \<open>
  The deployment-lock service: a verification development.

  The program (Go, under \<open>src/\<close>) is an HTTP service that holds one deployment lock for each project.
  \<open>POST /lock\<close> takes the lock of a project for a branch, \<open>POST /unlock\<close> frees it and
  \<open>GET /lock/{project}\<close> reports it.  The locks live, as JSON, in a distributed map of the library
  Olric that is embedded in the process.  Around this are a server for the probes of Kubernetes, one
  for the metrics of Prometheus, and the configuration.

  Effects.  A piece of Go code that calls Olric or reads the clock is a \<open>prog\<close> (\<open>Effects\<close>), a tree
  with one node for each call; \<open>run\<close> gives its result and the node it leaves, for any
  implementation \<open>api\<close> of the library.  What the code relies on of Olric are the laws of the locales
  \<open>olric_dmap\<close> (it may fail at any time, but does not lie) and \<open>olric_live\<close> (it does not fail);
  \<open>OlricRef\<close> shows that they can hold and witnesses run on it.  Since a \<open>prog\<close> is a tree, requests
  can be interleaved call by call (\<open>Race\<close>).  HTTP replies and calls on metrics are lists of events
  (\<open>Http\<close>); a panic is an outcome (\<open>Middleware\<close>).

  Theories and the code they model:
  \<^item> \<open>GoBase\<close>, \<open>GoTime\<close>, \<open>GoDuration\<close>, \<open>GoNet\<close>, \<open>Json\<close>: what is used of Go's standard library (strings,
    errors, UTF-8, \<open>time\<close>, \<open>net.ParseIP\<close>, \<open>encoding/json\<close>), with the lemmas the components share.
  \<^item> \<open>LockModel\<close>: \<open>internal/model/lock.go\<close>, the data and its JSON form, with the round trip.
  \<^item> \<open>StoreConfig\<close>, \<open>OlricStore\<close>, \<open>Startup\<close>: \<open>internal/store/config.go\<close>, \<open>store.go\<close>, \<open>olric.go\<close>.
    \<open>StoreContract\<close> states what the interface \<open>Store\<close> promises as the locale \<open>kv_store\<close> and proves it of
    the code over Olric.
  \<^item> \<open>Storage\<close>, \<open>StorageContract\<close>: \<open>internal/storage/storage.go\<close>, the lock manager; the locales
    \<open>lock_service\<close> and \<open>lock_live\<close> are its contract, a table of slots, proved from \<open>kv_store\<close>.
  \<^item> \<open>Handlers\<close>: \<open>internal/handlers/lock.go\<close>, over any lock service.
  \<^item> \<open>Race\<close>: any number of requests in flight at once; \<open>Endpoints\<close>: the handlers over Olric, and the
    requests the witnesses send.
  \<^item> \<open>Replies\<close>: what every reply is made of.  \<open>Sessions\<close>: the table machine, which is the abstract
    service, and sequences of requests through the router.  \<open>Isolation\<close>: schedules of overlapping
    requests, and when they cannot be told from the table machine.  \<open>Probing\<close>: pools of requests and
    probes, whose storage check writes into the map of the locks.
  \<^item> \<open>Clock\<close>, \<open>Health\<close>, \<open>StoreHealth\<close>: \<open>internal/health/\<close> and \<open>internal/store/health.go\<close>.
  \<^item> \<open>Metrics\<close>, \<open>StoreMetrics\<close>, \<open>Middleware\<close>: \<open>internal/metrics/metrics.go\<close>,
    \<open>internal/store/metrics.go\<close>, \<open>internal/middleware/metrics.go\<close>.
  \<^item> \<open>Config\<close>: \<open>internal/config/config.go\<close>, over a parameter for viper.
  \<^item> \<open>Routes\<close>, \<open>Server\<close>: \<open>internal/server/\<close>; the router chi is a parameter.  The life of a server is
    the step relation \<open>life_step\<close>: checks run and their results are cached later, \<open>Start\<close> and
    \<open>Shutdown\<close> are called at any time and in any order, until a call panics.
  \<^item> \<open>Service\<close>: \<open>cmd/service/main.go\<close>, \<open>cmd/client/main.go\<close> and \<open>internal/logger/logger.go\<close>.  What the
    listeners are asked while \<open>Start\<close> waits is an argument, \<open>window\<close>.

  What is shown.  C1--C6: the three endpoints, one request at a time, up to the HTTP reply.  C7, C8: a
  server that \<open>New\<close> has built, asked through its router, refines the table machine, and holds a
  project for one branch at a time when requests do not overlap.  C9--C14: requests that overlap: mutual
  exclusion fails; a request alone on its project is served as if it were alone, every request ends,
  every reply is well formed, the map stays tidy and no request touches another project.  C15, C16:
  validation and counting.  C17, C18: requests and probes through routers and middlewares.  C19--C25:
  construction, life and end of the service and of the process.  C26--C29: configuration.  C30--C32:
  start-up of the store.  C33--C38: health checks and their cache.  C39: registering and calling the
  metrics, with the panics of Prometheus' client.  C40: the collector of Olric's metrics.  Lemmas beside
  these: \<open>flags_agree\<close>, \<open>Validate_exact\<close>, \<open>WaitForServers_ends\<close>, \<open>start_reports\<close>, \<open>lock_handover\<close>,
  \<open>pause_is_latest\<close>, \<open>coordinator_gauge\<close>, \<open>in_flight_balanced\<close>, \<open>recoverer_answers\<close>, \<open>metrics_endpoint\<close>.

  Bounds and fuel.  A Go \<open>int\<close> is unbounded here (the values it holds are lengths, ports and
  counts); where the code converts to a narrower type the model uses words (\<open>uint64\<close> partitions, the
  \<open>int32\<close> quorum, the \<open>uint32\<close> of garbage collections, the \<open>int64\<close> of \<open>UnixNano\<close>).  Durations and instants
  are integers of nanoseconds.  \<open>waitForCluster\<close> runs on the events of its \<open>select\<close>, of which
  \<open>MaxJoinAttempts\<close> are enough (C31); \<open>WaitForServers\<close> has fuel for its rounds, of which the
  timeout over the distance of two readings of the clock is enough (\<open>WaitForServers_ends\<close>).  A
  schedule of requests needs seventeen moves of a request for it to be done: five for each look at
  the map, one for the clock, six for \<open>PutIfAbsent\<close> (\<open>within_serve\<close>).

  Not modelled: log lines; the values of Prometheus' metrics beyond the calls made on them; TLS and
  sockets, whose results are arguments; contexts, whose deadlines show as failures of the calls they
  are given to; the lock of \<open>getDMap\<close> and the caches' mutexes, each of which protects a step that is
  atomic here.  \<open>CheckAll\<close> runs the checks of one probe one after the other, in any order; that they
  overlap with other probes and with \<open>Start\<close> and \<open>Shutdown\<close> is in \<open>life_step\<close>.  A request whose path is
  not UTF-8 makes a label on which Prometheus' client panics (C39); the theorems about the API's router
  leave it out.  What Cobra makes of the arguments, and what happens until the signal comes, are
  arguments.
\<close>

section \<open>What the endpoints guarantee\<close>

text \<open>
  C1.  A \<open>POST /lock\<close> that answers 200 leaves the project held by the requested branch: either the
  project was free and the stored lock carries the request's project and branch, or the branch held
  it already.  No other project's slot changes.  (\<open>HandleLock\<close>, \<open>AcquireLock\<close>, \<open>PutIfAbsent\<close>,
  over any Olric that keeps the laws of \<open>olric_dmap\<close>.)
\<close>

theorem lock_granted:
  assumes "olric_dmap api view" and "ready os s"
    and "run api (HandleLock (endpoints os m) r) s = (evs, s')" and "rs_code (deliver evs) = Some 200"
  shows "\<exists>p b l. lock_target r = Some (p, b) \<and> locks view os s' p = Held l \<and> Branch l = b \<and>
    Owner l = owner \<and> (locks view os s p = Held l \<or> locks view os s p = Free \<and> Project l = p) \<and>
    keeps_others (locks view os s) (locks view os s') p"
  by (rule lock_service.HandleLock_200 [OF olric_lock_service [OF assms(1)] endpoints_manager assms(2-4)])

lemma lock_granted_witness:
  "\<exists>evs s' l. run ref_api (HandleLock (endpoints default_store True) (post ''/lock'' sample_body)) ready_node
     = (evs, s') \<and> rs_code (deliver evs) = Some 200 \<and>
     locks ref_data default_store s' ''api'' = Held l \<and> Branch l = ''feat/x''"
proof -
  obtain evs s' where r: "run ref_api (HandleLock (endpoints default_store True)
      (post ''/lock'' sample_body)) ready_node = (evs, s')" "rs_code (deliver evs) = Some 200"
    using sample_lock_run by blast
  from lock_granted [OF ref_dmap ready_ready_node r] r show ?thesis
    by (auto simp: sample_lock_target)
qed

text \<open>
  C2.  A \<open>POST /lock\<close> that answers 409 changes nothing: the project was held by another branch or
  owner, and the reply carries that very lock.
\<close>

theorem lock_conflict:
  assumes "olric_dmap api view" and "ready os s"
    and "run api (HandleLock (endpoints os m) r) s = (evs, s')" and "rs_code (deliver evs) = Some 409"
  shows "\<exists>p b l. lock_target r = Some (p, b) \<and> locks view os s p = Held l \<and>
    (Branch l \<noteq> b \<or> Owner l \<noteq> owner) \<and> locks view os s' = locks view os s \<and>
    deliver evs = deliver (respondLock 409 ''locked'' ''Lock held by another branch'' (Some l))"
  by (rule lock_service.HandleLock_409 [OF olric_lock_service [OF assms(1)] endpoints_manager assms(2-4)])

lemma lock_conflict_witness:
  "\<exists>s evs s' l. run ref_api (HandleLock (endpoints default_store True) (post ''/lock'' main_body)) s = (evs, s') \<and>
     rs_code (deliver evs) = Some 409 \<and> locks ref_data default_store s ''api'' = Held l \<and> Branch l = ''feat/x'' \<and>
     locks ref_data default_store s' = locks ref_data default_store s"
proof -
  obtain s evs s' l where r: "ready default_store s" "locks ref_data default_store s ''api'' = Held l"
      "Branch l = ''feat/x''" "run ref_api (HandleLock (endpoints default_store True)
      (post ''/lock'' main_body)) s = (evs, s')" "rs_code (deliver evs) = Some 409"
    using main_conflict_run by blast
  with lock_conflict [OF ref_dmap r(1,4,5)] show ?thesis by blast
qed

text \<open>
  C3.  No \<open>POST /lock\<close>, whatever its body and its outcome, takes a held lock away or changes it.
\<close>

theorem lock_never_steals:
  assumes "olric_dmap api view" and "ready os s"
    and "run api (HandleLock (endpoints os m) r) s = (evs, s')" and "locks view os s q = Held l"
  shows "locks view os s' q = Held l"
  by (rule lock_service.HandleLock_never_steals
      [OF olric_lock_service [OF assms(1)] endpoints_manager assms(2-4)])

lemma lock_never_steals_witness:
  "\<exists>s evs s' l. run ref_api (HandleLock (endpoints default_store True) (post ''/lock'' main_body)) s = (evs, s') \<and>
     locks ref_data default_store s ''api'' = Held l \<and> locks ref_data default_store s' ''api'' = Held l"
proof -
  obtain s evs s' l where r: "ready default_store s" "locks ref_data default_store s ''api'' = Held l"
      "run ref_api (HandleLock (endpoints default_store True) (post ''/lock'' main_body)) s = (evs, s')"
    using main_conflict_run by blast
  with lock_never_steals [OF ref_dmap r(1,3,2)] show ?thesis by blast
qed

text \<open>
  C4.  Refinement: while Olric does not fail, \<open>POST /lock\<close> with acceptable names is the
  specification \<open>lock_spec\<close> on the project's slot: 200 and held if the slot is free or held by the
  branch, 409 and unchanged if held by another, 500 and unchanged if the slot is unreadable.
\<close>

theorem lock_refines:
  assumes "olric_live api view" and "ready os s" and "lock_target r = Some (p, b)"
  shows "\<exists>t evs s'. run api (HandleLock (endpoints os m) r) s = (evs, s') \<and> time_ok t \<and> ready os s' \<and>
    (status_of evs, locks view os s' p) = lock_spec (locks view os s p) p b t \<and>
    keeps_others (locks view os s) (locks view os s') p"
  by (rule lock_live.HandleLock_refines [OF olric_lock_live [OF assms(1)] endpoints_manager assms(2,3)])

lemma lock_refines_witness:
  "\<exists>t evs s'. run ref_api (HandleLock (endpoints default_store True) (post ''/lock'' sample_body)) ready_node
     = (evs, s') \<and> (status_of evs, locks ref_data default_store s' ''api'') =
        lock_spec Free ''api'' ''feat/x'' t"
  using lock_refines [OF ref_live ready_ready_node sample_lock_target, unfolded ready_node_free] by blast

text \<open>
  C5.  A \<open>POST /unlock\<close> that answers 200 leaves the project free and every other slot as it was.
  The branch and the owner play no part: the lock of another branch is released as well.
\<close>

theorem unlock_frees:
  assumes "olric_dmap api view" and "ready os s"
    and "run api (HandleUnlock (endpoints os m) r) s = (evs, s')" and "rs_code (deliver evs) = Some 200"
  shows "\<exists>p b. unlock_target r = Some (p, b) \<and> locks view os s' = (locks view os s)(p := Free)"
  by (rule lock_service.HandleUnlock_200 [OF olric_lock_service [OF assms(1)] endpoints_manager assms(2-4)])

lemma unlock_frees_witness:
  "\<exists>evs s'. run ref_api (HandleUnlock (endpoints default_store True) (post ''/unlock'' sample_body)) ready_node
     = (evs, s') \<and> rs_code (deliver evs) = Some 200 \<and> locks ref_data default_store s' ''api'' = Free"
proof -
  obtain evs s' where r: "run ref_api (HandleUnlock (endpoints default_store True)
      (post ''/unlock'' sample_body)) ready_node = (evs, s')" "status_of evs = 200"
    using lock_live.HandleUnlock_live [OF olric_lock_live [OF ref_live] endpoints_manager
        ready_ready_node sample_unlock_target] by blast
  have c: "rs_code (deliver evs) = Some 200" using r(2) by (rule status_of_Some)
  from unlock_frees [OF ref_dmap ready_ready_node r(1) c] r(1) c show ?thesis
    by (auto simp: sample_unlock_target)
qed

text \<open>
  C6.  \<open>GET /lock/{project}\<close> reads and never writes: 200 comes with the lock the project holds, 404
  means that it holds none.
\<close>

theorem get_reports:
  assumes "olric_dmap api view" and "ready os s"
    and "run api (HandleGetLock (endpoints os m) r) s = (evs, s')"
  shows "locks view os s' = locks view os s \<and>
    (rs_code (deliver evs) = Some 200 \<longrightarrow> (\<exists>p l. clean_name (rq_project r) = Some p \<and>
       locks view os s p = Held l \<and>
       deliver evs = deliver (respondLock 200 ''locked'' ''Lock exists'' (Some l)))) \<and>
    (rs_code (deliver evs) = Some 404 \<longrightarrow>
       (\<exists>p. clean_name (rq_project r) = Some p \<and> locks view os s p = Free))"
proof -
  note svc = olric_lock_service [OF assms(1), of os] and ep = endpoints_manager [of os m]
  show ?thesis
    using lock_service.HandleGetLock_keeps [OF svc ep assms(2,3)]
      lock_service.HandleGetLock_200 [OF svc ep assms(2,3)]
      lock_service.HandleGetLock_404 [OF svc ep assms(2,3)] by blast
qed

lemma get_reports_witness:
  "\<exists>s evs s' l. run ref_api (HandleGetLock (endpoints default_store True) (get_lock ''api'')) s = (evs, s') \<and>
     locks ref_data default_store s ''api'' = Held l \<and> Branch l = ''feat/x'' \<and> rs_code (deliver evs) = Some 200 \<and>
     locks ref_data default_store s' = locks ref_data default_store s \<and>
     deliver evs = deliver (respondLock 200 ''locked'' ''Lock exists'' (Some l))"
proof -
  obtain s :: "ref_world node" and l where s: "ready default_store s"
    "locks ref_data default_store s ''api'' = Held l" "Branch l = ''feat/x''"
    using sample_lock_run by fastforce
  obtain evs and s' :: "ref_world node" where r: "run ref_api (HandleGetLock (endpoints default_store True)
      (get_lock ''api'')) s = (evs, s')" "status_of evs = 200"
    using lock_live.HandleGetLock_live(1) [OF olric_lock_live [OF ref_live] endpoints_manager
        s(1) sample_get_target s(2)] by blast
  have c: "rs_code (deliver evs) = Some 200" using r(2) by (rule status_of_Some)
  from get_reports [OF ref_dmap s(1) r(1)] s(2) c
  have "locks ref_data default_store s' = locks ref_data default_store s"
    "deliver evs = deliver (respondLock 200 ''locked'' ''Lock exists'' (Some l))"
    by (auto simp: sample_get_target)
  with s r(1) c show ?thesis by blast
qed

text \<open>
  Handover, while Olric does not fail: after a branch has locked a free project, a lock by
  another branch is refused, and once the project is unlocked that other branch gets it.
\<close>

theorem lock_handover:
  assumes "olric_live api view" and "ready os s" and "locks view os s p = Free"
    and "lock_target r1 = Some (p, b)" "lock_target r2 = Some (p, b')" "unlock_target u = Some (p, c)"
    and "b \<noteq> b'"
  shows "\<exists>e1 e2 e3 e4 s1 s2 s3 s4 l l'. run api (HandleLock (endpoints os m) r1) s = (e1, s1) \<and>
    run api (HandleLock (endpoints os m) r2) s1 = (e2, s2) \<and>
    run api (HandleUnlock (endpoints os m) u) s2 = (e3, s3) \<and>
    run api (HandleLock (endpoints os m) r2) s3 = (e4, s4) \<and>
    map status_of [e1, e2, e3, e4] = [200, 409, 200, 200] \<and>
    locks view os s2 p = Held l \<and> Branch l = b \<and> locks view os s4 p = Held l' \<and> Branch l' = b'"
proof -
  note live = olric_lock_live [OF assms(1), of os] and ep = endpoints_manager [of os m]
  obtain t1 e1 s1 where 1: "run api (HandleLock (endpoints os m) r1) s = (e1, s1)" "ready os s1"
      "(status_of e1, locks view os s1 p) = lock_spec Free p b t1"
    using lock_live.HandleLock_refines [OF live ep assms(2,4)] assms(3) by metis
  define l where "l = stored_form (lock_for p b owner t1)"
  have s1: "status_of e1 = 200" "locks view os s1 p = Held l" "Branch l = b"
    using 1(3) by (simp_all add: lock_spec_def l_def)
  obtain t2 e2 s2 where 2: "run api (HandleLock (endpoints os m) r2) s1 = (e2, s2)" "ready os s2"
      "(status_of e2, locks view os s2 p) = lock_spec (Held l) p b' t2"
    using lock_live.HandleLock_refines [OF live ep 1(2) assms(5)] s1(2) by metis
  have s2: "status_of e2 = 409" "locks view os s2 p = Held l"
    using 2(3) s1(3) assms(7) by (simp_all add: lock_spec_def)
  obtain e3 s3 where 3: "run api (HandleUnlock (endpoints os m) u) s2 = (e3, s3)" "ready os s3"
      "status_of e3 = 200" "locks view os s3 = (locks view os s2)(p := Free)"
    using lock_live.HandleUnlock_live [OF live ep 2(2) assms(6)] by blast
  obtain t4 e4 s4 where 4: "run api (HandleLock (endpoints os m) r2) s3 = (e4, s4)"
      "(status_of e4, locks view os s4 p) = lock_spec Free p b' t4"
    using lock_live.HandleLock_refines [OF live ep 3(2) assms(5)] 3(4) by (metis fun_upd_same)
  from 4(2) have "status_of e4 = 200" "locks view os s4 p = Held (stored_form (lock_for p b' owner t4))"
    by (simp_all add: lock_spec_def)
  with 1 2 3 4 s1 s2 show ?thesis by auto
qed

lemma lock_handover_witness:
  "\<exists>e4 s3 s4 l'. run ref_api (HandleLock (endpoints default_store True) (post ''/lock'' main_body)) s3 = (e4, s4) \<and>
     status_of e4 = 200 \<and> locks ref_data default_store s4 ''api'' = Held l' \<and> Branch l' = ''main''"
proof -
  have ne: "''feat/x'' \<noteq> (''main'' :: string)" by simp
  show ?thesis
    using lock_handover [OF ref_live ready_ready_node ready_node_free sample_lock_target main_lock_target
        sample_unlock_target ne, of True] by (simp only: list.map list.inject) blast
qed

text \<open>
  C15.  Validation: a request is answered 400 exactly when its body does not decode or one of its
  names, trimmed, is empty, longer than 256 bytes or has a character outside \<open>[a-zA-Z0-9_/-]\<close>;
  it then reaches neither the store nor the clock.
\<close>

theorem invalid_is_400:
  "(status_of (fst (run api (HandleLock h r) s)) = 400) = (lock_target r = None) \<and>
   (status_of (fst (run api (HandleUnlock h r) s)) = 400) = (unlock_target r = None) \<and>
   (status_of (fst (run api (HandleGetLock h r) s)) = 400) = (clean_name (rq_project r) = None) \<and>
   (lock_target r = None \<longrightarrow> snd (run api (HandleLock h r) s) = s) \<and>
   (unlock_target r = None \<longrightarrow> snd (run api (HandleUnlock h r) s) = s) \<and>
   (clean_name (rq_project r) = None \<longrightarrow> snd (run api (HandleGetLock h r) s) = s)"
  using HandleLock_replies [of api h r s] HandleUnlock_replies [of api h r s]
    HandleGetLock_replies [of api h r s]
  by blast

lemma invalid_is_400_witness:
  "lock_target (post ''/lock'' ''{}'') = None \<and>
   status_of (fst (run ref_api (HandleLock (endpoints default_store True) (post ''/lock'' ''{}'')) ref_node)) = 400 \<and>
   snd (run ref_api (HandleLock (endpoints default_store True) (post ''/lock'' ''{}'')) ref_node) = ref_node"
proof -
  have "lock_target (post ''/lock'' ''{}'') = None" by code_simp
  with invalid_is_400 [of ref_api "endpoints default_store True" "post ''/lock'' ''{}''" ref_node]
  show ?thesis by simp
qed

text \<open>
  C16.  Every request is answered with a status its handler's comment names and one JSON object, a
  \<open>LockResponse\<close> that a client reads back, whose status word goes with the code and which shows a lock
  only where one belongs; the body is empty only for a lock whose time has no text.  With metrics on
  the request is counted exactly once under the outcome the status stands for.
\<close>

theorem replies_counted:
  "status_of (fst (run api (HandleLock h r) s)) \<in> {200, 400, 409, 500} \<and>
   status_of (fst (run api (HandleUnlock h r) s)) \<in> {200, 400, 500} \<and>
   status_of (fst (run api (HandleGetLock h r) s)) \<in> {200, 400, 404, 500} \<and>
   (let evs = fst (run api (HandleLock h r) s) in
      metric_calls evs = counted h ''lock'' (lock_outcome (status_of evs)) \<and> json_reply ''lock'' evs) \<and>
   (let evs = fst (run api (HandleUnlock h r) s) in
      metric_calls evs = counted h ''unlock'' (lock_outcome (status_of evs)) \<and> json_reply ''unlock'' evs) \<and>
   (let evs = fst (run api (HandleGetLock h r) s) in
      metric_calls evs = counted h ''get'' (get_outcome (status_of evs)) \<and> json_reply ''get'' evs)"
  by (simp only: Let_def HandleLock_replies HandleUnlock_replies HandleGetLock_replies simp_thms)

section \<open>Requests served at the same time\<close>

text \<open>
  C13.  Under every interleaving of lock, unlock and get requests, whatever Olric answers, the map
  keeps its shape: every entry is a lock that can be read back and shown, stored under its own project.
\<close>

theorem table_stays_tidy:
  assumes "olric_dmap api view" and "handle_ok os s" and "tidy (locks view os s)"
    and "reaches api (map (serve (endpoints os m)) cs, s) (ps, s')"
  shows "tidy (locks view os s')"
  by (rule olric_node.tidy_reaches [OF olric_node.intro [OF assms(1)] assms(4) endpoints_manager assms(2,3)])

text \<open>
  C14.  Under every interleaving, a project that no request of the pool unlocks is never freed, a
  project that no request locks is never taken, and one that neither touches keeps its very slot.
\<close>

theorem requests_keep_to_their_project:
  assumes "olric_dmap api view" and "handle_ok os s"
    and "reaches api (map (serve (endpoints os m)) cs, s) (ps, s')"
  shows "((\<forall>c \<in> set cs. unlocks_project c \<noteq> Some p) \<longrightarrow> locks view os s p \<noteq> Free \<longrightarrow> locks view os s' p \<noteq> Free) \<and>
    ((\<forall>c \<in> set cs. locks_project c \<noteq> Some p) \<longrightarrow> locks view os s p = Free \<longrightarrow> locks view os s' p = Free) \<and>
    ((\<forall>c \<in> set cs. locks_project c \<noteq> Some p \<and> unlocks_project c \<noteq> Some p) \<longrightarrow>
      locks view os s' p = locks view os s p)"
  using olric_node.frame_reaches [OF olric_node.intro [OF assms(1)] assms(3) endpoints_manager assms(2)]
  by blast

text \<open>
  C9.  Mutual exclusion is not among these invariants.  Two requests for one free project, by any
  two branches, have an interleaving in which both are answered 200, although nothing fails: the
  store's \<open>PutIfAbsent\<close> looks and then writes, and both requests look before either writes.  The
  comments on \<open>Store.PutIfAbsent\<close> and in \<open>AcquireLock\<close> call the operation atomic.
\<close>

theorem double_grant:
  assumes "olric_live api view" and "ready os s" and "locks view os s p = Free"
    and "lock_target r1 = Some (p, b1)" and "lock_target r2 = Some (p, b2)"
  shows "\<exists>e1 e2 s' t. reaches api (map (serve (endpoints os m)) [CallLock r1, CallLock r2], s) ([Ret e1, Ret e2], s') \<and>
    status_of e1 = 200 \<and> status_of e2 = 200 \<and>
    locks view os s' p = Held (stored_form (lock_for p b1 owner t))"
proof -
  have "olric_node_live api view"
    using assms(1) by (simp add: olric_node_live_def olric_node_def olric_live_def)
  from olric_node_live.both_granted [OF this endpoints_manager assms(2-5)] show ?thesis by simp
qed

lemma table_stays_tidy_witness:
  "\<exists>ps s'. reaches ref_api (map (serve (endpoints default_store True))
      [CallLock (post ''/lock'' sample_body), CallLock (post ''/lock'' main_body)], ready_node) (ps, s') \<and>
    tidy (locks ref_data default_store s') \<and> locks ref_data default_store s' ''api'' \<noteq> Free"
proof -
  have "tidy (locks ref_data default_store ready_node)"
    unfolding tidy_def using ready_node_free by simp
  from table_stays_tidy [OF ref_dmap ready_node_handle this] sample_race show ?thesis by fastforce
qed

lemma requests_keep_to_their_project_witness:
  "\<exists>ps s'. reaches ref_api (map (serve (endpoints default_store True))
      [CallLock (post ''/lock'' sample_body), CallLock (post ''/lock'' main_body)], ready_node) (ps, s') \<and>
    locks ref_data default_store s' ''api'' \<noteq> Free \<and> locks ref_data default_store s' ''web'' = Free"
proof -
  obtain e1 e2 s' where r: "reaches ref_api (map (serve (endpoints default_store True))
      [CallLock (post ''/lock'' sample_body), CallLock (post ''/lock'' main_body)], ready_node)
      ([Ret e1, Ret e2], s')" "locks ref_data default_store s' ''api'' \<noteq> Free"
    using sample_race by fastforce
  from requests_keep_to_their_project [OF ref_dmap ready_node_handle r(1), of "''web''"]
  have "locks ref_data default_store s' ''web'' = Free"
    by (simp add: sample_lock_target main_lock_target ready_node_free)
  with r show ?thesis by blast
qed

lemma double_grant_witness:
  "\<exists>e1 e2 s'. reaches ref_api (map (serve (endpoints default_store True))
      [CallLock (post ''/lock'' sample_body), CallLock (post ''/lock'' main_body)], ready_node) ([Ret e1, Ret e2], s') \<and>
    status_of e1 = 200 \<and> status_of e2 = 200"
  using double_grant [OF ref_live ready_ready_node ready_node_free sample_lock_target main_lock_target]
  by blast

text \<open>
  C10.  What is left of the specification when requests overlap.  While Olric does not fail, a request
  that is the only one of the pool to write to its project is answered as the table machine answers
  it, and leaves that project's slot as the machine does, in every schedule and whatever the others
  do; and it is done after seventeen steps of its own.
\<close>

theorem alone_on_its_project:
  assumes "olric_live api view" and "ready os s" and "i < length cs"
    and "project_of (cs ! i) = Some p" and "sole_writer i p cs" and "17 \<le> count_list is i"
  shows "\<exists>evs t a T. fst (schedule api is (map (serve (endpoints os m)) cs, s)) ! i = Ret evs \<and> time_ok t \<and>
    table_step t (cs ! i) (locks view os s) = (a, T) \<and> answers (deliver evs) a \<and>
    locks view os (snd (schedule api is (map (serve (endpoints os m)) cs, s))) p = T p"
proof -
  have "olric_node_live api view"
    using assms(1) by (simp add: olric_node_live_def olric_node_def olric_live_def)
  from olric_node_live.alone [OF this endpoints_manager assms(2-6)] show ?thesis .
qed

text \<open>Two requests, one move each in turn.\<close>

definition in_turn :: "nat list" where
  "in_turn = concat (replicate 17 [0, 1])"

lemma in_turn_count: "17 \<le> count_list in_turn 0" "17 \<le> count_list in_turn 1"
  by (simp_all add: in_turn_def numeral_eq_Suc)

lemma alone_on_its_project_witness:
  "\<exists>evs l. fst (schedule ref_api in_turn (map (serve (endpoints default_store True))
      [CallLock (post ''/lock'' sample_body), CallGet (get_lock ''api'')], ready_node)) ! 0 = Ret evs \<and>
    rs_code (deliver evs) = Some 200 \<and>
    locks ref_data default_store (snd (schedule ref_api in_turn (map (serve (endpoints default_store True))
      [CallLock (post ''/lock'' sample_body), CallGet (get_lock ''api'')], ready_node))) ''api'' = Held l \<and>
    Branch l = ''feat/x''"
proof -
  let ?cs = "[CallLock (post ''/lock'' sample_body), CallGet (get_lock ''api'')]"
  have "0 < length ?cs" "project_of (?cs ! 0) = Some ''api''" "sole_writer 0 ''api'' ?cs"
    by (auto simp: sample_lock_target sole_writer_def less_Suc_eq)
  from alone_on_its_project [OF ref_live ready_ready_node this in_turn_count(1), of True] obtain evs t a T where
    r: "fst (schedule ref_api in_turn (map (serve (endpoints default_store True)) ?cs, ready_node)) ! 0 = Ret evs"
      "table_step t (?cs ! 0) (locks ref_data default_store ready_node) = (a, T)" "answers (deliver evs) a"
      "locks ref_data default_store (snd (schedule ref_api in_turn (map (serve (endpoints default_store True)) ?cs,
        ready_node))) ''api'' = T ''api''" by blast
  from r(2) obtain l where "a = (200, Some l)" "T ''api'' = Held (stored_form l)" "Branch l = ''feat/x''"
    by (auto simp: sample_lock_target ready_node_free)
  with r answers_code show ?thesis by fastforce
qed

text \<open>
  C12.  No request waits for another: whatever Olric answers and whoever else moves, a request is
  done after seventeen calls of its own on Olric, the clock and the handle of the map.
\<close>

theorem requests_finish:
  assumes "i < length cs" and "17 \<le> count_list is i"
  shows "\<exists>evs. fst (schedule api is (map (serve (endpoints os m)) cs, s)) ! i = Ret evs"
  by (rule finishes [OF assms endpoints_manager])

lemma requests_finish_witness:
  "\<exists>e1 e2. fst (schedule ref_api in_turn (map (serve (endpoints default_store True))
      [CallLock (post ''/lock'' sample_body), CallLock (post ''/lock'' main_body)], ready_node)) ! 0 = Ret e1 \<and>
    fst (schedule ref_api in_turn (map (serve (endpoints default_store True))
      [CallLock (post ''/lock'' sample_body), CallLock (post ''/lock'' main_body)], ready_node)) ! 1 = Ret e2"
proof -
  have n: "0 < length [CallLock (post ''/lock'' sample_body), CallLock (post ''/lock'' main_body)]"
    "1 < length [CallLock (post ''/lock'' sample_body), CallLock (post ''/lock'' main_body)]" by simp_all
  from requests_finish [OF n(1) in_turn_count(1)] requests_finish [OF n(2) in_turn_count(2)] show ?thesis by blast
qed

text \<open>
  C11.  The type of the replies.  From a tidy map, under every interleaving and whatever Olric
  answers, every request that is done has sent one JSON object that a client's decoder reads back:
  a \<open>LockResponse\<close> whose status word goes with the status code, and which shows a lock whenever the
  code is 409 and never with 400, 404 or 500.
\<close>

theorem replies_well_formed:
  assumes "olric_dmap api view" and "ready os s" and "tidy (locks view os s)"
    and "reaches api (map (serve (endpoints os m)) cs, s) (ps, s')" and "i < length ps" and "ps ! i = Ret evs"
  shows "reply_ok (deliver evs)"
  using replies_typed [OF assms(1) endpoints_manager assms(2-4)] assms(5,6) by blast

lemma replies_well_formed_witness:
  "\<exists>e1 e2 s'. reaches ref_api (map (serve (endpoints default_store True))
      [CallLock (post ''/lock'' sample_body), CallLock (post ''/lock'' main_body)], ready_node) ([Ret e1, Ret e2], s') \<and>
    reply_ok (deliver e1) \<and> reply_ok (deliver e2)"
proof -
  obtain e1 e2 s' where r: "reaches ref_api (map (serve (endpoints default_store True))
      [CallLock (post ''/lock'' sample_body), CallLock (post ''/lock'' main_body)], ready_node) ([Ret e1, Ret e2], s')"
    using sample_race by blast
  have t: "tidy (locks ref_data default_store ready_node)"
    unfolding tidy_def using ready_node_free by simp
  note wf = replies_well_formed [OF ref_dmap ready_ready_node t r]
  from wf [of 0 e1] wf [of 1 e2] r show ?thesis by auto
qed

section \<open>Sessions with the service that \<open>New\<close> has built\<close>

text \<open>
  C7.  Refinement of the whole service: while Olric does not fail, any sequence of lock requests
  sent to a server that \<open>New\<close> has built, through its router and its middlewares, is answered as the
  table machine answers it, and leaves the table of locks that the machine leaves.
\<close>

theorem session_refines:
  assumes "olric_live api view" and "run api (NewServer su v cfg info) n0 = (Booted s cs, n)" and "dmap n0 = None"
    and "chi_serves chi" and "chi_passes api lib" and "list_all is_lock_request rs"
  shows "\<exists>ts resps n' as. length ts = length rs \<and> list_all time_ok ts \<and>
    session api (chi (setupAPIRouter lib (srv_lockManager s) m)) rs n = (resps, n') \<and>
    table_run (zip ts (map (\<lambda>r. the (api_route r)) rs)) (locks view (srv_store s) n) =
      (as, locks view (srv_store s) n') \<and>
    list_all2 answers resps as"
proof -
  have "ready (srv_store s) n" "srv_lockManager s = olric_locks (srv_store s)"
    using booted [OF assms(2,3)] by auto
  with session_run [OF assms(1,4-6), of "srv_store s" n m] show ?thesis by metis
qed

lemma session_codes: "list_all2 answers resps as \<Longrightarrow> map rs_code resps = map (Some \<circ> fst) as"
  by (induction rule: list_all2_induct) (auto dest: answers_code)

lemma session_refines_witness:
  "\<exists>s cs n resps n' l. run ref_api (NewServer sample_startup ''go1.24'' sample_config (\<lambda>_. None)) ref_node = (Booted s cs, n) \<and>
    session ref_api (ref_chi () (setupAPIRouter ref_middleware (srv_lockManager s) True)) sample_session n = (resps, n') \<and>
    map rs_code resps = [Some 200, Some 200, Some 409, Some 200, Some 200, Some 200] \<and>
    locks ref_data (srv_store s) n' ''api'' = Held l \<and> Branch l = ''main''"
proof -
  obtain s cs n where s: "run ref_api (NewServer sample_startup ''go1.24'' sample_config (\<lambda>_. None)) ref_node = (Booted s cs, n)"
    by (rule sample_boot)
  have d: "dmap ref_node = None" by (simp add: ref_node_def)
  let ?tcs = "\<lambda>ts. zip ts (map (\<lambda>r. the (api_route r)) sample_session)"
  obtain ts resps n' as where r: "length ts = length sample_session"
    "session ref_api (ref_chi () (setupAPIRouter ref_middleware (srv_lockManager s) True)) sample_session n = (resps, n')"
    "table_run (?tcs ts) (locks ref_data (srv_store s) n) = (as, locks ref_data (srv_store s) n')"
    "list_all2 answers resps as"
    using session_refines [OF ref_live s d ref_chi_serves ref_middleware_passes sample_session_routed, of "()"] by blast
  have "length ts = 6" using r(1) by (simp add: sample_session_def)
  then obtain l l' where "map fst as = [200, 200, 409, 200, 200, 200]"
    "locks ref_data (srv_store s) n' ''api'' = Held l" "Branch l = ''main''"
    using sample_answers [of ts "locks ref_data (srv_store s) n"] unfolding r(3) by auto
  moreover have "map rs_code resps = map Some (map fst as)" using session_codes [OF r(4)] by simp
  ultimately show ?thesis using s r(2) by auto
qed

text \<open>
  C8.  Exclusion without overlap: when requests are served one after the other, then whatever fails,
  between two lock requests for one project by different branches that were both answered 200 there
  was a request that unlocked the project.  (Compare \<open>double_grant\<close>.)
\<close>

theorem session_exclusive:
  assumes "olric_dmap api view" and "run api (NewServer su v cfg info) n0 = (Booted s cs, n)" and "dmap n0 = None"
    and "chi_serves chi" and "chi_passes api lib" and "list_all is_lock_request rs"
    and "session api (chi (setupAPIRouter lib (srv_lockManager s) m)) rs n = (resps, n')"
    and "i < j" and "j < length rs" and "asks_lock (rs ! i) p b" and "asks_lock (rs ! j) p b'" and "b \<noteq> b'"
    and "rs_code (resps ! i) = Some 200" and "rs_code (resps ! j) = Some 200"
  shows "\<exists>k. i < k \<and> k < j \<and> asks_unlock (rs ! k) p"
proof -
  have os: "ready (srv_store s) n" "srv_lockManager s = olric_locks (srv_store s)"
    using booted [OF assms(2,3)] by auto
  show ?thesis
    by (rule olric_node.exclusive [OF olric_node.intro [OF assms(1)] assms(4-6) os(1)
          assms(7) [unfolded os(2)] assms(8-14)])
qed

lemma session_exclusive_witness:
  "\<exists>k. 1 < k \<and> k < 5 \<and> asks_unlock (sample_session ! k) ''api''"
proof -
  obtain s cs n where s: "run ref_api (NewServer sample_startup ''go1.24'' sample_config (\<lambda>_. None)) ref_node = (Booted s cs, n)"
    "srv_store s = default_store" by (rule sample_boot)
  have d: "dmap ref_node = None" by (simp add: ref_node_def)
  have os: "ready default_store n" "srv_lockManager s = olric_locks default_store"
    using booted [OF s(1) d] s(2) by auto
  obtain ts resps n' as where r: "length ts = length sample_session"
    "session ref_api (ref_chi () (setupAPIRouter ref_middleware (srv_lockManager s) True)) sample_session n = (resps, n')"
    "table_run (zip ts (map (\<lambda>r. the (api_route r)) sample_session)) (locks ref_data default_store n) =
      (as, locks ref_data default_store n')"
    "list_all2 answers resps as"
    using session_run [OF ref_live ref_chi_serves ref_middleware_passes sample_session_routed os(1), of "()" True]
    unfolding os(2) by blast
  have "length ts = 6" using r(1) by (simp add: sample_session_def)
  then have "map fst as = [200, 200, 409, 200, 200, 200]"
    using sample_answers [of ts "locks ref_data default_store n"] unfolding r(3) by auto
  then have "map rs_code resps = map Some [200, 200, 409, 200, 200, 200]"
    using session_codes [OF r(4)] by (metis list.map_comp)
  then have "rs_code (resps ! 1) = Some 200" "rs_code (resps ! 5) = Some 200"
    by (auto simp: map_eq_Cons_conv)
  then show ?thesis
    using session_exclusive [OF ref_dmap s(1) d ref_chi_serves ref_middleware_passes sample_session_routed r(2),
        of 1 5 "''api''" "''feat/x''" "''main''"]
    by (simp add: sample_session_def asks_lock_def sample_routes sample_targets)
qed

end
